(* ===== verification/Franken_Prelude.thy ===== *)
theory Franken_Prelude
  imports Main "HOL-Library.Word"
begin

text \<open>
  Shared vocabulary of the development: the error numbers of the embedded libc, C
  integers of a fixed width written as \<^typ>\<open>int\<close> with their wrap-around, flag words,
  byte buffers addressed by a base and a length, and the generic lemmas the component
  theories use.
  \<^item> \<open>errno\<close> and \<open>errno_val\<close>: franken/include/sys/errno.h.
  \<^item> \<open>wrap32\<close>, \<open>wrap64\<close>: the value a computation has once it is stored in an
    \<open>int\<close> or an \<open>int64_t\<close> (two's complement).
  \<^item> \<open>has_flag\<close>: the test \<open>flags & MASK\<close>.
  \<^item> \<open>Reg\<close>: the half-open address interval of a block of memory.
  \<^item> \<open>enc_le\<close>, \<open>dec_le\<close>, \<open>put_at\<close>: numbers as bytes and writes to a buffer.
\<close>

unbundle bit_operations_syntax

named_theorems flag_simps \<open>rewrite rules for flag words\<close>
named_theorems reg_simps \<open>rewrite rules for address intervals\<close>

section \<open>Error numbers\<close>

text \<open>The error numbers that the modelled sources return, with the values of the header.\<close>

datatype errno =
    EPERM | ENOENT | ESRCH | EINTR | EIO | ENXIO | E2BIG | EBADF | ENOMEM | EFAULT
  | EBUSY | EEXIST | EINVAL | ENOTTY | EPIPE | ERANGE | EAGAIN | EOPNOTSUPP | ENETRESET
  | ENOTCONN | ETIMEDOUT | ENAMETOOLONG | ENOSYS

fun errno_val :: "errno \<Rightarrow> int" where
  "errno_val EPERM = 1"
| "errno_val ENOENT = 2"
| "errno_val ESRCH = 3"
| "errno_val EINTR = 4"
| "errno_val EIO = 5"
| "errno_val ENXIO = 6"
| "errno_val E2BIG = 7"
| "errno_val EBADF = 9"
| "errno_val ENOMEM = 12"
| "errno_val EFAULT = 14"
| "errno_val EBUSY = 16"
| "errno_val EEXIST = 17"
| "errno_val EINVAL = 22"
| "errno_val ENOTTY = 25"
| "errno_val EPIPE = 32"
| "errno_val ERANGE = 34"
| "errno_val EAGAIN = 35"
| "errno_val EOPNOTSUPP = 45"
| "errno_val ENETRESET = 52"
| "errno_val ENOTCONN = 57"
| "errno_val ETIMEDOUT = 60"
| "errno_val ENAMETOOLONG = 63"
| "errno_val ENOSYS = 78"

lemma errno_val_pos [simp]: "0 < errno_val e"
  by (cases e) simp_all

lemma errno_val_inj: "errno_val e = errno_val f \<Longrightarrow> e = f"
  by (cases e; cases f; simp)

section \<open>C integers\<close>

definition wrap32 :: "int \<Rightarrow> int" where
  "wrap32 x = signed_take_bit 31 x"

definition wrap64 :: "int \<Rightarrow> int" where
  "wrap64 x = signed_take_bit 63 x"

lemma wrap32_id: "- (2 ^ 31) \<le> x \<Longrightarrow> x < 2 ^ 31 \<Longrightarrow> wrap32 x = x"
  unfolding wrap32_def by (rule signed_take_bit_int_eq_self) simp_all

lemma wrap64_id: "- (2 ^ 63) \<le> x \<Longrightarrow> x < 2 ^ 63 \<Longrightarrow> wrap64 x = x"
  unfolding wrap64_def by (rule signed_take_bit_int_eq_self) simp_all

lemma wrap64_range: "- (2 ^ 63) \<le> wrap64 x \<and> wrap64 x < 2 ^ 63"
  unfolding wrap64_def
  by (simp only: signed_take_bit_int_greater_eq_minus_exp signed_take_bit_int_less_exp simp_thms)

section \<open>Flag words\<close>

definition has_flag :: "32 word \<Rightarrow> 32 word \<Rightarrow> bool" where
  "has_flag f m \<longleftrightarrow> f AND m \<noteq> 0"

lemma has_flag_or [flag_simps]: "has_flag (f OR g) m \<longleftrightarrow> has_flag f m \<or> has_flag g m"
  unfolding has_flag_def by (simp add: and.commute [of _ m] bit.conj_disj_distrib or_eq_0_iff)

lemma has_flag_0 [flag_simps]: "\<not> has_flag 0 m"
  by (simp add: has_flag_def)

lemma has_flag_clear [flag_simps]:
  "has_flag (f AND NOT g) m \<longleftrightarrow> has_flag f (m AND NOT g)"
  by (simp add: has_flag_def ac_simps)

lemma has_flag_mask0 [flag_simps]: "\<not> has_flag f 0"
  by (simp add: has_flag_def)

lemma has_flag_numeral [flag_simps]:
  "has_flag (numeral n) m \<longleftrightarrow> numeral n AND m \<noteq> 0"
  "has_flag 1 m \<longleftrightarrow> 1 AND m \<noteq> 0"
  by (simp_all add: has_flag_def)

section \<open>Address intervals\<close>

definition Reg :: "nat \<Rightarrow> nat \<Rightarrow> nat set" where
  "Reg a n = {a..<a + n}"

lemma Reg_mem [reg_simps, simp]: "x \<in> Reg a n \<longleftrightarrow> a \<le> x \<and> x < a + n"
  by (simp add: Reg_def)

lemma Reg_disjoint_iff [reg_simps]:
  "0 < m \<Longrightarrow> 0 < n \<Longrightarrow> Reg a m \<inter> Reg b n = {} \<longleftrightarrow> a + m \<le> b \<or> b + n \<le> a"
proof
  assume pos: "0 < m" "0 < n" and dis: "Reg a m \<inter> Reg b n = {}"
  show "a + m \<le> b \<or> b + n \<le> a"
  proof (rule ccontr)
    assume "\<not> (a + m \<le> b \<or> b + n \<le> a)"
    with pos have "max a b \<in> Reg a m \<inter> Reg b n" by auto
    with dis show False by simp
  qed
qed auto

lemma Reg_subset: "a \<le> b \<Longrightarrow> b + n \<le> a + m \<Longrightarrow> Reg b n \<subseteq> Reg a m"
  by auto

section \<open>Byte strings\<close>

text \<open>Numbers of \<open>n\<close> bytes on a little-endian host.\<close>

type_synonym bytes = "8 word list"

fun enc_le :: "nat \<Rightarrow> nat \<Rightarrow> bytes" where
  "enc_le 0 x = []"
| "enc_le (Suc n) x = word_of_nat (x mod 256) # enc_le n (x div 256)"

fun dec_le :: "bytes \<Rightarrow> nat" where
  "dec_le [] = 0"
| "dec_le (b # bs) = unat b + 256 * dec_le bs"

lemma length_enc_le [simp]: "length (enc_le n x) = n"
  by (induction n arbitrary: x) auto

lemma dec_enc_le: "x < 256 ^ n \<Longrightarrow> dec_le (enc_le n x) = x"
proof (induction n arbitrary: x)
  case (Suc n)
  then have "x div 256 < 256 ^ n" by (simp add: less_mult_imp_div_less mult.commute)
  with Suc.IH show ?case by (simp add: unat_of_nat)
qed simp

lemma dec_le_bound: "dec_le bs < 256 ^ length bs"
proof (induction bs)
  case (Cons b bs)
  have "unat b < 256" using unsigned_less [of b] by simp
  with Cons show ?case by simp
qed simp

text \<open>Bytes written at an index of an object; \<open>None\<close> is a write outside of it.\<close>

definition put_at :: "nat \<Rightarrow> bytes \<Rightarrow> bytes \<Rightarrow> bytes option" where
  "put_at i bs d = (if i + length bs \<le> length d then Some (take i d @ bs @ drop (i + length bs) d) else None)"

section \<open>Generic lemmas\<close>

lemma takeWhile_neq_append:
  "x \<notin> set ys \<Longrightarrow> takeWhile (\<lambda>c. c \<noteq> x) (ys @ x # zs) = ys"
  by (induction ys) auto

lemma insert_set_remove1: "x \<in> set xs \<Longrightarrow> insert x (set (remove1 x xs)) = set xs"
  by (induction xs) auto

end
