(* ===== verification/Tailq.thy ===== *)
theory Tailq
  imports Franken_Prelude
begin

text \<open>
  The tail queue macros of franken/include/sys/queue.h at pointer level, and their
  refinement to lists.  A \<open>cell\<close> is the address of a pointer to an element: the head's
  \<open>tqh_first\<close> or the \<open>tqe_next\<close> of an element; \<open>tqh_last\<close> and \<open>tqe_prev\<close> hold
  such addresses.  The macros are straight-line pointer updates.  \<open>tq_rep q xs\<close> says that
  the head and entries of \<open>q\<close> form the doubly linked chain of exactly the elements
  \<open>xs\<close>.  The locale \<open>tail_queue\<close> is the interface the scheduler, the wait queues and
  the request queues rely on; the theories above use queues as lists, which the
  interpretation at the end justifies.
\<close>

section \<open>Heads, entries and macros\<close>

datatype cell = HeadC | NextC nat

record tq =
  tqh_first :: "nat option"
  tqh_last :: cell
  tqe_next :: "nat \<Rightarrow> nat option"
  tqe_prev :: "nat \<Rightarrow> cell"

fun read_cell :: "tq \<Rightarrow> cell \<Rightarrow> nat option" where
  "read_cell q HeadC = tqh_first q"
| "read_cell q (NextC e) = tqe_next q e"

fun write_cell :: "cell \<Rightarrow> nat option \<Rightarrow> tq \<Rightarrow> tq" where
  "write_cell HeadC v q = q\<lparr>tqh_first := v\<rparr>"
| "write_cell (NextC e) v q = q\<lparr>tqe_next := (tqe_next q)(e := v)\<rparr>"

definition set_prev :: "nat \<Rightarrow> cell \<Rightarrow> tq \<Rightarrow> tq" where
  "set_prev e c q = q\<lparr>tqe_prev := (tqe_prev q)(e := c)\<rparr>"

definition TAILQ_INIT :: "tq \<Rightarrow> tq" where
  "TAILQ_INIT q = q\<lparr>tqh_first := None, tqh_last := HeadC\<rparr>"

definition TAILQ_FIRST :: "tq \<Rightarrow> nat option" where
  "TAILQ_FIRST q = tqh_first q"

definition TAILQ_EMPTY :: "tq \<Rightarrow> bool" where
  "TAILQ_EMPTY q \<longleftrightarrow> TAILQ_FIRST q = None"

definition TAILQ_INSERT_HEAD :: "nat \<Rightarrow> tq \<Rightarrow> tq" where
  "TAILQ_INSERT_HEAD elm q =
     (let f = tqh_first q;
          q = write_cell (NextC elm) f q;
          q = (case f of Some e \<Rightarrow> set_prev e (NextC elm) q
                       | None \<Rightarrow> q\<lparr>tqh_last := NextC elm\<rparr>);
          q = q\<lparr>tqh_first := Some elm\<rparr>
      in set_prev elm HeadC q)"

definition TAILQ_INSERT_TAIL :: "nat \<Rightarrow> tq \<Rightarrow> tq" where
  "TAILQ_INSERT_TAIL elm q =
     (let q = write_cell (NextC elm) None q;
          q = set_prev elm (tqh_last q) q;
          q = write_cell (tqh_last q) (Some elm) q
      in q\<lparr>tqh_last := NextC elm\<rparr>)"

definition TAILQ_REMOVE :: "nat \<Rightarrow> tq \<Rightarrow> tq" where
  "TAILQ_REMOVE elm q =
     (let q = (case tqe_next q elm of
                 Some e \<Rightarrow> set_prev e (tqe_prev q elm) q
               | None \<Rightarrow> q\<lparr>tqh_last := tqe_prev q elm\<rparr>)
      in write_cell (tqe_prev q elm) (tqe_next q elm) q)"

text \<open>
  \<open>TAILQ_FOREACH\<close> visits the elements from \<open>tqh_first\<close> on; the fuel bounds the walk
  along the \<open>tqe_next\<close> chain, \<open>None\<close> is a walk that did not reach the end.
\<close>

fun TAILQ_FOREACH :: "nat \<Rightarrow> tq \<Rightarrow> nat option \<Rightarrow> nat list option" where
  "TAILQ_FOREACH n q None = Some []"
| "TAILQ_FOREACH 0 q (Some e) = None"
| "TAILQ_FOREACH (Suc n) q (Some e) = map_option ((#) e) (TAILQ_FOREACH n q (tqe_next q e))"

section \<open>Chains\<close>

fun tq_seg :: "tq \<Rightarrow> cell \<Rightarrow> nat list \<Rightarrow> cell \<Rightarrow> bool" where
  "tq_seg q c [] l \<longleftrightarrow> l = c"
| "tq_seg q c (x # xs) l \<longleftrightarrow> read_cell q c = Some x \<and> tqe_prev q x = c \<and> tq_seg q (NextC x) xs l"

definition tq_rep :: "tq \<Rightarrow> nat list \<Rightarrow> bool" where
  "tq_rep q xs \<longleftrightarrow> distinct xs \<and> tq_seg q HeadC xs (tqh_last q) \<and> read_cell q (tqh_last q) = None"

lemma tq_seg_append:
  "tq_seg q c (xs @ ys) l \<longleftrightarrow> (\<exists>m. tq_seg q c xs m \<and> tq_seg q m ys l)"
  by (induction xs arbitrary: c) auto

lemma tq_seg_end: "tq_seg q c xs l \<Longrightarrow> l = (if xs = [] then c else NextC (last xs))"
  by (induction xs arbitrary: c) (auto split: if_splits)

lemma tq_seg_cong:
  assumes "xs \<noteq> [] \<Longrightarrow> read_cell q' c = read_cell q c"
    and "\<And>x. x \<in> set (butlast xs) \<Longrightarrow> tqe_next q' x = tqe_next q x"
    and "\<And>x. x \<in> set xs \<Longrightarrow> tqe_prev q' x = tqe_prev q x"
  shows "tq_seg q' c xs l = tq_seg q c xs l"
  using assms
proof (induction xs arbitrary: c)
  case (Cons x xs)
  have "tq_seg q' (NextC x) xs l = tq_seg q (NextC x) xs l"
  proof (rule Cons.IH)
    show "read_cell q' (NextC x) = read_cell q (NextC x)" if "xs \<noteq> []"
      using that Cons.prems(2) [of x] by simp
    show "tqe_next q' y = tqe_next q y" if "y \<in> set (butlast xs)" for y
      using that Cons.prems(2) [of y] by (cases "xs = []") simp_all
  qed (use Cons.prems(3) in simp)
  with Cons.prems show ?case by simp
qed simp

lemma read_write_cell [simp]:
  "read_cell (write_cell c v q) d = (if d = c then v else read_cell q d)"
  by (cases c; cases d) auto

lemma write_cell_frame [simp]:
  "tqh_last (write_cell c v q) = tqh_last q"
  "tqe_prev (write_cell c v q) = tqe_prev q"
  by (cases c; simp)+

lemma tqe_next_write [simp]:
  "tqe_next (write_cell c v q) e = (if c = NextC e then v else tqe_next q e)"
  by (cases c) auto

lemma set_prev_frame [simp]:
  "tqh_last (set_prev e c q) = tqh_last q"
  "tqh_first (set_prev e c q) = tqh_first q"
  "tqe_next (set_prev e c q) = tqe_next q"
  "tqe_prev (set_prev e c q) x = (if x = e then c else tqe_prev q x)"
  "read_cell (set_prev e c q) d = read_cell q d"
  by (cases d; simp add: set_prev_def)+

lemma read_cell_upd_last [simp]: "read_cell (q\<lparr>tqh_last := l\<rparr>) d = read_cell q d"
  by (cases d) simp_all

lemma read_cell_upd_first [simp]:
  "read_cell (q\<lparr>tqh_first := v\<rparr>) d = (if d = HeadC then v else read_cell q d)"
  by (cases d) simp_all

lemma tqh_first_write [simp]:
  "tqh_first (write_cell c v q) = (if c = HeadC then v else tqh_first q)"
  by (cases c) simp_all

section \<open>The macros implement list operations\<close>

lemma tq_rep_init: "tq_rep (TAILQ_INIT q) []"
  by (simp add: tq_rep_def TAILQ_INIT_def)

lemma tq_rep_first: "tq_rep q xs \<Longrightarrow> TAILQ_FIRST q = (case xs of [] \<Rightarrow> None | x # _ \<Rightarrow> Some x)"
  by (auto simp: tq_rep_def TAILQ_FIRST_def split: list.splits)

lemma tq_rep_empty: "tq_rep q xs \<Longrightarrow> TAILQ_EMPTY q \<longleftrightarrow> xs = []"
  by (auto simp: TAILQ_EMPTY_def tq_rep_first split: list.splits)

lemma tq_rep_insert_tail:
  assumes "tq_rep q xs" and "e \<notin> set xs"
  shows "tq_rep (TAILQ_INSERT_TAIL e q) (xs @ [e])"
proof -
  let ?q = "TAILQ_INSERT_TAIL e q"
  from assms have seg: "tq_seg q HeadC xs (tqh_last q)" by (simp add: tq_rep_def)
  from tq_seg_end [OF this] have last: "tqh_last q = (if xs = [] then HeadC else NextC (last xs))" .
  have ne: "tqh_last q \<noteq> NextC e" using last assms(2) by auto
  have lb: "x \<noteq> last xs" if "x \<in> set (butlast xs)" "distinct xs" for x
    using that by (induction xs) (auto split: if_splits)
  have "tq_seg ?q HeadC xs (tqh_last q) = tq_seg q HeadC xs (tqh_last q)"
  proof (rule tq_seg_cong)
    show "read_cell ?q HeadC = read_cell q HeadC" if "xs \<noteq> []"
      using that last by (simp add: TAILQ_INSERT_TAIL_def Let_def)
    show "tqe_next ?q x = tqe_next q x" if "x \<in> set (butlast xs)" for x
      using that last assms lb [OF that] in_set_butlastD [OF that]
      by (auto simp: TAILQ_INSERT_TAIL_def Let_def tq_rep_def)
    show "tqe_prev ?q x = tqe_prev q x" if "x \<in> set xs" for x
      using that assms by (auto simp: TAILQ_INSERT_TAIL_def Let_def)
  qed
  with seg have "tq_seg ?q HeadC xs (tqh_last q)" by simp
  moreover have "tq_seg ?q (tqh_last q) [e] (NextC e)"
    using ne by (simp add: TAILQ_INSERT_TAIL_def Let_def)
  ultimately have "tq_seg ?q HeadC (xs @ [e]) (NextC e)" by (auto simp: tq_seg_append)
  with assms ne show ?thesis by (auto simp: tq_rep_def TAILQ_INSERT_TAIL_def Let_def)
qed

lemma tq_rep_insert_head:
  assumes "tq_rep q xs" and "e \<notin> set xs"
  shows "tq_rep (TAILQ_INSERT_HEAD e q) (e # xs)"
proof -
  let ?q = "TAILQ_INSERT_HEAD e q"
  note defs = TAILQ_INSERT_HEAD_def Let_def tq_rep_def
  show ?thesis
  proof (cases xs)
    case Nil
    with assms show ?thesis by (auto simp: defs)
  next
    case (Cons y ys)
    with assms(1) have first: "tqh_first q = Some y" and seg: "tq_seg q (NextC y) ys (tqh_last q)"
      and dist: "distinct (y # ys)" and nil: "read_cell q (tqh_last q) = None"
      by (auto simp: tq_rep_def)
    from tq_seg_end [OF seg] have last: "tqh_last q = NextC (last (y # ys))" by simp
    have "last (y # ys) \<in> set xs" unfolding Cons by (rule last_in_set) simp
    then have le: "last (y # ys) \<noteq> e" using assms(2) by auto
    have "tq_seg ?q (NextC y) ys (tqh_last q) = tq_seg q (NextC y) ys (tqh_last q)"
    proof (rule tq_seg_cong)
      show "read_cell ?q (NextC y) = read_cell q (NextC y)" if "ys \<noteq> []"
        using assms(2) Cons first by (auto simp: defs)
      show "tqe_next ?q x = tqe_next q x" if "x \<in> set (butlast ys)" for x
        using in_set_butlastD [OF that] assms(2) Cons first by (auto simp: defs)
      show "tqe_prev ?q x = tqe_prev q x" if "x \<in> set ys" for x
        using that assms(2) Cons first dist by (auto simp: defs)
    qed
    with seg have "tq_seg ?q (NextC y) ys (tqh_last q)" by simp
    moreover have "tqh_last ?q = tqh_last q" and "read_cell ?q (tqh_last q) = None"
      using first nil last le by (simp_all add: TAILQ_INSERT_HEAD_def Let_def)
    moreover have "tqh_first ?q = Some e" "tqe_next ?q e = Some y"
      "tqe_prev ?q e = HeadC" "tqe_prev ?q y = NextC e"
      using first assms(2) Cons by (auto simp: TAILQ_INSERT_HEAD_def Let_def)
    ultimately show ?thesis
      using dist assms(2) Cons by (auto simp: tq_rep_def)
  qed
qed

lemma butlast_not_last: "distinct xs \<Longrightarrow> x \<in> set (butlast xs) \<Longrightarrow> x \<noteq> last xs"
  by (induction xs) (auto split: if_splits)

lemma tq_seg_keep_front:
  assumes seg: "tq_seg q HeadC ys m" and dist: "distinct ys"
    and nxt: "\<And>y. y \<in> set ys \<Longrightarrow> m \<noteq> NextC y \<Longrightarrow> tqe_next q' y = tqe_next q y"
    and prv: "\<And>y. y \<in> set ys \<Longrightarrow> tqe_prev q' y = tqe_prev q y"
    and fst: "m \<noteq> HeadC \<Longrightarrow> tqh_first q' = tqh_first q"
  shows "tq_seg q' HeadC ys m"
proof -
  from tq_seg_end [OF seg] have m: "m = (if ys = [] then HeadC else NextC (last ys))" .
  have "tq_seg q' HeadC ys m = tq_seg q HeadC ys m"
  proof (rule tq_seg_cong)
    show "read_cell q' HeadC = read_cell q HeadC" if "ys \<noteq> []" using that m fst by simp
    show "tqe_next q' y = tqe_next q y" if "y \<in> set (butlast ys)" for y
      using butlast_not_last [OF dist that] in_set_butlastD [OF that] m nxt by (auto split: if_splits)
  qed (rule prv)
  with seg show ?thesis by simp
qed

lemma tq_rep_remove:
  assumes "tq_rep q (ys @ x # zs)"
  shows "tq_rep (TAILQ_REMOVE x q) (ys @ zs)"
proof -
  let ?q = "TAILQ_REMOVE x q"
  note defs = TAILQ_REMOVE_def Let_def
  from assms obtain m where seg: "tq_seg q HeadC ys m" and rd: "read_cell q m = Some x"
    and prv: "tqe_prev q x = m" and tl: "tq_seg q (NextC x) zs (tqh_last q)"
    and nil: "read_cell q (tqh_last q) = None" and dist: "distinct (ys @ x # zs)"
    by (auto simp: tq_rep_def tq_seg_append)
  from tq_seg_end [OF seg] have m: "m = (if ys = [] then HeadC else NextC (last ys))" .
  have mz: "m \<noteq> NextC y" if "y \<in> set (x # zs)" for y
  proof
    assume "m = NextC y"
    with m have "ys \<noteq> []" and "y = last ys" by (auto split: if_splits)
    then have "y \<in> set ys" by simp
    with that dist show False by auto
  qed
  show ?thesis
  proof (cases zs)
    case Nil
    with tl nil have "tqe_next q x = None" and "tqh_last q = NextC x" by auto
    moreover from this have "tq_seg ?q HeadC ys m"
      using dist prv seg by (intro tq_seg_keep_front [OF seg]) (auto simp: defs)
    ultimately show ?thesis using dist prv Nil by (auto simp: tq_rep_def defs)
  next
    case (Cons z zs')
    with tl have nx: "tqe_next q x = Some z" and tl': "tq_seg q (NextC z) zs' (tqh_last q)" by auto
    from tq_seg_end [OF tl'] have lst: "tqh_last q = NextC (last (z # zs'))" by simp
    have lin: "last (z # zs') \<in> set zs" unfolding Cons by (rule last_in_set) simp
    have front: "tq_seg ?q HeadC ys m"
      using dist prv nx Cons by (intro tq_seg_keep_front [OF seg]) (auto simp: defs)
    have "tq_seg ?q (NextC z) zs' (tqh_last q) = tq_seg q (NextC z) zs' (tqh_last q)"
    proof (rule tq_seg_cong)
      show "read_cell ?q (NextC z) = read_cell q (NextC z)"
        using mz [of z] prv nx Cons dist by (auto simp: defs)
      show "tqe_next ?q y = tqe_next q y" if "y \<in> set (butlast zs')" for y
        using mz [of y] in_set_butlastD [OF that] prv nx Cons dist by (auto simp: defs)
      show "tqe_prev ?q y = tqe_prev q y" if "y \<in> set zs'" for y
        using that prv nx Cons dist by (auto simp: defs)
    qed
    moreover have "read_cell ?q m = Some z" "tqe_prev ?q z = m" "tqh_last ?q = tqh_last q"
      using prv nx Cons dist by (auto simp: defs)
    ultimately have "tq_seg ?q HeadC (ys @ zs) (tqh_last ?q)"
      using front tl' Cons by (auto simp: tq_seg_append)
    moreover have "read_cell ?q (tqh_last ?q) = None"
    proof -
      have "tqh_last ?q \<noteq> m" using mz [of "last (z # zs')"] lin lst prv nx Cons by (auto simp: defs)
      with nil lst prv nx show ?thesis by (simp add: defs)
    qed
    ultimately show ?thesis using dist by (auto simp: tq_rep_def)
  qed
qed

lemma tq_rep_foreach:
  assumes "tq_rep q xs" and "length xs \<le> n"
  shows "TAILQ_FOREACH n q (tqh_first q) = Some xs"
proof -
  have walk: "TAILQ_FOREACH n q (read_cell q c) = Some xs"
    if "tq_seg q c xs l" "read_cell q l = None" "length xs \<le> n" for c xs l n
    using that
  proof (induction xs arbitrary: c n)
    case (Cons x xs)
    then obtain k where "n = Suc k" by (cases n) auto
    with Cons.prems Cons.IH [of "NextC x" k] show ?case by simp
  qed simp
  from assms have "TAILQ_FOREACH n q (read_cell q HeadC) = Some xs"
    by (intro walk [of HeadC xs "tqh_last q"]) (auto simp: tq_rep_def)
  then show ?thesis by simp
qed

section \<open>The queue interface\<close>

text \<open>
  What the clients of a tail queue rely on.  \<open>rep q xs\<close> relates a queue to the list of its
  elements.
\<close>

locale tail_queue =
  fixes rep :: "'q \<Rightarrow> 'a list \<Rightarrow> bool"
    and init :: "'q \<Rightarrow> 'q"
    and insert_head :: "'a \<Rightarrow> 'q \<Rightarrow> 'q"
    and insert_tail :: "'a \<Rightarrow> 'q \<Rightarrow> 'q"
    and remove :: "'a \<Rightarrow> 'q \<Rightarrow> 'q"
    and first :: "'q \<Rightarrow> 'a option"
  assumes rep_distinct: "rep q xs \<Longrightarrow> distinct xs"
    and rep_init: "rep (init q) []"
    and rep_insert_head: "rep q xs \<Longrightarrow> e \<notin> set xs \<Longrightarrow> rep (insert_head e q) (e # xs)"
    and rep_insert_tail: "rep q xs \<Longrightarrow> e \<notin> set xs \<Longrightarrow> rep (insert_tail e q) (xs @ [e])"
    and rep_remove: "rep q (ys @ e # zs) \<Longrightarrow> rep (remove e q) (ys @ zs)"
    and rep_first: "rep q xs \<Longrightarrow> first q = (case xs of [] \<Rightarrow> None | x # _ \<Rightarrow> Some x)"
begin

lemma remove_remove1:
  assumes "rep q xs" and "e \<in> set xs"
  shows "rep (remove e q) (remove1 e xs)"
proof -
  from assms(2) obtain ys zs where xs: "xs = ys @ e # zs" "e \<notin> set ys"
    by (meson split_list_first)
  with assms(1) have "rep (remove e q) (ys @ zs)" by (simp add: rep_remove)
  with xs show ?thesis by (simp add: remove1_append)
qed

text \<open>Removing an element and appending it again rotates it to the end: the scheduler's move.\<close>

lemma rotate:
  assumes "rep q xs" and "e \<in> set xs"
  shows "rep (insert_tail e (remove e q)) (remove1 e xs @ [e])"
proof -
  have "e \<notin> set (remove1 e xs)" using rep_distinct [OF assms(1)] by simp
  with remove_remove1 [OF assms] show ?thesis by (rule rep_insert_tail)
qed

text \<open>Taking the first element off the queue: the wake-up of the longest waiter.\<close>

lemma pop_first:
  assumes "rep q xs" and "first q = Some e"
  shows "\<exists>ys. xs = e # ys \<and> rep (remove e q) ys"
proof -
  from rep_first [OF assms(1)] assms(2) obtain ys where xs: "xs = e # ys"
    by (cases xs) auto
  with assms(1) have "rep q ([] @ e # ys)" by simp
  from rep_remove [OF this] xs show ?thesis by simp
qed

end

interpretation tailq: tail_queue tq_rep TAILQ_INIT TAILQ_INSERT_HEAD TAILQ_INSERT_TAIL
  TAILQ_REMOVE TAILQ_FIRST
  by unfold_locales
    (auto simp: tq_rep_init tq_rep_insert_head tq_rep_insert_tail tq_rep_remove tq_rep_first
      dest: tq_rep_def [THEN iffD1])

section \<open>Sequences of operations\<close>

datatype tq_op = InsHead nat | InsTail nat | Rem nat

fun tq_apply :: "tq_op \<Rightarrow> tq \<Rightarrow> tq" where
  "tq_apply (InsHead e) q = TAILQ_INSERT_HEAD e q"
| "tq_apply (InsTail e) q = TAILQ_INSERT_TAIL e q"
| "tq_apply (Rem e) q = TAILQ_REMOVE e q"

text \<open>The specification: \<open>None\<close> is a misuse (inserting a member, removing a non-member).\<close>

fun list_apply :: "tq_op \<Rightarrow> nat list \<Rightarrow> nat list option" where
  "list_apply (InsHead e) xs = (if e \<in> set xs then None else Some (e # xs))"
| "list_apply (InsTail e) xs = (if e \<in> set xs then None else Some (xs @ [e]))"
| "list_apply (Rem e) xs = (if e \<in> set xs then Some (remove1 e xs) else None)"

fun list_run :: "tq_op list \<Rightarrow> nat list \<Rightarrow> nat list option" where
  "list_run [] xs = Some xs"
| "list_run (x # ops) xs = (case list_apply x xs of None \<Rightarrow> None | Some ys \<Rightarrow> list_run ops ys)"

lemma tq_apply_rep: "tq_rep q xs \<Longrightarrow> list_apply x xs = Some ys \<Longrightarrow> tq_rep (tq_apply x q) ys"
  by (cases x)
    (auto split: if_splits intro: tailq.rep_insert_head tailq.rep_insert_tail tailq.remove_remove1)

lemma tq_run_rep: "tq_rep q xs \<Longrightarrow> list_run ops xs = Some ys \<Longrightarrow> tq_rep (fold tq_apply ops q) ys"
  by (induction ops arbitrary: q xs) (auto split: option.splits intro: tq_apply_rep)

text \<open>
  C16: The tail queue macros implement lists: after \<open>TAILQ_INIT\<close> and any sequence of
  insertions and removals that is legal on a list, a \<open>TAILQ_FOREACH\<close> visits exactly the
  elements of that list in order, \<open>TAILQ_FIRST\<close> is its head, and \<open>TAILQ_EMPTY\<close> tells
  whether it is empty.
\<close>

theorem tailq_refines_list:
  assumes "list_run ops [] = Some xs"
  shows "TAILQ_FOREACH (length xs) (fold tq_apply ops (TAILQ_INIT q))
      (TAILQ_FIRST (fold tq_apply ops (TAILQ_INIT q))) = Some xs \<and>
    TAILQ_FIRST (fold tq_apply ops (TAILQ_INIT q)) = (case xs of [] \<Rightarrow> None | x # _ \<Rightarrow> Some x) \<and>
    (TAILQ_EMPTY (fold tq_apply ops (TAILQ_INIT q)) \<longleftrightarrow> xs = [])"
proof -
  have rep: "tq_rep (fold tq_apply ops (TAILQ_INIT q)) xs"
    using tq_run_rep [OF tailq.rep_init assms] .
  from tq_rep_foreach [OF this order_refl] tailq.rep_first [OF this] show ?thesis
    by (simp add: TAILQ_EMPTY_def TAILQ_FIRST_def split: list.split)
qed

definition tq_garbage :: tq where
  "tq_garbage = \<lparr>tqh_first = None, tqh_last = NextC 9, tqe_next = (\<lambda>_. None), tqe_prev = (\<lambda>_. HeadC)\<rparr>"

theorem tailq_refines_list_witness:
  "TAILQ_FOREACH (length [3, 2 :: nat]) (fold tq_apply [InsTail 1, InsTail 2, InsHead 3, Rem 1] (TAILQ_INIT tq_garbage))
     (TAILQ_FIRST (fold tq_apply [InsTail 1, InsTail 2, InsHead 3, Rem 1] (TAILQ_INIT tq_garbage))) = Some [3, 2]"
  by (rule tailq_refines_list [THEN conjunct1]) simp

end
