(* ===== verification/Libc.thy ===== *)
theory Libc
  imports Franken_Prelude
begin

text \<open>
  The small libc of franken/libc: string and memory routines, \<open>atoi\<close>, \<open>getenv\<close> and the
  exit handlers.  A \<open>char *\<close> is the list of the bytes from the pointer to the end of the
  object it points into, so that an access past the object is visible: such a run returns
  \<open>None\<close>.  A string as the callers have it is \<open>cstring s\<close>, a byte sequence without NUL
  followed by NUL.  Lemmas: on terminated strings no routine leaves its object, and each
  computes what its C specification says, except \<open>strncmp\<close> with a length of 0.
\<close>

section \<open>Strings\<close>

abbreviation NUL :: char where
  "NUL \<equiv> CHR 0x00"

abbreviation uchar :: "char \<Rightarrow> int" where
  "uchar c \<equiv> of_char c"

definition cstring :: "string \<Rightarrow> string" where
  "cstring s = s @ [NUL]"

definition nul_free :: "string \<Rightarrow> bool" where
  "nul_free s \<longleftrightarrow> NUL \<notin> set s"

fun strlen :: "string \<Rightarrow> nat option" where
  "strlen [] = None"
| "strlen (c # s) = (if c = NUL then Some 0 else map_option Suc (strlen s))"

fun strchr :: "string \<Rightarrow> char \<Rightarrow> string option option" where
  "strchr [] c = None"
| "strchr (x # s) c =
     (if x = NUL then Some (if c = NUL then Some (x # s) else None)
      else if x = c then Some (Some (x # s))
      else strchr s c)"

fun strcmp :: "string \<Rightarrow> string \<Rightarrow> int option" where
  "strcmp (a # s) (b # t) =
     (if a \<noteq> NUL \<and> b \<noteq> NUL \<and> a = b then strcmp s t else Some (uchar a - uchar b))"
| "strcmp s t = None"

text \<open>\<open>--n\<close> on a \<open>size_t\<close>.\<close>

definition size_dec :: "nat \<Rightarrow> nat" where
  "size_dec n = (if n = 0 then 2 ^ 64 - 1 else n - 1)"

fun strncmp :: "string \<Rightarrow> string \<Rightarrow> nat \<Rightarrow> int option" where
  "strncmp (a # s) (b # t) n =
     (if size_dec n \<noteq> 0 \<and> a \<noteq> NUL \<and> b \<noteq> NUL \<and> a = b then strncmp s t (size_dec n)
      else Some (uchar a - uchar b))"
| "strncmp s t n = None"

fun strcpy :: "string \<Rightarrow> string \<Rightarrow> string option" where
  "strcpy (x # d) (c # s) = (if c = NUL then Some (c # d) else map_option ((#) c) (strcpy d s))"
| "strcpy d s = None"

fun strncpy :: "string \<Rightarrow> string \<Rightarrow> nat \<Rightarrow> string option" where
  "strncpy d s 0 = Some d"
| "strncpy (x # d) (c # s) (Suc n) =
     (if c \<noteq> NUL then map_option ((#) c) (strncpy d s n)
      else map_option ((#) NUL) (strncpy d (c # s) n))"
| "strncpy d s (Suc n) = None"

fun memcpy :: "'b list \<Rightarrow> 'b list \<Rightarrow> nat \<Rightarrow> 'b list option" where
  "memcpy d s 0 = Some d"
| "memcpy (x # d) (c # s) (Suc n) = map_option ((#) c) (memcpy d s n)"
| "memcpy d s (Suc n) = None"

fun memset :: "'b list \<Rightarrow> 'b \<Rightarrow> nat \<Rightarrow> 'b list option" where
  "memset d c 0 = Some d"
| "memset (x # d) c (Suc n) = map_option ((#) c) (memset d c n)"
| "memset [] c (Suc n) = None"

section \<open>Numbers\<close>

definition isspace :: "char \<Rightarrow> bool" where
  "isspace c \<longleftrightarrow> c = CHR '' '' \<or> (9 \<le> uchar c \<and> uchar c \<le> 13)"

definition isdigit :: "char \<Rightarrow> bool" where
  "isdigit c \<longleftrightarrow> 48 \<le> uchar c \<and> uchar c \<le> 57"

fun skip_space :: "string \<Rightarrow> string" where
  "skip_space [] = []"
| "skip_space (c # s) = (if isspace c then skip_space s else c # s)"

fun atoi_digits :: "int \<Rightarrow> int \<Rightarrow> string \<Rightarrow> int option" where
  "atoi_digits pos ret [] = None"
| "atoi_digits pos ret (c # s) =
     (if isdigit c then atoi_digits pos (wrap32 (wrap32 (ret * 10) + pos * (uchar c - 48))) s
      else Some ret)"

definition atoi :: "string \<Rightarrow> int option" where
  "atoi str =
     (case skip_space str of
        [] \<Rightarrow> None
      | c # s \<Rightarrow> if c = CHR ''-'' then atoi_digits (-1) 0 s else atoi_digits 1 0 (c # s))"

section \<open>Environment and exit\<close>

text \<open>\<open>Inl\<close>: NULL with \<open>errno\<close> set; \<open>Inr None\<close>: NULL; \<open>Inr (Some v)\<close>: a pointer.\<close>

fun getenv_loop :: "string list \<Rightarrow> string \<Rightarrow> nat \<Rightarrow> (errno + string option) option" where
  "getenv_loop [] name len = Some (Inr None)"
| "getenv_loop (p # ps) name len =
     (case strncmp p name len of
        None \<Rightarrow> None
      | Some r \<Rightarrow>
          if r \<noteq> 0 then getenv_loop ps name len
          else if length p \<le> len then None
          else if p ! len \<noteq> CHR ''='' then getenv_loop ps name len
          else Some (Inr (Some (drop (len + 1) p))))"

definition getenv :: "string list \<Rightarrow> string \<Rightarrow> (errno + string option) option" where
  "getenv environ name =
     (case strlen name of
        None \<Rightarrow> None
      | Some len \<Rightarrow>
          (case strchr name (CHR ''='') of
             None \<Rightarrow> None
           | Some (Some _) \<Rightarrow> Some (Inl EINVAL)
           | Some None \<Rightarrow> getenv_loop environ name len))"

text \<open>The handler table: \<open>f[0..n-1]\<close> as a list.\<close>

definition COUNT :: nat where
  "COUNT = 34"

definition atexit :: "'h list \<Rightarrow> 'h \<Rightarrow> errno + 'h list" where
  "atexit hs f = (if length hs = COUNT then Inl ENOMEM else Inr (hs @ [f]))"

text \<open>
  \<open>exit\<close> pops and calls handlers until the table is empty.  A handler may register others:
  \<open>call h hs s\<close> is the effect of the handler \<open>h\<close> on the table and on the rest of the
  program's state.  The fuel bounds the number of calls.
\<close>

fun exit_handlers ::
  "('h \<Rightarrow> 'h list \<Rightarrow> 's \<Rightarrow> 'h list \<times> 's) \<Rightarrow> nat \<Rightarrow> 'h list \<Rightarrow> 's \<Rightarrow> 's option" where
  "exit_handlers call n [] s = Some s"
| "exit_handlers call 0 (h # hs) s = None"
| "exit_handlers call (Suc n) (h # hs) s =
     (let (hs', s') = call (last (h # hs)) (butlast (h # hs)) s
      in exit_handlers call n hs' s')"

section \<open>Lemmas\<close>

lemma strlen_cstring [simp]: "nul_free s \<Longrightarrow> strlen (s @ NUL # r) = Some (length s)"
  by (induction s) (auto simp: nul_free_def)

lemma strlen_Some: "strlen s = Some n \<Longrightarrow> \<exists>t r. s = t @ NUL # r \<and> nul_free t \<and> n = length t"
proof (induction s arbitrary: n)
  case (Cons c s)
  show ?case
  proof (cases "c = NUL")
    case True
    with Cons.prems show ?thesis by (intro exI [of _ "[]"] exI [of _ s]) (auto simp: nul_free_def)
  next
    case False
    with Cons.prems obtain m where m: "strlen s = Some m" "n = Suc m" by auto
    with Cons.IH obtain t r where "s = t @ NUL # r" "nul_free t" "m = length t" by blast
    with False m have "c # s = (c # t) @ NUL # r \<and> nul_free (c # t) \<and> n = length (c # t)"
      by (auto simp: nul_free_def)
    then show ?thesis by blast
  qed
qed simp

lemma strchr_nul_free:
  "nul_free s \<Longrightarrow> c \<noteq> NUL \<Longrightarrow> c \<notin> set s \<Longrightarrow> strchr (s @ NUL # r) c = Some None"
  by (induction s) (auto simp: nul_free_def)

lemma strchr_found:
  "nul_free s \<Longrightarrow> c \<noteq> NUL \<Longrightarrow> c \<in> set s \<Longrightarrow>
   strchr (s @ NUL # r) c = Some (Some (dropWhile (\<lambda>x. x \<noteq> c) s @ NUL # r))"
  by (induction s) (auto simp: nul_free_def)

lemma uchar_inj: "uchar a = uchar b \<longleftrightarrow> a = b"
  by simp

lemma uchar_0 [simp]: "uchar c = 0 \<longleftrightarrow> c = NUL"
proof -
  have "uchar NUL = 0" by simp
  then show ?thesis using uchar_inj [of c NUL] by simp
qed

lemma uchar_ge_0 [simp]: "0 \<le> uchar c"
proof -
  have "int (of_char c) = uchar c" by (rule of_nat_of_char)
  then show ?thesis by (metis of_nat_0_le_iff)
qed

lemma uchar_pos: "c \<noteq> NUL \<Longrightarrow> 0 < uchar c"
  using uchar_ge_0 [of c] uchar_0 [of c] by linarith

lemma uchar_not_neg [simp]: "\<not> uchar c < 0"
  using uchar_ge_0 [of c] by linarith

fun lex_lt :: "string \<Rightarrow> string \<Rightarrow> bool" where
  "lex_lt s [] \<longleftrightarrow> False"
| "lex_lt [] (b # t) \<longleftrightarrow> True"
| "lex_lt (a # s) (b # t) \<longleftrightarrow> uchar a < uchar b \<or> (a = b \<and> lex_lt s t)"

lemma strcmp_cmp:
  assumes "nul_free s" and "nul_free t"
  shows "\<exists>d. strcmp (s @ NUL # r) (t @ NUL # r') = Some d \<and>
    (d < 0 \<longleftrightarrow> lex_lt s t) \<and> (0 < d \<longleftrightarrow> lex_lt t s) \<and> (d = 0 \<longleftrightarrow> s = t)"
  using assms
proof (induction s t rule: lex_lt.induct)
  case (1 s)
  then show ?case by (cases s) (auto simp: nul_free_def uchar_pos)
next
  case (2 b t)
  then show ?case by (auto simp: nul_free_def uchar_pos)
next
  case (3 a s b t)
  show ?case
  proof (cases "a = b")
    case True
    with 3 show ?thesis by (auto simp: nul_free_def)
  next
    case False
    then have "uchar a \<noteq> uchar b" by simp
    with False show ?thesis by (auto simp: nul_free_def)
  qed
qed

lemma strncmp_prefix:
  assumes "0 < n" and "nul_free s" and "nul_free t"
  shows "\<exists>d. strncmp (s @ NUL # r) (t @ NUL # r') n = Some d \<and> (d = 0 \<longleftrightarrow> take n s = take n t)"
  using assms
proof (induction s t arbitrary: n rule: lex_lt.induct)
  case (1 s)
  then show ?case by (cases s) (auto simp: nul_free_def size_dec_def)
next
  case (2 b t)
  then show ?case by (cases n) (auto simp: nul_free_def size_dec_def)
next
  case (3 a s b t)
  then obtain m where n: "n = Suc m" by (cases n) auto
  show ?case
  proof (cases "a = b \<and> m \<noteq> 0")
    case True
    with 3 n show ?thesis by (auto simp: nul_free_def size_dec_def)
  next
    case False
    with 3 n show ?thesis by (auto simp: nul_free_def size_dec_def)
  qed
qed

lemma strncmp_unbounded: "length s < n \<Longrightarrow> strncmp s t n = strcmp s t"
  by (induction s t arbitrary: n rule: strcmp.induct) (auto simp: size_dec_def)

lemma strncmp_len_0:
  assumes "length s < 2 ^ 64"
  shows "strncmp s t 0 = strcmp s t"
proof (cases s; cases t)
  fix a s' b t' assume st: "s = a # s'" "t = b # t'"
  with assms have "strncmp s' t' (2 ^ 64 - 1) = strcmp s' t'"
    by (intro strncmp_unbounded) simp
  with st show ?thesis by (simp add: size_dec_def)
qed simp_all

lemma strcpy_cstring:
  "nul_free s \<Longrightarrow> length s < length d \<Longrightarrow>
   strcpy d (s @ NUL # r) = Some (s @ NUL # drop (Suc (length s)) d)"
proof (induction s arbitrary: d)
  case Nil
  then show ?case by (cases d) auto
next
  case (Cons c s)
  then obtain x d' where "d = x # d'" by (cases d) auto
  with Cons show ?case by (auto simp: nul_free_def)
qed

lemma strcpy_overflow:
  "nul_free s \<Longrightarrow> length d \<le> length s \<Longrightarrow> strcpy d (s @ NUL # r) = None"
proof (induction s arbitrary: d)
  case (Cons c s)
  then show ?case by (cases d) (auto simp: nul_free_def)
qed simp

lemma strncpy_nul: "n \<le> length d \<Longrightarrow> strncpy d (NUL # r) n = Some (replicate n NUL @ drop n d)"
proof (induction n arbitrary: d)
  case (Suc n)
  then show ?case by (cases d) auto
qed simp

lemma strncpy_cstring:
  "nul_free s \<Longrightarrow> n \<le> length d \<Longrightarrow>
   strncpy d (s @ NUL # r) n = Some (take n (s @ replicate n NUL) @ drop n d)"
proof (induction s arbitrary: d n)
  case Nil
  then show ?case by (simp add: strncpy_nul)
next
  case (Cons c s)
  show ?case
  proof (cases n)
    case (Suc m)
    with Cons.prems obtain x d' where d: "d = x # d'" by (cases d) auto
    have "strncpy d' (s @ NUL # r) m = Some (take m (s @ replicate m NUL) @ drop m d')"
      using Cons Suc d by (auto simp: nul_free_def)
    moreover have "take m (s @ replicate m NUL) = take m (s @ replicate (Suc m) NUL)"
      by (simp add: take_replicate min_def del: replicate_Suc)
    moreover have "c \<noteq> NUL" using Cons.prems by (auto simp: nul_free_def)
    ultimately show ?thesis using Suc d by simp
  qed simp
qed

lemma strncpy_overflow: "length d < n \<Longrightarrow> strncpy d s n = None"
  by (induction d s n rule: strncpy.induct) auto

lemma memcpy_eq: "n \<le> length d \<Longrightarrow> n \<le> length s \<Longrightarrow> memcpy d s n = Some (take n s @ drop n d)"
  by (induction d s n rule: memcpy.induct) auto

lemma memcpy_overflow: "length d < n \<or> length s < n \<Longrightarrow> memcpy d s n = None"
  by (induction d s n rule: memcpy.induct) auto

lemma memset_eq: "n \<le> length d \<Longrightarrow> memset d c n = Some (replicate n c @ drop n d)"
  by (induction d c n rule: memset.induct) auto

subsection \<open>Decimal numbers\<close>

text \<open>The decimal notation that \<open>"%d"\<close> prints.\<close>

definition dec_digit :: "nat \<Rightarrow> char" where
  "dec_digit d = char_of (48 + d)"

fun dec_nat :: "nat \<Rightarrow> string" where
  "dec_nat n = (if n < 10 then [dec_digit n] else dec_nat (n div 10) @ [dec_digit (n mod 10)])"

declare dec_nat.simps [simp del]

definition dec_int :: "int \<Rightarrow> string" where
  "dec_int x = (if x < 0 then CHR ''-'' # dec_nat (nat (- x)) else dec_nat (nat x))"

lemma uchar_dec_digit [simp]: "d < 10 \<Longrightarrow> uchar (dec_digit d) = 48 + int d"
proof -
  assume "d < 10"
  then have "of_char (dec_digit d) = 48 + d"
    by (simp add: dec_digit_def take_bit_eq_mod)
  then show ?thesis by (metis of_nat_of_char of_nat_add of_nat_numeral)
qed

lemma isdigit_dec_digit [simp]: "d < 10 \<Longrightarrow> isdigit (dec_digit d)"
  by (simp add: isdigit_def)

lemma dec_nat_digits: "\<forall>c \<in> set (dec_nat n). isdigit c"
proof (induction n rule: dec_nat.induct)
  case (1 n)
  then show ?case by (subst dec_nat.simps) auto
qed

lemma dec_nat_short: "n < 100 \<Longrightarrow> length (dec_nat n) \<le> 2"
  by (subst dec_nat.simps, subst dec_nat.simps) (simp, presburger)

lemma dec_nat_nonempty [simp]: "dec_nat n \<noteq> []"
  by (subst dec_nat.simps) simp

definition atoi_step :: "int \<Rightarrow> char \<Rightarrow> int \<Rightarrow> int" where
  "atoi_step pos c ret = wrap32 (wrap32 (ret * 10) + pos * (uchar c - 48))"

lemma atoi_digits_append:
  "\<forall>c \<in> set ds. isdigit c \<Longrightarrow>
   atoi_digits pos ret (ds @ r) = atoi_digits pos (fold (atoi_step pos) ds ret) r"
  by (induction ds arbitrary: ret) (auto simp: atoi_step_def)

lemma atoi_fold_dec_nat:
  assumes "pos = 1 \<or> pos = -1" and "- (2 ^ 31) \<le> pos * int n" and "pos * int n < 2 ^ 31"
  shows "fold (atoi_step pos) (dec_nat n) 0 = pos * int n"
  using assms(2,3)
proof (induction n rule: dec_nat.induct)
  case (1 n)
  have dm: "int n = 10 * int (n div 10) + int (n mod 10)" by presburger
  show ?case
  proof (cases "n < 10")
    case True
    with 1 assms(1) show ?thesis
      by (subst dec_nat.simps) (auto simp: atoi_step_def wrap32_id)
  next
    case False
    have small: "- (2 ^ 31) \<le> pos * int (n div 10)" "pos * int (n div 10) < 2 ^ 31"
      using "1.prems" assms(1) dm by auto
    have mid: "- (2 ^ 31) \<le> pos * int (n div 10) * 10" "pos * int (n div 10) * 10 < 2 ^ 31"
      using "1.prems" assms(1) dm by auto
    have "fold (atoi_step pos) (dec_nat n) 0 =
        atoi_step pos (dec_digit (n mod 10)) (pos * int (n div 10))"
      using False "1.IH" [OF False small] by (subst dec_nat.simps) simp
    also have "\<dots> = wrap32 (pos * int (n div 10) * 10 + pos * int (n mod 10))"
      using mid by (simp add: atoi_step_def wrap32_id)
    also have "pos * int (n div 10) * 10 + pos * int (n mod 10) = pos * int n"
      using dm by (simp add: algebra_simps)
    finally show ?thesis using "1.prems" by (simp add: wrap32_id)
  qed
qed

lemma isdigit_not_space: "isdigit c \<Longrightarrow> \<not> isspace c \<and> c \<noteq> CHR ''-''"
  by (auto simp: isdigit_def isspace_def)

lemma atoi_dec_int:
  assumes range: "- (2 ^ 31) \<le> x" "x < 2 ^ 31" and r: "\<not> isdigit c"
  shows "atoi (dec_int x @ c # r) = Some x"
proof (cases "x < 0")
  case True
  have "atoi_digits (-1) 0 (dec_nat (nat (- x)) @ c # r) = Some x"
    using True range r dec_nat_digits
    by (subst atoi_digits_append) (auto simp: atoi_fold_dec_nat)
  with True show ?thesis by (simp add: atoi_def dec_int_def isspace_def)
next
  case False
  obtain d ds where d: "dec_nat (nat x) = d # ds" by (cases "dec_nat (nat x)") auto
  with dec_nat_digits have "isdigit d" by (metis list.set_intros(1))
  note nd = isdigit_not_space [OF this]
  have "atoi_digits 1 0 (dec_nat (nat x) @ c # r) = Some x"
    using False range r dec_nat_digits
    by (subst atoi_digits_append) (auto simp: atoi_fold_dec_nat)
  with False d nd show ?thesis by (simp add: atoi_def dec_int_def)
qed

subsection \<open>Environment lookup and exit handlers\<close>

text \<open>The value of the first entry of the form \<open>name=value\<close>.\<close>

fun env_lookup :: "string list \<Rightarrow> string \<Rightarrow> string option" where
  "env_lookup [] name = None"
| "env_lookup (e # es) name =
     (if take (Suc (length name)) e = name @ ''='' then Some (drop (Suc (length name)) e)
      else env_lookup es name)"

lemma take_Suc_prefix_iff:
  assumes "n = length xs"
  shows "take (Suc n) e = xs @ [c] \<longleftrightarrow> take n e = xs \<and> n < length e \<and> e ! n = c"
proof (cases "n < length e")
  case True
  with assms show ?thesis by (simp add: take_Suc_conv_app_nth)
next
  case False
  then have "length (take (Suc n) e) \<le> n" by simp
  with assms have "take (Suc n) e \<noteq> xs @ [c]" by (metis length_append_singleton not_less_eq_eq order_refl)
  with False show ?thesis by simp
qed

lemma cstring_simps [simp]:
  "length (cstring e) = Suc (length e)"
  "n < length e \<Longrightarrow> cstring e ! n = e ! n"
  "cstring e ! length e = NUL"
  "n \<le> length e \<Longrightarrow> drop n (cstring e) = cstring (drop n e)"
  by (simp_all add: cstring_def nth_append)

lemma getenv_loop_lookup:
  assumes "name \<noteq> []" and "nul_free name" and "\<forall>e \<in> set es. nul_free e"
  shows "getenv_loop (map cstring es) (cstring name) (length name) =
    Some (Inr (map_option cstring (env_lookup es name)))"
  using assms(3)
proof (induction es)
  case (Cons e es)
  let ?n = "length name"
  obtain d where d: "strncmp (cstring e) (cstring name) ?n = Some d"
    and d0: "d = 0 \<longleftrightarrow> take ?n e = name"
    using strncmp_prefix [of ?n e name "[]" "[]"] assms Cons.prems by (auto simp: cstring_def)
  have len: "?n \<le> length e" if "take ?n e = name"
  proof -
    from that have "length (take ?n e) = ?n" by simp
    then show ?thesis by simp
  qed
  have iff: "take (Suc ?n) e = name @ ''='' \<longleftrightarrow> take ?n e = name \<and> ?n < length e \<and> e ! ?n = CHR ''=''"
    by (rule take_Suc_prefix_iff) simp
  have IH: "getenv_loop (map cstring es) (cstring name) ?n = Some (Inr (map_option cstring (env_lookup es name)))"
    using Cons by simp
  show ?case
  proof (cases "take (Suc ?n) e = name @ ''=''")
    case True
    with iff d d0 show ?thesis by simp
  next
    case False
    show ?thesis
    proof (cases "take ?n e = name")
      case True
      from len [OF True] consider "length e = ?n" | "?n < length e" by linarith
      then have "cstring e ! ?n \<noteq> CHR ''='' \<and> \<not> length (cstring e) \<le> ?n"
      proof cases
        case 1
        then show ?thesis using cstring_simps(3) [of e] by simp
      next
        case 2
        with True False iff show ?thesis by simp
      qed
      with True False d d0 IH show ?thesis by simp
    next
      case ne: False
      with False d d0 IH show ?thesis by simp
    qed
  qed
qed simp

lemma exit_handlers_snoc:
  "exit_handlers call (Suc n) (hs @ [h]) s =
     (let (hs', s') = call h hs s in exit_handlers call n hs' s')"
  by (cases hs) simp_all

lemma exit_handlers_lifo:
  assumes "\<And>h hs s. call h hs s = (hs, run h s)"
  shows "exit_handlers call (length hs) hs s = Some (fold run (rev hs) s)"
proof (induction hs arbitrary: s rule: rev_induct)
  case (snoc h hs)
  then show ?case by (simp add: exit_handlers_snoc assms)
qed simp

section \<open>Properties\<close>

text \<open>
  \<open>strcmp\<close> on two terminated strings reads only inside them and returns a value whose
  sign is the lexicographic order of the strings by unsigned byte value; it is 0 exactly when
  the strings are equal.
\<close>

theorem strcmp_correct:
  assumes "nul_free s" and "nul_free t"
  shows "\<exists>d. strcmp (cstring s @ r) (cstring t @ r') = Some d \<and>
    (d < 0 \<longleftrightarrow> lex_lt s t) \<and> (0 < d \<longleftrightarrow> lex_lt t s) \<and> (d = 0 \<longleftrightarrow> s = t)"
  using strcmp_cmp [OF assms] by (simp add: cstring_def)

theorem strcmp_correct_witness:
  "\<exists>d. strcmp (cstring ''abc'' @ []) (cstring ''abd'' @ ''x'') = Some d \<and>
    (d < 0 \<longleftrightarrow> lex_lt ''abc'' ''abd'') \<and> (0 < d \<longleftrightarrow> lex_lt ''abd'' ''abc'') \<and> (d = 0 \<longleftrightarrow> ''abc'' = ''abd'')"
  by (rule strcmp_correct) (simp_all add: nul_free_def)

text \<open>
  \<open>strncmp\<close> with length 0 does not return 0: the decrement before the first test wraps,
  and the call behaves as \<open>strcmp\<close>.
\<close>

theorem strncmp_zero_length:
  assumes "length s < 2 ^ 64"
  shows "strncmp s t 0 = strcmp s t"
  using assms by (rule strncmp_len_0)

theorem strncmp_zero_length_witness:
  "strncmp (cstring ''a'') (cstring ''b'') 0 = Some (- 1)"
  using strncmp_zero_length [of "cstring ''a''" "cstring ''b''"] by (simp add: cstring_def)

text \<open>
  \<open>atoi\<close> inverts decimal printing for every 32-bit integer, with leading white space
  skipped and any text after the number ignored.
\<close>

theorem atoi_roundtrip:
  assumes "- (2 ^ 31) \<le> x" and "x < 2 ^ 31" and "\<not> isdigit c" and "\<forall>b \<in> set ws. isspace b"
  shows "atoi (ws @ dec_int x @ c # r) = Some x"
proof -
  have "skip_space (ws @ s) = skip_space s" for s using assms(4) by (induction ws) auto
  then have "atoi (ws @ s) = atoi s" for s by (simp add: atoi_def)
  with atoi_dec_int [OF assms(1-3)] show ?thesis by simp
qed

theorem atoi_roundtrip_witness: "atoi ('' '' @ dec_int (- 2147483648) @ NUL # []) = Some (- 2147483648)"
  by (rule atoi_roundtrip) (simp_all add: isdigit_def isspace_def)

text \<open>
  \<open>getenv\<close> of a non-empty name without \<open>=\<close> never reads outside the strings and returns
  the value of the first entry \<open>name=value\<close> of the environment, or NULL when there is none.
\<close>

theorem getenv_first_match:
  assumes "name \<noteq> []" and "nul_free name" and "CHR ''='' \<notin> set name" and "\<forall>e \<in> set es. nul_free e"
  shows "getenv (map cstring es) (cstring name) = Some (Inr (map_option cstring (env_lookup es name)))"
proof -
  have "strlen (cstring name) = Some (length name)" "strchr (cstring name) (CHR ''='') = Some None"
    using assms(2,3) strchr_nul_free [of name "CHR ''=''" "[]"] by (simp_all add: cstring_def)
  with getenv_loop_lookup [OF assms(1,2,4)] show ?thesis by (simp add: getenv_def)
qed

theorem getenv_first_match_witness:
  "getenv (map cstring [''PATHX=1'', ''PATH=/bin'', ''PATH=/usr'']) (cstring ''PATH'') =
     Some (Inr (Some (cstring ''/bin'')))"
  by (subst getenv_first_match) (simp_all add: nul_free_def)

text \<open>Registering handlers one after the other.\<close>

fun atexit_all :: "'h list \<Rightarrow> 'h list \<Rightarrow> errno + 'h list" where
  "atexit_all hs [] = Inr hs"
| "atexit_all hs (f # fs) = (case atexit hs f of Inl e \<Rightarrow> Inl e | Inr hs \<Rightarrow> atexit_all hs fs)"

lemma atexit_all_ok: "length hs + length fs \<le> COUNT \<Longrightarrow> atexit_all hs fs = Inr (hs @ fs)"
  by (induction fs arbitrary: hs) (auto simp: atexit_def)

text \<open>
  Up to 34 handlers can be registered, one more is refused with ENOMEM, and \<open>exit\<close> calls
  every registered handler once, in reverse order of registration (handlers that register
  no others).
\<close>

theorem atexit_exit_lifo:
  assumes "length fs \<le> 34" and "\<And>h hs s. call h hs s = (hs, run h s)"
  shows "\<exists>hs. atexit_all [] fs = Inr hs \<and> (atexit hs f = Inl ENOMEM \<longleftrightarrow> length fs = 34) \<and>
    exit_handlers call (length fs) hs s = Some (fold run (rev fs) s)"
  using exit_handlers_lifo [OF assms(2)] atexit_all_ok [of "[]" fs] assms(1)
  by (simp add: COUNT_def atexit_def)

theorem atexit_exit_lifo_witness:
  "\<exists>hs. atexit_all [] [1, 2, 3 :: nat] = Inr hs \<and> (atexit hs 4 = Inl ENOMEM \<longleftrightarrow> length [1, 2, 3 :: nat] = 34) \<and>
    exit_handlers (\<lambda>h hs s. (hs, s @ [h])) (length [1, 2, 3 :: nat]) hs [] = Some (fold (\<lambda>h s. s @ [h]) (rev [1, 2, 3]) [])"
  by (rule atexit_exit_lifo) simp_all

end
