(* ===== verification/Malloc.thy ===== *)
theory Malloc
  imports Franken_Prelude
begin

text \<open>
  The storage allocator of franken/malloc/malloc.c (compiled without \<open>RCHECK\<close>,
  \<open>MSTATS\<close> and \<open>MEMALLOC_TESTING\<close>, on a 64-bit target where
  \<open>sizeof(union overhead)\<close> is 16).  Memory is byte addressed; \<open>ov_next\<close> and
  \<open>ov_alignpad\<close> are the 8 bytes at the start of the overhead, \<open>ov_magic\<close> and
  \<open>ov_index\<close> the bytes at offsets 8 and 9, as in the union of the source.  Addresses and
  sizes are natural numbers with the wrap-around of \<open>size_t\<close> and \<open>unsigned\<close> written
  out.  NULL is 0.  The host's \<open>mmap\<close> is a parameter: a function of the mappings handed out
  so far and of the length.

  \<open>heap_inv h B\<close> is the allocator's invariant: \<open>B\<close> maps the address of every block to its
  bucket and, for a block in use, to the pointer handed out.  Lemmas: every operation keeps
  the invariant, a successful allocation returns an aligned pointer to enough bytes that no
  other block overlaps and leaves the contents of the blocks in use alone, \<open>free\<close> followed by
  an allocation of the same bucket returns the same block, and \<open>realloc\<close> keeps the contents.
\<close>

section \<open>Memory\<close>

type_synonym mem = "nat \<Rightarrow> nat"

definition rd64 :: "mem \<Rightarrow> nat \<Rightarrow> nat" where
  "rd64 m a = (\<Sum>i<8. m (a + i) * 256 ^ i)"

definition wr64 :: "nat \<Rightarrow> nat \<Rightarrow> mem \<Rightarrow> mem" where
  "wr64 a v m = (\<lambda>x. if a \<le> x \<and> x < a + 8 then v div 256 ^ (x - a) mod 256 else m x)"

definition wr8 :: "nat \<Rightarrow> nat \<Rightarrow> mem \<Rightarrow> mem" where
  "wr8 a v m = m(a := v mod 256)"

text \<open>Pointer and \<open>size_t\<close> subtraction.\<close>

definition sub64 :: "nat \<Rightarrow> nat \<Rightarrow> nat" where
  "sub64 a b = (a + 2 ^ 64 - b) mod 2 ^ 64"

text \<open>\<open>x & ~(align - 1)\<close>.\<close>

definition mask_align :: "nat \<Rightarrow> nat \<Rightarrow> nat" where
  "mask_align x align = nat (int x AND NOT (int align - 1))"

section \<open>The allocator's state\<close>

definition MINSHIFT :: nat where "MINSHIFT = 5"
definition NBUCKETS :: nat where "NBUCKETS = 30"
definition MINALIGN :: nat where "MINALIGN = 16"
definition MAGIC :: nat where "MAGIC = 239"

text \<open>\<open>sizeof(union overhead)\<close> and the accessors of the overhead at \<open>op\<close>.\<close>

definition OVSIZE :: nat where "OVSIZE = 16"

definition ov_next :: "mem \<Rightarrow> nat \<Rightarrow> nat" where "ov_next m op = rd64 m op"
definition ov_alignpad :: "mem \<Rightarrow> nat \<Rightarrow> nat" where "ov_alignpad m op = rd64 m op"
definition ov_magic :: "mem \<Rightarrow> nat \<Rightarrow> nat" where "ov_magic m op = m (op + 8)"
definition ov_index :: "mem \<Rightarrow> nat \<Rightarrow> nat" where "ov_index m op = m (op + 9)"

text \<open>
  \<open>maps\<close> records the successful \<open>mmap\<close> calls (address and length); the other fields are
  the static variables of the file and the memory.
\<close>

record heap =
  mem :: mem
  nextf :: "nat \<Rightarrow> nat"
  pagesz :: nat
  pagebucket :: nat
  maps :: "(nat \<times> nat) list"

type_synonym host_mmap = "(nat \<times> nat) list \<Rightarrow> nat \<Rightarrow> nat option"

section \<open>Allocation\<close>

text \<open>The bucket of the page size: \<open>while (pagesz > amt) { amt <<= 1; bucket++; }\<close>.\<close>

fun pagebucket_loop :: "nat \<Rightarrow> nat \<Rightarrow> nat \<Rightarrow> nat \<Rightarrow> nat option" where
  "pagebucket_loop 0 psz amt bucket = None"
| "pagebucket_loop (Suc n) psz amt bucket =
     (if amt < psz then pagebucket_loop n psz (amt * 2 mod 2 ^ 32) (bucket + 1) else Some bucket)"

text \<open>
  First use: \<open>pagesz = getpagesize()\<close>.  The loop is given 32 iterations, enough for every
  page size up to \<open>2 ^ 31\<close>; for a larger one the source does not leave it.
\<close>

definition malloc_init :: "nat \<Rightarrow> heap \<Rightarrow> heap option" where
  "malloc_init PS h =
     (if pagesz h = 0 then
        if PS = 0 then None
        else map_option (\<lambda>b. h\<lparr>pagesz := PS, pagebucket := b\<rparr>)
               (pagebucket_loop 32 PS (2 ^ MINSHIFT) 0)
      else Some h)"

text \<open>
  \<open>while (allocbytes > amt)\<close> with \<open>unsigned amt\<close>: \<open>None\<close> is the \<open>return (NULL)\<close> of an
  \<open>amt\<close> that became 0.
\<close>

definition shifts_left :: "nat \<Rightarrow> nat set" where
  "shifts_left amt = {k. k \<le> 32 \<and> \<not> 2 ^ k dvd amt}"

lemma shifts_left_decr:
  assumes "amt * 2 mod 2 ^ 32 \<noteq> (0::nat)"
  shows "card (shifts_left (amt * 2 mod 2 ^ 32)) < card (shifts_left amt)"
proof -
  let ?a = "amt * 2 mod 2 ^ 32"
  have fin: "finite (shifts_left amt)" by (rule finite_subset [of _ "{..32}"]) (auto simp: shifts_left_def)
  have mem32: "32 \<in> shifts_left amt" using assms by (auto simp: shifts_left_def)
  have "shifts_left ?a \<subseteq> Suc ` (shifts_left amt - {32})"
  proof
    fix k assume k: "k \<in> shifts_left ?a"
    then obtain j where j: "k = Suc j" by (cases k) (auto simp: shifts_left_def)
    have "(2::nat) ^ k dvd 2 ^ 32" using k by (intro le_imp_power_dvd) (simp add: shifts_left_def)
    then have "2 ^ k dvd ?a \<longleftrightarrow> 2 ^ k dvd amt * 2" by (simp add: dvd_mod_iff)
    with k j have "\<not> 2 ^ j dvd amt" by (auto simp: shifts_left_def)
    with k j show "k \<in> Suc ` (shifts_left amt - {32})" by (auto simp: shifts_left_def)
  qed
  then have "card (shifts_left ?a) \<le> card (shifts_left amt - {32})"
    using fin by (metis card_image card_mono finite_Diff finite_imageI inj_Suc inj_on_subset subset_UNIV)
  also have "\<dots> < card (shifts_left amt)" using fin mem32 by (rule card_Diff1_less)
  finally show ?thesis .
qed

function bucket_loop :: "nat \<Rightarrow> nat \<Rightarrow> nat \<Rightarrow> nat option" where
  "bucket_loop allocbytes amt bucket =
     (if amt < allocbytes then
        if amt * 2 mod 2 ^ 32 = 0 then None
        else bucket_loop allocbytes (amt * 2 mod 2 ^ 32) (bucket + 1)
      else Some bucket)"
  by pat_completeness auto
termination
  by (relation "measure (\<lambda>(ab, amt, b). card (shifts_left amt))") (use shifts_left_decr in auto)

declare bucket_loop.simps [simp del]

definition corealloc :: "host_mmap \<Rightarrow> nat \<Rightarrow> heap \<Rightarrow> nat \<times> heap" where
  "corealloc mm shift h =
     (let len = 2 ^ shift * pagesz h in
      case mm (maps h) len of
        None \<Rightarrow> (0, h)
      | Some a \<Rightarrow> (a, h\<lparr>maps := (a, len) # maps h\<rparr>))"

text \<open>\<open>while (--nblks > 0) \<dots>; op->ov_next = NULL;\<close>\<close>

fun link_blocks :: "nat \<Rightarrow> nat \<Rightarrow> nat \<Rightarrow> mem \<Rightarrow> mem" where
  "link_blocks 0 op sz m = wr64 op 0 m"
| "link_blocks (Suc 0) op sz m = wr64 op 0 m"
| "link_blocks (Suc (Suc n)) op sz m = link_blocks (Suc n) (op + sz) sz (wr64 op (op + sz) m)"

definition morecore :: "host_mmap \<Rightarrow> nat \<Rightarrow> heap \<Rightarrow> heap" where
  "morecore mm bucket h =
     (let (amt, nblks, sz) =
            (if bucket < pagebucket h
             then (0, pagesz h div 2 ^ (bucket + MINSHIFT),
                   pagesz h div (pagesz h div 2 ^ (bucket + MINSHIFT)))
             else (bucket - pagebucket h, 1, 0));
          (op, h) = corealloc mm amt h
      in if op = 0 then h
         else h\<lparr>nextf := (nextf h)(bucket := op), mem := link_blocks nblks op sz (mem h)\<rparr>)"

definition aligned_alloc :: "nat \<Rightarrow> host_mmap \<Rightarrow> nat \<Rightarrow> nat \<Rightarrow> heap \<Rightarrow> (nat \<times> heap) option" where
  "aligned_alloc PS mm align nbytes h =
     (case malloc_init PS h of None \<Rightarrow> None | Some h \<Rightarrow>
      if align AND (align - 1) \<noteq> 0 then Some (0, h)
      else
        let align = (if align < MINALIGN then MINALIGN else align);
            allocbytes = (nbytes + mask_align (OVSIZE + (align - 1)) align) mod 2 ^ 64;
            (amt, bucket) = (if allocbytes \<le> pagesz h then (2 ^ MINSHIFT, 0)
                             else (pagesz h mod 2 ^ 32, pagebucket h))
        in case bucket_loop allocbytes amt bucket of
             None \<Rightarrow> Some (0, h)
           | Some bucket \<Rightarrow>
               (let h = (if nextf h bucket = 0 then morecore mm bucket h else h);
                    op = nextf h bucket
                in if op = 0 then Some (0, h)
                   else
                     let h = h\<lparr>nextf := (nextf h)(bucket := ov_next (mem h) op)\<rparr>;
                         rv = mask_align ((op + OVSIZE + align - 1) mod 2 ^ 64) align;
                         alignpad = rv - op;
                         op = rv - OVSIZE;
                         m = wr8 (op + 8) MAGIC (mem h);
                         m = wr8 (op + 9) bucket m;
                         m = wr64 op alignpad m
                     in Some (rv, h\<lparr>mem := m\<rparr>)))"

definition malloc :: "nat \<Rightarrow> host_mmap \<Rightarrow> nat \<Rightarrow> heap \<Rightarrow> (nat \<times> heap) option" where
  "malloc PS mm sz h = aligned_alloc PS mm 0 sz h"

definition posix_memalign ::
  "nat \<Rightarrow> host_mmap \<Rightarrow> nat \<Rightarrow> nat \<Rightarrow> heap \<Rightarrow> ((errno + nat) \<times> heap) option" where
  "posix_memalign PS mm align sz h =
     (case aligned_alloc PS mm align sz h of
        None \<Rightarrow> None
      | Some (p, h) \<Rightarrow> Some (if p = 0 then Inl ENOMEM else Inr p, h))"

definition mem_zero :: "nat \<Rightarrow> nat \<Rightarrow> mem \<Rightarrow> mem" where
  "mem_zero a n m = (\<lambda>x. if a \<le> x \<and> x < a + n then 0 else m x)"

definition calloc :: "nat \<Rightarrow> host_mmap \<Rightarrow> nat \<Rightarrow> nat \<Rightarrow> heap \<Rightarrow> (nat \<times> heap) option" where
  "calloc PS mm nmemb sz h =
     (let n = nmemb * sz mod 2 ^ 64 in
      case aligned_alloc PS mm 8 n h of
        None \<Rightarrow> None
      | Some (p, h) \<Rightarrow> Some (p, if p = 0 then h else h\<lparr>mem := mem_zero p n (mem h)\<rparr>))"

section \<open>Release\<close>

text \<open>\<open>None\<close>: the assertion \<open>size < NBUCKETS\<close> fails and the program aborts.\<close>

definition free :: "nat \<Rightarrow> heap \<Rightarrow> heap option" where
  "free cp h =
     (if cp = 0 then Some h
      else
        let op = sub64 cp OVSIZE
        in if ov_magic (mem h) op \<noteq> MAGIC then Some h
           else
             let idx = ov_index (mem h) op;
                 alignpad = ov_alignpad (mem h) op
             in if \<not> idx < NBUCKETS then None
                else
                  let op = sub64 cp alignpad
                  in Some (h\<lparr>mem := wr64 op (nextf h idx) (mem h),
                            nextf := (nextf h)(idx := op)\<rparr>))"

text \<open>
  \<open>1 << (size + MINSHIFT)\<close> as an \<open>int\<close>, converted to \<open>size_t\<close> by the subtraction of
  \<open>alignpad\<close>: a shift by 31 gives a negative number.
\<close>

definition blocksize :: "nat \<Rightarrow> nat" where
  "blocksize idx = (if idx + MINSHIFT < 31 then 2 ^ (idx + MINSHIFT) else 2 ^ 64 - 2 ^ 31)"

definition mem_copy :: "nat \<Rightarrow> nat \<Rightarrow> nat \<Rightarrow> mem \<Rightarrow> mem" where
  "mem_copy d s n m = (\<lambda>x. if d \<le> x \<and> x < d + n then m (s + (x - d)) else m x)"

definition realloc :: "nat \<Rightarrow> host_mmap \<Rightarrow> nat \<Rightarrow> nat \<Rightarrow> heap \<Rightarrow> (nat \<times> heap) option" where
  "realloc PS mm cp nbytes h =
     (if cp = 0 then malloc PS mm nbytes h
      else if nbytes = 0 then map_option (\<lambda>h. (0, h)) (free cp h)
      else
        let op = sub64 cp OVSIZE;
            idx = ov_index (mem h) op;
            alignpad = ov_alignpad (mem h) op;
            cap = sub64 (blocksize idx) alignpad
        in if nbytes \<le> cap then Some (cp, h)
           else
             case malloc PS mm nbytes h of
               None \<Rightarrow> None
             | Some (np, h) \<Rightarrow>
                 if np = 0 then Some (0, h)
                 else map_option (\<lambda>h. (np, h)) (free cp (h\<lparr>mem := mem_copy np cp cap (mem h)\<rparr>)))"

section \<open>Memory lemmas\<close>

lemma digits_sum: "(\<Sum>i<n. (v div b ^ i mod b) * b ^ i) = v mod b ^ n" for v b :: nat
proof (induction n)
  case (Suc n)
  have "v mod (b ^ n * b) = b ^ n * (v div b ^ n mod b) + v mod b ^ n"
    by (rule mod_mult2_eq)
  with Suc show ?case by (simp add: mult.commute)
qed simp

lemma rd64_wr64 [simp]: "v < 2 ^ 64 \<Longrightarrow> rd64 (wr64 a v m) a = v"
proof -
  assume "v < 2 ^ 64"
  have "rd64 (wr64 a v m) a = (\<Sum>i<8. (v div 256 ^ i mod 256) * 256 ^ i)"
    unfolding rd64_def wr64_def by (rule sum.cong) auto
  also have "\<dots> = v mod 256 ^ 8" by (rule digits_sum)
  finally show ?thesis using \<open>v < 2 ^ 64\<close> by simp
qed

lemma rd64_cong: "(\<And>x. x \<in> Reg a 8 \<Longrightarrow> m x = m' x) \<Longrightarrow> rd64 m a = rd64 m' a"
  unfolding rd64_def by (rule sum.cong) auto

text \<open>\<open>agree_off W m m'\<close>: the memories agree outside \<open>W\<close>.\<close>

definition agree_off :: "nat set \<Rightarrow> mem \<Rightarrow> mem \<Rightarrow> bool" where
  "agree_off W m m' \<longleftrightarrow> (\<forall>x. x \<notin> W \<longrightarrow> m' x = m x)"

lemma agree_off_refl [simp]: "agree_off W m m"
  by (simp add: agree_off_def)

lemma agree_off_trans: "agree_off W m m' \<Longrightarrow> agree_off W m' m'' \<Longrightarrow> agree_off W m m''"
  by (simp add: agree_off_def)

lemma agree_off_mono: "agree_off W m m' \<Longrightarrow> W \<subseteq> V \<Longrightarrow> agree_off V m m'"
  by (auto simp: agree_off_def)

lemma agree_off_wr64: "Reg a 8 \<subseteq> W \<Longrightarrow> agree_off W m (wr64 a v m)"
  by (auto simp: agree_off_def wr64_def)

lemma agree_off_wr8: "a \<in> W \<Longrightarrow> agree_off W m (wr8 a v m)"
  by (auto simp: agree_off_def wr8_def)

lemma agree_off_rd64: "agree_off W m m' \<Longrightarrow> Reg a 8 \<inter> W = {} \<Longrightarrow> rd64 m' a = rd64 m a"
  by (rule rd64_cong) (auto simp: agree_off_def disjoint_iff)

lemma agree_off_rd8: "agree_off W m m' \<Longrightarrow> x \<notin> W \<Longrightarrow> m' x = m x"
  by (simp add: agree_off_def)

lemma agree_off_disjoint: "agree_off W m m' \<Longrightarrow> R \<inter> W = {} \<Longrightarrow> \<forall>x \<in> R. m' x = m x"
  by (simp add: agree_off_def disjoint_iff)

lemma mask_align_eq: "mask_align x (2 ^ k) = x div 2 ^ k * 2 ^ k"
proof -
  have "int x AND NOT (int (2 ^ k) - 1) = int x AND NOT (mask k)"
    by (simp add: mask_eq_exp_minus_1)
  also have "\<dots> = push_bit k (drop_bit k (int x))"
    by (rule bit_eqI) (auto simp: bit_simps)
  also have "\<dots> = int (x div 2 ^ k * 2 ^ k)"
    by (simp add: push_bit_eq_mult drop_bit_eq_div zdiv_int)
  finally show ?thesis unfolding mask_align_def by (simp only: nat_int)
qed

text \<open>\<open>align & (align - 1)\<close> accepts exactly 0 and the powers of two.\<close>

lemma pow2_check: "(a::nat) AND (a - 1) = 0 \<Longrightarrow> 0 < a \<Longrightarrow> \<exists>k. a = 2 ^ k"
proof (induction a rule: less_induct)
  case (less a)
  show ?case
  proof (cases "even a")
    case True
    then obtain b where b: "a = 2 * b" by blast
    with less.prems have pos: "0 < b" by simp
    then have "a - 1 = 2 * (b - 1) + 1" using b by simp
    then have "a AND (a - 1) = 2 * (b AND (b - 1))"
      using b by (simp add: and_nat_rec [of "2 * b"])
    with less.prems have "b AND (b - 1) = 0" by simp
    with less.IH [of b] pos b obtain k where "b = 2 ^ k" by auto
    with b have "a = 2 ^ Suc k" by simp
    then show ?thesis by blast
  next
    case False
    then obtain b where b: "a = 2 * b + 1" using oddE by blast
    then have "a AND (a - 1) = 2 * b" by (simp add: and_nat_rec [of "Suc (2 * b)"])
    with less.prems b have "a = 2 ^ 0" by simp
    then show ?thesis by blast
  qed
qed

section \<open>The bucket loops\<close>

lemma bucket_loop_pow2:
  assumes "bucket_loop ab (2 ^ k) b = Some b'" and "k < 32"
  shows "\<exists>j. k \<le> j \<and> j < 32 \<and> b' = b + (j - k) \<and> ab \<le> 2 ^ j"
  using assms
proof (induction "32 - k" arbitrary: k b)
  case (Suc n)
  show ?case
  proof (cases "2 ^ k < ab")
    case True
    have "k \<noteq> 31" using Suc.prems True by (auto simp: bucket_loop.simps [of ab])
    with Suc.prems have k: "Suc k < 32" by simp
    then have "(2::nat) ^ Suc k < 2 ^ 32" by (intro power_strict_increasing) auto
    then have "(2::nat) ^ k * 2 mod 2 ^ 32 = 2 ^ Suc k" by simp
    with Suc.prems True have "bucket_loop ab (2 ^ Suc k) (Suc b) = Some b'"
      by (simp add: bucket_loop.simps [of ab "2 ^ k" b])
    with Suc.hyps k obtain j where "Suc k \<le> j" "j < 32" "b' = Suc b + (j - Suc k)" "ab \<le> 2 ^ j"
      by (metis Suc_diff_Suc Suc_inject Suc_lessD)
    then show ?thesis by (intro exI [of _ j]) auto
  next
    case False
    with Suc.prems show ?thesis by (intro exI [of _ k]) (auto simp: bucket_loop.simps [of ab])
  qed
qed simp

lemma pagebucket_loop_pow2:
  "k \<le> n \<Longrightarrow> j + k < 32 \<Longrightarrow> pagebucket_loop (Suc n) (2 ^ (j + k)) (2 ^ j) b = Some (b + k)"
proof (induction k arbitrary: n j b)
  case 0
  then show ?case by simp
next
  case (Suc k)
  then obtain n' where n: "n = Suc n'" by (cases n) auto
  have "(2::nat) ^ Suc j < 2 ^ 32" using Suc.prems by (intro power_strict_increasing) auto
  then have "(2::nat) ^ j * 2 mod 2 ^ 32 = 2 ^ Suc j" by simp
  moreover have "(2::nat) ^ j < 2 ^ (j + Suc k)" by (intro power_strict_increasing) auto
  moreover have "pagebucket_loop (Suc n') (2 ^ (Suc j + k)) (2 ^ Suc j) (Suc b) = Some (Suc b + k)"
    using Suc n by (intro Suc.IH) auto
  ultimately show ?case using n by simp
qed

lemma malloc_init_eq:
  assumes "pb \<le> 26"
  shows "malloc_init (2 ^ (pb + 5)) h =
    Some (if pagesz h = 0 then h\<lparr>pagesz := 2 ^ (pb + 5), pagebucket := pb\<rparr> else h)"
  using pagebucket_loop_pow2 [of pb 31 5 0] assms
  by (simp add: malloc_init_def MINSHIFT_def add.commute eval_nat_numeral del: pagebucket_loop.simps)

section \<open>The invariant\<close>

definition bsize :: "nat \<Rightarrow> nat" where
  "bsize b = 2 ^ (b + MINSHIFT)"

text \<open>The blocks of a free list, from its head along \<open>ov_next\<close>.\<close>

fun fchain :: "mem \<Rightarrow> nat \<Rightarrow> nat list \<Rightarrow> bool" where
  "fchain m p [] \<longleftrightarrow> p = 0"
| "fchain m p (x # xs) \<longleftrightarrow> p = x \<and> x \<noteq> 0 \<and> fchain m (ov_next m x) xs"

text \<open>A block: its bucket and, when in use, the pointer handed out.\<close>

type_synonym blocks = "nat \<rightharpoonup> nat \<times> nat option"

definition blk_ok :: "nat \<Rightarrow> (nat \<times> nat) list \<Rightarrow> nat \<Rightarrow> nat \<Rightarrow> bool" where
  "blk_ok pb mps a b \<longleftrightarrow>
     b \<le> 26 \<and> a \<noteq> 0 \<and> 2 ^ (min b pb + MINSHIFT) dvd a \<and> a + bsize b \<le> 2 ^ 63 \<and>
     (\<exists>(r, l) \<in> set mps. r \<le> a \<and> a + bsize b \<le> r + l)"

definition live_ok :: "mem \<Rightarrow> nat \<Rightarrow> nat \<Rightarrow> nat \<Rightarrow> bool" where
  "live_ok m a b rv \<longleftrightarrow>
     a + OVSIZE \<le> rv \<and> rv \<le> a + bsize b \<and> ov_alignpad m (rv - OVSIZE) = rv - a \<and>
     ov_magic m (rv - OVSIZE) = MAGIC \<and> ov_index m (rv - OVSIZE) = b"

definition blk_disjoint :: "blocks \<Rightarrow> bool" where
  "blk_disjoint B \<longleftrightarrow>
     (\<forall>a b st a' b' st'. B a = Some (b, st) \<longrightarrow> B a' = Some (b', st') \<longrightarrow> a \<noteq> a' \<longrightarrow>
        Reg a (bsize b) \<inter> Reg a' (bsize b') = {})"

definition free_ok :: "heap \<Rightarrow> blocks \<Rightarrow> bool" where
  "free_ok h B \<longleftrightarrow>
     (\<forall>b. \<exists>xs. fchain (mem h) (nextf h b) xs \<and> distinct xs \<and> set xs = {a. B a = Some (b, None)})"

definition heap_inv :: "nat \<Rightarrow> heap \<Rightarrow> blocks \<Rightarrow> bool" where
  "heap_inv pb h B \<longleftrightarrow>
     (pagesz h = 0 \<or> pagesz h = 2 ^ (pb + MINSHIFT) \<and> pagebucket h = pb) \<and>
     (\<forall>a b st. B a = Some (b, st) \<longrightarrow> blk_ok pb (maps h) a b) \<and>
     blk_disjoint B \<and>
     (\<forall>a b rv. B a = Some (b, Some rv) \<longrightarrow> live_ok (mem h) a b rv) \<and>
     free_ok h B"

text \<open>The documented behaviour of \<open>mmap\<close>: a page-aligned user address, not mapped before.\<close>

definition mmap_ok :: "nat \<Rightarrow> host_mmap \<Rightarrow> bool" where
  "mmap_ok PS mm \<longleftrightarrow>
     (\<forall>log len a. mm log len = Some a \<longrightarrow>
        a \<noteq> 0 \<and> PS dvd a \<and> a + len \<le> 2 ^ 63 \<and> (\<forall>(r, l) \<in> set log. Reg a len \<inter> Reg r l = {}))"

lemma bsize_pos [simp]: "0 < bsize b"
  by (simp add: bsize_def)

lemma bsize_ge: "32 \<le> bsize b"
proof -
  have "(2::nat) ^ 5 \<le> 2 ^ (b + 5)" by (intro power_increasing) auto
  then show ?thesis by (simp add: bsize_def MINSHIFT_def)
qed

lemma heap_inv_init: "heap_inv pb \<lparr>mem = m, nextf = (\<lambda>_. 0), pagesz = 0, pagebucket = 0, maps = []\<rparr> Map.empty"
  by (auto simp: heap_inv_def blk_disjoint_def free_ok_def intro!: exI [of _ "[]"])

lemma fchain_cong:
  assumes "\<And>x. x \<in> set xs \<Longrightarrow> rd64 m' x = rd64 m x"
  shows "fchain m' p xs = fchain m p xs"
  using assms by (induction xs arbitrary: p) (auto simp: ov_next_def)

lemma live_ok_cong:
  assumes "agree_off W m m'" and "W \<inter> Reg a (bsize b) = {}"
  shows "live_ok m' a b rv = live_ok m a b rv"
proof (cases "a + OVSIZE \<le> rv \<and> rv \<le> a + bsize b")
  case True
  then have "Reg (rv - OVSIZE) 8 \<inter> W = {}" "rv - OVSIZE + 8 \<notin> W" "rv - OVSIZE + 9 \<notin> W"
    using assms(2) by (auto simp: OVSIZE_def disjoint_iff)
  with assms(1) show ?thesis
    by (simp add: live_ok_def ov_alignpad_def ov_magic_def ov_index_def agree_off_rd64 agree_off_rd8)
qed (auto simp: live_ok_def)

lemma blk_disjointD:
  "blk_disjoint B \<Longrightarrow> B a = Some (b, st) \<Longrightarrow> B a' = Some (b', st') \<Longrightarrow> a \<noteq> a' \<Longrightarrow>
   Reg a (bsize b) \<inter> Reg a' (bsize b') = {}"
  unfolding blk_disjoint_def by blast

lemma blk_disjoint_upd_state:
  "blk_disjoint B \<Longrightarrow> B a = Some (b, st) \<Longrightarrow> blk_disjoint (B(a \<mapsto> (b, st')))"
  unfolding blk_disjoint_def fun_upd_apply by (auto split: if_splits)

text \<open>Memory changes inside one block leave the chains and overheads of the others alone.\<close>

lemma other_block_rd64:
  assumes "blk_disjoint B" and "B a = Some (b, st)" and "B x = Some (c, st')" and "x \<noteq> a"
    and "agree_off (Reg a (bsize b)) m m'"
  shows "rd64 m' x = rd64 m x"
proof -
  have "Reg x 8 \<subseteq> Reg x (bsize c)" using bsize_ge [of c] by (auto simp: Reg_def)
  with blk_disjointD [OF assms(1,3,2)] assms(4) have "Reg x 8 \<inter> Reg a (bsize b) = {}" by blast
  with assms(5) show ?thesis by (rule agree_off_rd64)
qed

lemma other_block_live:
  assumes "blk_disjoint B" and "B a = Some (b, st)" and "B x = Some (c, st')" and "x \<noteq> a"
    and "agree_off (Reg a (bsize b)) m m'"
  shows "live_ok m' x c rv = live_ok m x c rv"
  using assms(5) blk_disjointD [OF assms(1,2,3)] assms(4) by (intro live_ok_cong) auto

lemma free_head:
  assumes "heap_inv pb h B" and ne: "nextf h b \<noteq> 0"
  shows "B (nextf h b) = Some (b, None)"
proof -
  from assms have "free_ok h B" by (simp add: heap_inv_def)
  then obtain xs where xs: "fchain (mem h) (nextf h b) xs" "set xs = {a. B a = Some (b, None)}"
    unfolding free_ok_def by blast
  with ne have "nextf h b \<in> set xs" by (cases xs) auto
  with xs(2) show ?thesis by simp
qed

text \<open>Taking the head of a free list into use.\<close>

lemma heap_inv_pop:
  assumes inv: "heap_inv pb h B" and ne: "nextf h b \<noteq> 0"
    and agr: "agree_off (Reg (nextf h b) (bsize b)) (mem h) m'"
    and live: "live_ok m' (nextf h b) b rv"
  shows "B (nextf h b) = Some (b, None)"
    and "heap_inv pb (h\<lparr>nextf := (nextf h)(b := ov_next (mem h) (nextf h b)), mem := m'\<rparr>)
           (B(nextf h b \<mapsto> (b, Some rv)))"
proof -
  let ?a = "nextf h b"
  let ?B = "B(?a \<mapsto> (b, Some rv))"
  let ?h = "h\<lparr>nextf := (nextf h)(b := ov_next (mem h) ?a), mem := m'\<rparr>"
  from inv have fr: "free_ok h B" and dis: "blk_disjoint B" by (auto simp: heap_inv_def)
  then obtain xs where xs: "fchain (mem h) ?a xs" "distinct xs" "set xs = {a. B a = Some (b, None)}"
    by (auto simp: free_ok_def)
  with ne obtain ys where ys: "xs = ?a # ys" "fchain (mem h) (ov_next (mem h) ?a) ys"
    by (cases xs) auto
  with xs show B: "B ?a = Some (b, None)" by auto
  have "free_ok ?h ?B"
    unfolding free_ok_def
  proof
    fix c
    obtain zs where zs: "fchain (mem h) (nextf ?h c) zs" "distinct zs" "set zs = {a. ?B a = Some (c, None)}"
    proof (cases "c = b")
      case True
      have "set ys = {a. ?B a = Some (b, None)}" using xs ys by auto
      with True that [of ys] xs ys show ?thesis by simp
    next
      case False
      from fr obtain zs where zs: "fchain (mem h) (nextf h c) zs" "distinct zs"
        "set zs = {a. B a = Some (c, None)}" unfolding free_ok_def by blast
      moreover have "{a. B a = Some (c, None)} = {a. ?B a = Some (c, None)}" using B False by auto
      ultimately show ?thesis using that [of zs] False by simp
    qed
    moreover have "fchain m' (nextf ?h c) zs = fchain (mem h) (nextf ?h c) zs"
    proof (rule fchain_cong)
      fix x assume "x \<in> set zs"
      with zs have "B x = Some (c, None)" "x \<noteq> ?a" by (auto split: if_splits)
      then show "rd64 m' x = rd64 (mem h) x" using other_block_rd64 [OF dis B _ _ agr] by blast
    qed
    ultimately show "\<exists>xs. fchain (mem ?h) (nextf ?h c) xs \<and> distinct xs \<and> set xs = {a. ?B a = Some (c, None)}"
      by auto
  qed
  moreover have "live_ok m' a c r" if "?B a = Some (c, Some r)" for a c r
  proof (cases "a = ?a")
    case False
    with that inv have "live_ok (mem h) a c r" by (auto simp: heap_inv_def)
    with other_block_live [OF dis B _ False agr] that False show ?thesis by auto
  qed (use that live in auto)
  ultimately show "heap_inv pb ?h ?B"
    using inv B blk_disjoint_upd_state [OF dis B] by (auto simp: heap_inv_def split: if_splits)
qed

text \<open>Giving a block in use back to its free list.\<close>

lemma heap_inv_push:
  assumes inv: "heap_inv pb h B" and B: "B a = Some (b, Some rv)"
    and hd64: "nextf h b < 2 ^ 64"
  shows "heap_inv pb (h\<lparr>mem := wr64 a (nextf h b) (mem h), nextf := (nextf h)(b := a)\<rparr>)
           (B(a \<mapsto> (b, None)))"
proof -
  let ?m = "wr64 a (nextf h b) (mem h)"
  let ?B = "B(a \<mapsto> (b, None))"
  let ?h = "h\<lparr>mem := ?m, nextf := (nextf h)(b := a)\<rparr>"
  from inv have fr: "free_ok h B" and dis: "blk_disjoint B" by (auto simp: heap_inv_def)
  from inv B have a0: "a \<noteq> 0" by (auto simp: heap_inv_def blk_ok_def)
  have agr: "agree_off (Reg a (bsize b)) (mem h) ?m"
    using bsize_ge [of b] by (intro agree_off_wr64) auto
  have "free_ok ?h ?B"
    unfolding free_ok_def
  proof
    fix c
    from fr obtain zs where zs: "fchain (mem h) (nextf h c) zs" "distinct zs"
      "set zs = {x. B x = Some (c, None)}" unfolding free_ok_def by blast
    have "fchain ?m (nextf h c) zs = fchain (mem h) (nextf h c) zs"
    proof (rule fchain_cong)
      fix x assume "x \<in> set zs"
      with zs B have "B x = Some (c, None)" "x \<noteq> a" by auto
      then show "rd64 ?m x = rd64 (mem h) x" using other_block_rd64 [OF dis B _ _ agr] by blast
    qed
    with zs have zs': "fchain ?m (nextf h c) zs" by simp
    show "\<exists>xs. fchain (mem ?h) (nextf ?h c) xs \<and> distinct xs \<and> set xs = {x. ?B x = Some (c, None)}"
    proof (cases "c = b")
      case True
      have "set (a # zs) = {x. ?B x = Some (b, None)}" "a \<notin> set zs" using zs True B by auto
      with zs zs' True a0 hd64 show ?thesis
        by (intro exI [of _ "a # zs"]) (auto simp: ov_next_def)
    next
      case False
      have "set zs = {x. ?B x = Some (c, None)}" using zs False B by auto
      with zs zs' False show ?thesis by auto
    qed
  qed
  moreover have "live_ok ?m x c r" if "?B x = Some (c, Some r)" for x c r
  proof (cases "x = a")
    case False
    with that inv have "live_ok (mem h) x c r" by (auto simp: heap_inv_def)
    with other_block_live [OF dis B _ False agr] that False show ?thesis by auto
  qed (use that in auto)
  ultimately show ?thesis
    using inv B blk_disjoint_upd_state [OF dis B] by (auto simp: heap_inv_def split: if_splits)
qed

section \<open>Obtaining more memory\<close>

fun blocks_from :: "nat \<Rightarrow> nat \<Rightarrow> nat \<Rightarrow> nat list" where
  "blocks_from 0 op sz = []"
| "blocks_from (Suc n) op sz = op # blocks_from n (op + sz) sz"

lemma set_blocks_from: "x \<in> set (blocks_from n op sz) \<longleftrightarrow> (\<exists>i<n. x = op + i * sz)"
proof (induction n arbitrary: op)
  case (Suc n)
  have "(\<exists>i<Suc n. x = op + i * sz) \<longleftrightarrow> x = op \<or> (\<exists>i<n. x = op + sz + i * sz)"
    by (auto simp: Ex_less_Suc2 algebra_simps)
  with Suc show ?case by simp
qed simp

lemma distinct_blocks_from: "0 < sz \<Longrightarrow> distinct (blocks_from n op sz)"
  by (induction n arbitrary: op) (auto simp: set_blocks_from)

lemma link_blocks_chain:
  assumes "n = 0 \<or> 8 \<le> sz" and "0 < op" and "op + n * sz < 2 ^ 64"
  shows "fchain (link_blocks (Suc n) op sz m) op (blocks_from (Suc n) op sz)"
    and "agree_off (\<Union>a \<in> set (blocks_from (Suc n) op sz). Reg a 8) m (link_blocks (Suc n) op sz m)"
  using assms
proof (induction n arbitrary: op m)
  case 0
  {
    case 1
    then show ?case by (simp add: ov_next_def)
  next
    case 2
    then show ?case by (simp add: agree_off_wr64)
  }
next
  case (Suc n)
  {
    case (1 op m)
    let ?m = "wr64 op (op + sz) m"
    let ?m' = "link_blocks (Suc n) (op + sz) sz ?m"
    let ?W = "\<Union>a \<in> set (blocks_from (Suc n) (op + sz) sz). Reg a 8"
    have prems: "n = 0 \<or> 8 \<le> sz" "0 < op + sz" "op + sz + n * sz < 2 ^ 64" using 1 by auto
    have "\<forall>a \<in> set (blocks_from (Suc n) (op + sz) sz). Reg op 8 \<inter> Reg a 8 = {}"
    proof
      fix a assume "a \<in> set (blocks_from (Suc n) (op + sz) sz)"
      then obtain i where "a = op + sz + i * sz" unfolding set_blocks_from by blast
      with 1 show "Reg op 8 \<inter> Reg a 8 = {}" by (simp add: Reg_disjoint_iff)
    qed
    then have "Reg op 8 \<inter> ?W = {}" by (simp only: Int_UN_distrib SUP_bot_conv)
    with Suc.IH(2) [OF prems] have "rd64 ?m' op = rd64 ?m op" by (rule agree_off_rd64)
    moreover have "rd64 ?m op = op + sz" using 1 by (intro rd64_wr64) auto
    ultimately have "ov_next ?m' op = op + sz" by (simp add: ov_next_def)
    with Suc.IH(1) [OF prems] 1 show ?case by simp
  next
    case (2 op m)
    let ?m = "wr64 op (op + sz) m"
    let ?m' = "link_blocks (Suc n) (op + sz) sz ?m"
    let ?W = "\<Union>a \<in> set (blocks_from (Suc n) (op + sz) sz). Reg a 8"
    have prems: "n = 0 \<or> 8 \<le> sz" "0 < op + sz" "op + sz + n * sz < 2 ^ 64" using 2 by auto
    have "agree_off (Reg op 8 \<union> ?W) m ?m" by (intro agree_off_wr64) auto
    moreover have "agree_off (Reg op 8 \<union> ?W) ?m ?m'"
      using Suc.IH(2) [OF prems] by (rule agree_off_mono) auto
    ultimately have "agree_off (Reg op 8 \<union> ?W) m ?m'" by (rule agree_off_trans)
    then show ?case by simp
  }
qed

lemma blk_ok_mono: "blk_ok pb mps a b \<Longrightarrow> set mps \<subseteq> set mps' \<Longrightarrow> blk_ok pb mps' a b"
  unfolding blk_ok_def by blast

lemma new_block:
  assumes "a \<in> set (blocks_from (Suc n) r (bsize b))"
  shows "r \<le> a \<and> a + bsize b \<le> r + Suc n * bsize b \<and> (\<exists>i. a = r + i * bsize b)"
proof -
  from assms obtain i where i: "i < Suc n" "a = r + i * bsize b" by (auto simp only: set_blocks_from)
  then have "Suc i * bsize b \<le> Suc n * bsize b" by (intro mult_le_mono) auto
  with i show ?thesis by auto
qed

lemma new_block_reg:
  assumes "a \<in> set (blocks_from (Suc n) r (bsize b))"
  shows "Reg a (bsize b) \<subseteq> Reg r (Suc n * bsize b)"
  using new_block [OF assms] by (intro Reg_subset) auto

text \<open>The blocks the heap has lie in its mappings, hence apart from a new mapping.\<close>

lemma old_block_apart:
  assumes inv: "heap_inv pb h B" and fresh: "\<forall>(q, l) \<in> set (maps h). Reg r n \<inter> Reg q l = {}"
    and B: "B a = Some (c, st)"
  shows "Reg r n \<inter> Reg a (bsize c) = {}"
proof -
  from inv B have "blk_ok pb (maps h) a c" by (auto simp: heap_inv_def)
  then obtain q l where ql: "(q, l) \<in> set (maps h)" "q \<le> a" "a + bsize c \<le> q + l"
    by (auto simp: blk_ok_def)
  then have "Reg r n \<inter> Reg q l = {}" using fresh by blast
  moreover have "Reg a (bsize c) \<subseteq> Reg q l" using ql(2,3) by (rule Reg_subset)
  ultimately show ?thesis by blast
qed

lemma new_block_notin:
  assumes inv: "heap_inv pb h B"
    and fresh: "\<forall>(q, l) \<in> set (maps h). Reg r (Suc n * bsize b) \<inter> Reg q l = {}"
    and B: "B a = Some (c, st)"
  shows "a \<notin> set (blocks_from (Suc n) r (bsize b))"
proof
  assume "a \<in> set (blocks_from (Suc n) r (bsize b))"
  moreover have "a \<in> Reg a (bsize b)" "a \<in> Reg a (bsize c)" by simp_all
  ultimately show False using new_block_reg old_block_apart [OF inv fresh B] by blast
qed

text \<open>A fresh mapping cut into free blocks extends the heap.\<close>

lemma heap_inv_extend:
  assumes inv: "heap_inv pb h B" and nil: "nextf h b = 0" and b: "b \<le> 26"
    and fresh: "r \<noteq> 0" "2 ^ (pb + MINSHIFT) dvd r" "r + Suc n * bsize b \<le> 2 ^ 63"
      "\<forall>(q, l) \<in> set (maps h). Reg r (Suc n * bsize b) \<inter> Reg q l = {}"
    and m': "fchain m' r (blocks_from (Suc n) r (bsize b))" "agree_off (Reg r (Suc n * bsize b)) (mem h) m'"
  shows "heap_inv pb (h\<lparr>maps := (r, Suc n * bsize b) # maps h, nextf := (nextf h)(b := r), mem := m'\<rparr>)
    (\<lambda>a. if a \<in> set (blocks_from (Suc n) r (bsize b)) then Some (b, None) else B a)"
proof -
  let ?bs = "blocks_from (Suc n) r (bsize b)" and ?len = "Suc n * bsize b"
  let ?B = "\<lambda>a. if a \<in> set ?bs then Some (b, None) else B a"
  let ?h = "h\<lparr>maps := (r, ?len) # maps h, nextf := (nextf h)(b := r), mem := m'\<rparr>"
  have new: "r \<le> a \<and> a + bsize b \<le> r + ?len \<and> (\<exists>i. a = r + i * bsize b)" if "a \<in> set ?bs" for a
    using that by (rule new_block)
  have old: "Reg r ?len \<inter> Reg a (bsize c) = {}" if "B a = Some (c, st)" for a c st
    by (rule old_block_apart [OF inv fresh(4) that])
  have notin: "a \<notin> set ?bs" if "B a = Some (c, st)" for a c st
    by (rule new_block_notin [OF inv fresh(4) that])
  have newreg: "Reg a (bsize b) \<subseteq> Reg r ?len" if "a \<in> set ?bs" for a
    using that by (rule new_block_reg)
  have dis: "blk_disjoint ?B"
    unfolding blk_disjoint_def
  proof (intro allI impI)
    fix a c st a' c' st' assume B: "?B a = Some (c, st)" "?B a' = Some (c', st')" and ne: "a \<noteq> a'"
    show "Reg a (bsize c) \<inter> Reg a' (bsize c') = {}"
    proof (cases "a \<in> set ?bs"; cases "a' \<in> set ?bs")
      assume in2: "a \<in> set ?bs" "a' \<in> set ?bs"
      then obtain i j where ij: "a = r + i * bsize b" "a' = r + j * bsize b" using new by blast
      with ne have "i < j \<or> j < i" by auto
      then have "Suc i * bsize b \<le> j * bsize b \<or> Suc j * bsize b \<le> i * bsize b" by (metis Suc_leI mult_le_mono1)
      with B in2 ij show ?thesis by (auto simp: Reg_disjoint_iff)
    next
      assume "a \<in> set ?bs" "a' \<notin> set ?bs"
      with B newreg [of a] old [of a' c' st'] show ?thesis by (auto; blast)
    next
      assume "a \<notin> set ?bs" "a' \<in> set ?bs"
      with B newreg [of a'] old [of a c st] show ?thesis by (auto; blast)
    next
      assume "a \<notin> set ?bs" "a' \<notin> set ?bs"
      with B ne inv show ?thesis by (auto simp: heap_inv_def dest: blk_disjointD)
    qed
  qed
  have rd: "rd64 m' a = rd64 (mem h) a" if "B a = Some (c, st)" for a c st
  proof (rule agree_off_rd64 [OF m'(2)])
    have "Reg a 8 \<subseteq> Reg a (bsize c)" using bsize_ge [of c] by auto
    with old [OF that] show "Reg a 8 \<inter> Reg r ?len = {}" by blast
  qed
  have fr: "free_ok ?h ?B"
    unfolding free_ok_def
  proof
    fix c
    from inv obtain xs where xs: "fchain (mem h) (nextf h c) xs" "distinct xs" "set xs = {a. B a = Some (c, None)}"
      unfolding heap_inv_def free_ok_def by blast
    show "\<exists>xs. fchain (mem ?h) (nextf ?h c) xs \<and> distinct xs \<and> set xs = {a. ?B a = Some (c, None)}"
    proof (cases "c = b")
      case True
      with xs nil have "xs = []" by (cases xs) auto
      with xs True have "\<And>a. B a \<noteq> Some (b, None)" by auto
      then have "set ?bs = {a. ?B a = Some (b, None)}" by auto
      moreover have "distinct ?bs" by (rule distinct_blocks_from) simp
      ultimately show ?thesis using m'(1) True by (intro exI [of _ ?bs]) auto
    next
      case False
      have "fchain m' (nextf h c) xs = fchain (mem h) (nextf h c) xs"
        using xs(3) rd by (intro fchain_cong) auto
      moreover have "set xs = {a. ?B a = Some (c, None)}" using xs(3) notin False by auto
      ultimately show ?thesis using xs False by auto
    qed
  qed
  have lv: "live_ok m' a c rv" if "?B a = Some (c, Some rv)" for a c rv
  proof -
    from that have Ba: "B a = Some (c, Some rv)" by (auto split: if_splits)
    with inv have "live_ok (mem h) a c rv" by (auto simp: heap_inv_def)
    with live_ok_cong [OF m'(2) old [OF Ba]] show ?thesis by simp
  qed
  have bk: "blk_ok pb (maps ?h) a c" if "?B a = Some (c, st)" for a c st
  proof (cases "a \<in> set ?bs")
    case True
    with new [OF True] obtain i where a: "r \<le> a" "a + bsize b \<le> r + ?len" "a = r + i * bsize b" by blast
    have "(2::nat) ^ (min b pb + MINSHIFT) dvd 2 ^ (pb + MINSHIFT)"
      by (intro le_imp_power_dvd) simp
    then have "2 ^ (min b pb + MINSHIFT) dvd r" using fresh(2) by (rule dvd_trans)
    moreover have "(2::nat) ^ (min b pb + MINSHIFT) dvd bsize b"
      unfolding bsize_def by (intro le_imp_power_dvd) simp
    ultimately have "2 ^ (min b pb + MINSHIFT) dvd a" using a(3) by simp
    moreover have "a + bsize b \<le> 2 ^ 63" "a \<noteq> 0" using a(1,2) fresh(1,3) by linarith+
    moreover have "c = b" using True that by simp
    ultimately show ?thesis using a(1,2) b by (auto simp: blk_ok_def)
  next
    case False
    with that inv have "blk_ok pb (maps h) a c" by (auto simp: heap_inv_def)
    then show ?thesis by (rule blk_ok_mono) auto
  qed
  from inv dis fr lv bk show ?thesis by (auto simp: heap_inv_def)
qed

text \<open>
  What growing the heap leaves alone: the blocks it had, their state, and every byte of them.
\<close>

definition blocks_kept :: "heap \<Rightarrow> blocks \<Rightarrow> heap \<Rightarrow> blocks \<Rightarrow> bool" where
  "blocks_kept h B h' B' \<longleftrightarrow>
     (\<forall>a b st. B a = Some (b, st) \<longrightarrow>
        B' a = Some (b, st) \<and> (\<forall>x \<in> Reg a (bsize b). mem h' x = mem h x)) \<and>
     (\<forall>a b rv. B' a = Some (b, Some rv) \<longrightarrow> B a = Some (b, Some rv))"

lemma blocks_kept_refl [simp]: "mem h' = mem h \<Longrightarrow> blocks_kept h B h' B"
  by (simp add: blocks_kept_def)

lemma morecore_sizes:
  assumes "pagesz h = 2 ^ (pb + MINSHIFT)" and "pagebucket h = pb" and "mm (maps h) (Suc n * bsize b) = r"
    and "Suc n = 2 ^ (pb - b)"
  shows "morecore mm b h = (case r of None \<Rightarrow> h | Some 0 \<Rightarrow> h\<lparr>maps := (0, Suc n * bsize b) # maps h\<rparr>
    | Some op \<Rightarrow> h\<lparr>maps := (op, Suc n * bsize b) # maps h, nextf := (nextf h)(b := op),
                   mem := link_blocks (Suc n) op (if b < pb then bsize b else 0) (mem h)\<rparr>)"
proof -
  show ?thesis
  proof (cases "b < pb")
    case True
    have pg: "pagesz h = 2 ^ (pb - b) * bsize b"
      using True assms(1) by (simp add: bsize_def flip: power_add)
    have "pagesz h div 2 ^ (b + MINSHIFT) = Suc n" using pg assms(4) by (simp add: bsize_def)
    moreover have "pagesz h div Suc n = bsize b" using pg assms(4) by simp
    moreover have "pagesz h = Suc n * bsize b" using pg assms(4) by simp
    ultimately show ?thesis using True assms(2,3)
      by (auto simp: morecore_def corealloc_def Let_def split: option.splits nat.splits)
  next
    case False
    then have "Suc n * bsize b = 2 ^ (b - pb) * pagesz h"
      using assms(1,4) by (simp add: bsize_def flip: power_add)
    with False assms show ?thesis
      by (auto simp: morecore_def corealloc_def Let_def split: option.splits nat.splits)
  qed
qed

lemma extend_kept:
  assumes inv: "heap_inv pb h B" and fresh: "\<forall>(q, l) \<in> set (maps h). Reg r (Suc n * bsize b) \<inter> Reg q l = {}"
    and ag: "agree_off (Reg r (Suc n * bsize b)) (mem h) (mem h')"
  shows "blocks_kept h B h' (\<lambda>a. if a \<in> set (blocks_from (Suc n) r (bsize b)) then Some (b, None) else B a)"
  unfolding blocks_kept_def
proof (intro conjI allI impI ballI)
  fix a c st assume B: "B a = Some (c, st)"
  have old: "Reg r (Suc n * bsize b) \<inter> Reg a (bsize c) = {}" by (rule old_block_apart [OF inv fresh B])
  show "(if a \<in> set (blocks_from (Suc n) r (bsize b)) then Some (b, None) else B a) = Some (c, st)"
    using new_block_notin [OF inv fresh B] B by simp
  show "mem h' x = mem h x" if "x \<in> Reg a (bsize c)" for x
    using agree_off_rd8 [OF ag] old that by blast
qed (auto split: if_splits)

lemma morecore_inv:
  assumes inv: "heap_inv pb h B" and pg: "pagesz h = 2 ^ (pb + MINSHIFT)" and nil: "nextf h b = 0"
    and b: "b \<le> 26" and mm: "mmap_ok (2 ^ (pb + MINSHIFT)) mm"
  shows "\<exists>B'. heap_inv pb (morecore mm b h) B' \<and> blocks_kept h B (morecore mm b h) B' \<and>
    pagesz (morecore mm b h) = pagesz h"
proof -
  obtain n where n: "Suc n = 2 ^ (pb - b)" using not0_implies_Suc [of "2 ^ (pb - b)"] by fastforce
  have pb: "pagebucket h = pb" using inv pg by (auto simp: heap_inv_def)
  note mc = morecore_sizes [OF pg pb refl n]
  show ?thesis
  proof (cases "mm (maps h) (Suc n * bsize b)")
    case None
    with mc have "morecore mm b h = h" by simp
    with inv show ?thesis by (intro exI [of _ B]) simp
  next
    case (Some r)
    let ?len = "Suc n * bsize b" and ?sz = "if b < pb then bsize b else 0"
    let ?m = "link_blocks (Suc n) r ?sz (mem h)"
    let ?bs = "blocks_from (Suc n) r (bsize b)"
    let ?B = "\<lambda>a. if a \<in> set ?bs then Some (b, None) else B a"
    let ?h = "h\<lparr>maps := (r, ?len) # maps h, nextf := (nextf h)(b := r), mem := ?m\<rparr>"
    have fresh: "r \<noteq> 0" "2 ^ (pb + MINSHIFT) dvd r" "r + ?len \<le> 2 ^ 63"
      "\<forall>(q, l) \<in> set (maps h). Reg r ?len \<inter> Reg q l = {}"
      using mm Some unfolding mmap_ok_def by blast+
    have "morecore mm b h = ?h" using mc Some fresh(1) by (cases r) simp_all
    have bs: "blocks_from (Suc n) r ?sz = ?bs"
      using n by (cases "b < pb") (simp_all add: not_less)
    have nb: "n * ?sz \<le> ?len" by simp
    have pre: "n = 0 \<or> 8 \<le> ?sz" "0 < r" "r + n * ?sz < 2 ^ 64"
      using n bsize_ge [of b] fresh(1,3) nb by (auto simp: not_less simp del: mult_Suc)
    have ch: "fchain ?m r ?bs" using link_blocks_chain(1) [OF pre, of "mem h"] bs by simp
    have "Reg a 8 \<subseteq> Reg r ?len" if "a \<in> set ?bs" for a
      using new_block [OF that] bsize_ge [of b] by (intro Reg_subset) auto
    then have "(\<Union>a \<in> set ?bs. Reg a 8) \<subseteq> Reg r ?len" by (rule UN_least)
    with link_blocks_chain(2) [OF pre, of "mem h"] have ag: "agree_off (Reg r ?len) (mem h) ?m"
      unfolding bs by (rule agree_off_mono)
    have "heap_inv pb ?h ?B" by (rule heap_inv_extend [OF inv nil b fresh ch ag])
    moreover have "blocks_kept h B ?h ?B" using ag by (intro extend_kept [OF inv fresh(4)]) simp
    ultimately show ?thesis using \<open>morecore mm b h = ?h\<close> by auto
  qed
qed

section \<open>Allocating\<close>

lemma alloc_bucket:
  assumes "bucket_loop ab (2 ^ (b0 + MINSHIFT)) b0 = Some b" and "b0 \<le> 26"
  shows "b \<le> 26 \<and> ab \<le> bsize b"
proof -
  have "b0 + MINSHIFT < 32" using assms(2) by (simp add: MINSHIFT_def)
  with bucket_loop_pow2 [OF assms(1)] obtain j
    where j: "b0 + MINSHIFT \<le> j" "j < 32" "b = b0 + (j - (b0 + MINSHIFT))" "ab \<le> 2 ^ j" by blast
  then have "j = b + MINSHIFT" by simp
  with j(2,4) show ?thesis by (simp add: bsize_def MINSHIFT_def)
qed

text \<open>Rounding a 16-aligned block up to the alignment skips at most \<open>align\<close> bytes.\<close>

lemma align_up:
  assumes op: "16 dvd op" and k: "4 \<le> k" and rv: "rv = mask_align (op + 16 + 2 ^ k - 1) (2 ^ k)"
  shows "op + 16 \<le> rv" and "rv \<le> op + 2 ^ k" and "2 ^ k dvd rv"
proof -
  let ?x = "op + 16 + 2 ^ k - 1"
  have rv': "rv = ?x div 2 ^ k * 2 ^ k" using rv by (simp add: mask_align_eq)
  then show "2 ^ k dvd rv" by simp
  have k16: "16 dvd (2::nat) ^ k" using le_imp_power_dvd [OF k, of "2::nat"] by simp
  have split: "rv + ?x mod 2 ^ k = ?x" unfolding rv' by (rule div_mult_mod_eq)
  have "?x mod 2 ^ k < 2 ^ k" by simp
  with split show "op + 16 \<le> rv" by linarith
  have "16 dvd rv" using rv' k16 by (simp add: dvd_mult)
  moreover have "16 dvd op + 2 ^ k" using op k16 by simp
  moreover have "rv < op + 2 ^ k + 16" using split by linarith
  ultimately show "rv \<le> op + 2 ^ k" by (auto simp: dvd_def)
qed

definition stamp :: "nat \<Rightarrow> nat \<Rightarrow> nat \<Rightarrow> mem \<Rightarrow> mem" where
  "stamp op rv bucket m =
     wr64 (rv - OVSIZE) (rv - op) (wr8 (rv - OVSIZE + 9) bucket (wr8 (rv - OVSIZE + 8) MAGIC m))"

lemma stamp_live:
  assumes "op + 16 \<le> rv" and "rv \<le> op + bsize b" and "b \<le> 26" and "op + bsize b \<le> 2 ^ 63"
  shows "live_ok (stamp op rv b m) op b rv"
    and "agree_off (Reg op (bsize b)) m (stamp op rv b m)"
proof -
  obtain t where t: "rv = op + 16 + t" using assms(1) le_Suc_ex by blast
  have "rv - op < 2 ^ 64" using assms(2,4) by simp
  then have "ov_alignpad (stamp op rv b m) (rv - OVSIZE) = rv - op"
    by (simp add: stamp_def ov_alignpad_def)
  moreover have "ov_magic (stamp op rv b m) (rv - OVSIZE) = MAGIC"
    "ov_index (stamp op rv b m) (rv - OVSIZE) = b"
    using assms(3) t
    by (simp_all add: stamp_def ov_magic_def ov_index_def wr64_def wr8_def OVSIZE_def MAGIC_def)
  ultimately show "live_ok (stamp op rv b m) op b rv"
    using assms(1,2) by (simp add: live_ok_def OVSIZE_def)
  show "agree_off (Reg op (bsize b)) m (stamp op rv b m)"
    unfolding stamp_def using assms(1,2)
    by (intro agree_off_trans [OF agree_off_trans [OF agree_off_wr8 agree_off_wr8] agree_off_wr64])
      (auto simp: OVSIZE_def)
qed

text \<open>The allocation from a bucket that has a free block.\<close>

lemma take_block:
  assumes inv: "heap_inv pb h B" and ne: "nextf h b \<noteq> 0" and k: "4 \<le> k"
    and fit: "nbytes + 2 ^ k \<le> bsize b"
    and rv: "rv = mask_align ((nextf h b + OVSIZE + 2 ^ k - 1) mod 2 ^ 64) (2 ^ k)"
  defines "op \<equiv> nextf h b"
  defines "h' \<equiv> h\<lparr>nextf := (nextf h)(b := ov_next (mem h) op), mem := stamp op rv b (mem h)\<rparr>"
  shows "heap_inv pb h' (B(op \<mapsto> (b, Some rv)))" and "B op = Some (b, None)"
    and "rv + nbytes \<le> op + bsize b" and "op + 16 \<le> rv" and "2 ^ k dvd rv"
    and "agree_off (Reg op (bsize b)) (mem h) (mem h')"
proof -
  have "B op = Some (b, None)"
    unfolding op_def by (rule free_head [OF inv ne])
  show "B op = Some (b, None)" by fact
  with inv have bk: "blk_ok pb (maps h) op b" by (auto simp: heap_inv_def)
  then have top: "op + bsize b \<le> 2 ^ 63" and b: "b \<le> 26" by (auto simp: blk_ok_def)
  have "(2::nat) ^ 4 dvd 2 ^ (min b pb + MINSHIFT)" by (intro le_imp_power_dvd) (simp add: MINSHIFT_def)
  with bk have op16: "16 dvd op" using dvd_trans by (fastforce simp: blk_ok_def)
  have "op + OVSIZE + 2 ^ k - 1 < 2 ^ 64"
    using top fit b power_increasing [of "b + MINSHIFT" 31 "2::nat"]
    by (simp add: bsize_def MINSHIFT_def OVSIZE_def)
  with rv have "rv = mask_align (op + 16 + 2 ^ k - 1) (2 ^ k)" by (simp add: op_def OVSIZE_def)
  note up = align_up [OF op16 k this]
  show "op + 16 \<le> rv" "2 ^ k dvd rv" by fact+
  show "rv + nbytes \<le> op + bsize b" using up(2) fit by linarith
  then have "rv \<le> op + bsize b" by linarith
  note st = stamp_live [OF up(1) this b top, of "mem h"]
  from st(2) show "agree_off (Reg op (bsize b)) (mem h) (mem h')" by (simp add: h'_def)
  show "heap_inv pb h' (B(op \<mapsto> (b, Some rv)))"
    using heap_inv_pop(2) [OF inv ne] st unfolding h'_def op_def by simp
qed

text \<open>
  \<open>usable B rv n\<close>: \<open>rv\<close> was handed out, is not freed, and \<open>n\<close> bytes from it lie in its
  block.  \<open>user_kept\<close>: every pointer in use stays usable and its bytes keep their values.
\<close>

definition usable :: "blocks \<Rightarrow> nat \<Rightarrow> nat \<Rightarrow> bool" where
  "usable B rv n \<longleftrightarrow> (\<exists>a b. B a = Some (b, Some rv) \<and> rv + n \<le> a + bsize b)"

definition user_kept :: "heap \<Rightarrow> blocks \<Rightarrow> heap \<Rightarrow> blocks \<Rightarrow> bool" where
  "user_kept h B h' B' \<longleftrightarrow>
     (\<forall>rv n. usable B rv n \<longrightarrow> usable B' rv n \<and> (\<forall>x \<in> Reg rv n. mem h' x = mem h x))"

lemma usable_reg:
  assumes "heap_inv pb h B" and "B a = Some (b, Some rv)" and "rv + n \<le> a + bsize b"
  shows "Reg rv n \<subseteq> Reg a (bsize b)" and "a < rv"
proof -
  have "live_ok (mem h) a b rv" using assms(1,2) by (auto simp: heap_inv_def)
  then have "a + 16 \<le> rv" by (simp add: live_ok_def OVSIZE_def)
  with assms(3) show "Reg rv n \<subseteq> Reg a (bsize b)" "a < rv" by (auto intro: Reg_subset)
qed

text \<open>A pointer in use belongs to one block.\<close>

lemma live_unique:
  assumes inv: "heap_inv pb h B" and B: "B a = Some (b, Some rv)" and B': "B a' = Some (b', Some rv)"
  shows "a = a'"
proof -
  from inv B B' have "live_ok (mem h) a b rv" "live_ok (mem h) a' b' rv" by (auto simp: heap_inv_def)
  then have "a + 16 \<le> rv" "a' + 16 \<le> rv" "rv - a = rv - a'" by (auto simp: live_ok_def OVSIZE_def)
  then show ?thesis by linarith
qed

lemma blocks_keptD:
  assumes "blocks_kept h B h' B'" and "B a = Some (b, st)"
  shows "B' a = Some (b, st)" and "\<forall>x \<in> Reg a (bsize b). mem h' x = mem h x"
  using assms unfolding blocks_kept_def by blast+

lemma blocks_kept_user:
  assumes inv: "heap_inv pb h B" and kept: "blocks_kept h B h' B'"
  shows "user_kept h B h' B'"
  unfolding user_kept_def
proof (intro allI impI)
  fix rv n assume "usable B rv n"
  then obtain a b where a: "B a = Some (b, Some rv)" "rv + n \<le> a + bsize b" by (auto simp: usable_def)
  note k = blocks_keptD [OF kept a(1)]
  have "\<forall>x \<in> Reg rv n. mem h' x = mem h x" using usable_reg(1) [OF inv a] k(2) by (meson subsetD)
  moreover have "usable B' rv n" unfolding usable_def using k(1) a(2) by (intro exI conjI)
  ultimately show "usable B' rv n \<and> (\<forall>x \<in> Reg rv n. mem h' x = mem h x)" by (rule conjI [rotated])
qed

text \<open>What the caller of a successful allocation relies on.\<close>

definition alloc_post :: "nat \<Rightarrow> nat \<Rightarrow> nat \<Rightarrow> heap \<Rightarrow> blocks \<Rightarrow> nat \<Rightarrow> heap \<Rightarrow> blocks \<Rightarrow> bool" where
  "alloc_post pb al nbytes h B rv h' B' \<longleftrightarrow>
     heap_inv pb h' B' \<and> user_kept h B h' B' \<and>
     (rv \<noteq> 0 \<longrightarrow> usable B' rv nbytes \<and> al dvd rv \<and>
        (\<forall>rv' n. usable B rv' n \<longrightarrow> rv' \<noteq> rv \<and> Reg rv' n \<inter> Reg rv nbytes = {}))"

lemma take_block_post:
  assumes inv: "heap_inv pb h1 B1" and kept: "blocks_kept h B h1 B1" and inv0: "heap_inv pb h B"
    and ne: "nextf h1 b \<noteq> 0" and k: "4 \<le> k" and fit: "nbytes + 2 ^ k \<le> bsize b"
    and rv: "rv = mask_align ((nextf h1 b + OVSIZE + 2 ^ k - 1) mod 2 ^ 64) (2 ^ k)"
  defines "op \<equiv> nextf h1 b"
  defines "h' \<equiv> h1\<lparr>nextf := (nextf h1)(b := ov_next (mem h1) op), mem := stamp op rv b (mem h1)\<rparr>"
  shows "alloc_post pb (2 ^ k) nbytes h B rv h' (B1(op \<mapsto> (b, Some rv)))"
proof -
  let ?B = "B1(op \<mapsto> (b, Some rv))"
  note tb = take_block [OF inv ne k fit rv, folded op_def]
  have agr: "agree_off (Reg op (bsize b)) (mem h1) (mem h')" and inv': "heap_inv pb h' ?B"
    using tb(1,6) by (simp_all add: h'_def)
  have old: "usable ?B rv' n \<and> (\<forall>x \<in> Reg rv' n. mem h' x = mem h x) \<and> rv' \<noteq> rv \<and>
      Reg rv' n \<inter> Reg rv nbytes = {}" if u: "usable B rv' n" for rv' n
  proof -
    from u obtain a c where a: "B a = Some (c, Some rv')" "rv' + n \<le> a + bsize c"
      by (auto simp: usable_def)
    note a1 = blocks_keptD(1) [OF kept a(1)] and mem = blocks_keptD(2) [OF kept a(1)]
    from a1 tb(2) have ne': "a \<noteq> op" by auto
    from inv have dj: "Reg a (bsize c) \<inter> Reg op (bsize b) = {}"
      using blk_disjointD [OF _ a1 tb(2) ne'] by (auto simp: heap_inv_def)
    have sub: "Reg rv' n \<subseteq> Reg a (bsize c)" "Reg rv nbytes \<subseteq> Reg op (bsize b)"
      using usable_reg(1) [OF inv0 a] tb(3,4) by (auto intro: Reg_subset)
    have "\<forall>x \<in> Reg rv' n. mem h' x = mem h x"
    proof
      fix x assume "x \<in> Reg rv' n"
      with sub(1) have x: "x \<in> Reg a (bsize c)" by blast
      with dj have "x \<notin> Reg op (bsize b)" by blast
      with agr have "mem h' x = mem h1 x" by (rule agree_off_rd8)
      also have "\<dots> = mem h x" using mem x by (rule bspec)
      finally show "mem h' x = mem h x" .
    qed
    moreover have "rv' \<noteq> rv"
    proof
      assume "rv' = rv"
      with a1 ne' have "?B a = Some (c, Some rv)" "?B op = Some (b, Some rv)" by simp_all
      from live_unique [OF inv' this] ne' show False by contradiction
    qed
    moreover have "usable ?B rv' n" unfolding usable_def using a1 a(2) ne' by auto
    ultimately show ?thesis using sub dj by blast
  qed
  have "usable ?B rv nbytes" using tb(3) by (auto simp: usable_def)
  with inv' tb(5) show ?thesis
    unfolding alloc_post_def user_kept_def by (intro conjI impI allI) (use old in simp_all)
qed

lemma alloc_post_null:
  assumes "heap_inv pb h B" "heap_inv pb h' B'" "blocks_kept h B h' B'"
  shows "alloc_post pb al nbytes h B 0 h' B'"
  using assms(2) blocks_kept_user [OF assms(1,3)] by (simp add: alloc_post_def)

lemma heap_inv_mem_cong:
  "heap_inv pb h B \<Longrightarrow> mem h' = mem h \<Longrightarrow> nextf h' = nextf h \<Longrightarrow> maps h' = maps h \<Longrightarrow>
   pagesz h' = 2 ^ (pb + MINSHIFT) \<Longrightarrow> pagebucket h' = pb \<Longrightarrow> heap_inv pb h' B"
  by (auto simp: heap_inv_def free_ok_def)

lemma aligned_alloc_unfold:
  assumes init: "malloc_init PS h = Some h0" and k: "max align 16 = 2 ^ k"
    and nowrap: "nbytes + max align 16 < 2 ^ 64" and al: "align AND (align - 1) = 0"
    and pg: "pagesz h0 = 2 ^ (pb + MINSHIFT)" "pagebucket h0 = pb" and pb: "pb \<le> 26"
  defines "b0 \<equiv> (if nbytes + 2 ^ k \<le> 2 ^ (pb + MINSHIFT) then 0 else pb)"
  shows "aligned_alloc PS mm align nbytes h =
    (case bucket_loop (nbytes + 2 ^ k) (2 ^ (b0 + MINSHIFT)) b0 of None \<Rightarrow> Some (0, h0)
     | Some b \<Rightarrow>
        let h1 = (if nextf h0 b = 0 then morecore mm b h0 else h0); op = nextf h1 b in
        if op = 0 then Some (0, h1)
        else let rv = mask_align ((op + OVSIZE + 2 ^ k - 1) mod 2 ^ 64) (2 ^ k) in
          Some (rv, h1\<lparr>nextf := (nextf h1)(b := ov_next (mem h1) op), mem := stamp op rv b (mem h1)\<rparr>))"
proof -
  have al': "(if align < MINALIGN then MINALIGN else align) = 2 ^ k"
    using k by (auto simp: MINALIGN_def max_def split: if_splits)
  have k16: "16 \<le> (2::nat) ^ k" using k by (metis max.cobounded2)
  then have "(15 + 2 ^ k) div (2::nat) ^ k = 1" by (simp add: div_if)
  then have "mask_align (OVSIZE + (2 ^ k - 1)) (2 ^ k) = 2 ^ k" by (simp add: mask_align_eq OVSIZE_def)
  then have ab: "(nbytes + mask_align (OVSIZE + (2 ^ k - 1)) (2 ^ k)) mod 2 ^ 64 = nbytes + 2 ^ k"
    using nowrap k by simp
  have "(2::nat) ^ (pb + MINSHIFT) < 2 ^ 32"
    using pb by (intro power_strict_increasing) (auto simp: MINSHIFT_def)
  then have amt: "(if nbytes + 2 ^ k \<le> pagesz h0 then (2 ^ MINSHIFT, 0)
      else (pagesz h0 mod 2 ^ 32, pagebucket h0)) = (2 ^ (b0 + MINSHIFT), b0)"
    by (simp only: pg b0_def mod_less split: if_splits) simp
  show ?thesis
    unfolding aligned_alloc_def init option.case al' Let_def ab amt prod.case stamp_def
    using al by (simp split del: if_split split: option.split cong: if_cong)
qed

lemma aligned_alloc_post:
  assumes inv: "heap_inv pb h B" and pb: "pb \<le> 26" and mm: "mmap_ok (2 ^ (pb + MINSHIFT)) mm"
    and k: "max align 16 = 2 ^ k" and nowrap: "nbytes + max align 16 < 2 ^ 64"
    and run: "aligned_alloc (2 ^ (pb + MINSHIFT)) mm align nbytes h = Some (rv, h')"
  shows "\<exists>B'. alloc_post pb (2 ^ k) nbytes h B rv h' B'"
proof -
  define h0 where "h0 = (if pagesz h = 0 then h\<lparr>pagesz := 2 ^ (pb + MINSHIFT), pagebucket := pb\<rparr> else h)"
  have init: "malloc_init (2 ^ (pb + MINSHIFT)) h = Some h0"
    using malloc_init_eq [OF pb, of h] by (simp add: h0_def MINSHIFT_def)
  have pg: "pagesz h0 = 2 ^ (pb + MINSHIFT)" "pagebucket h0 = pb"
    using inv by (auto simp: h0_def heap_inv_def)
  have inv0: "heap_inv pb h0 B" using inv pg by (rule_tac heap_inv_mem_cong [of pb h]) (auto simp: h0_def)
  have kept0: "blocks_kept h B h0 B" by (simp add: h0_def)
  show ?thesis
  proof (cases "align AND (align - 1) = 0")
    case False
    with run init have "rv = 0" "h' = h0" by (auto simp: aligned_alloc_def)
    with alloc_post_null [OF inv inv0 kept0] show ?thesis by auto
  next
    case True
    define b0 where "b0 = (if nbytes + 2 ^ k \<le> 2 ^ (pb + MINSHIFT) then 0 else pb)"
    note un = aligned_alloc_unfold [OF init k nowrap True pg pb, folded b0_def, of mm]
    show ?thesis
    proof (cases "bucket_loop (nbytes + 2 ^ k) (2 ^ (b0 + MINSHIFT)) b0")
      case None
      with un run have "rv = 0" "h' = h0" by simp_all
      with alloc_post_null [OF inv inv0 kept0] show ?thesis by auto
    next
      case (Some b)
      have b: "b \<le> 26" "nbytes + 2 ^ k \<le> bsize b"
        using alloc_bucket [OF Some] pb by (auto simp: b0_def)
      define h1 where "h1 = (if nextf h0 b = 0 then morecore mm b h0 else h0)"
      obtain B1 where B1: "heap_inv pb h1 B1" "blocks_kept h0 B h1 B1"
        using morecore_inv [OF inv0 pg(1) _ b(1) mm] inv0 by (cases "nextf h0 b = 0") (auto simp: h1_def)
      have m0: "mem h0 = mem h" by (simp add: h0_def)
      from B1(2) have kept: "blocks_kept h B h1 B1" unfolding blocks_kept_def m0 .
      note run' = run [unfolded un Some option.case, folded h1_def, unfolded Let_def]
      show ?thesis
      proof (cases "nextf h1 b = 0")
        case True
        with run' have "rv = 0" "h' = h1" by simp_all
        with alloc_post_null [OF inv B1(1) kept] show ?thesis by auto
      next
        case False
        have "(2::nat) ^ 4 \<le> 2 ^ k" unfolding k [symmetric] by simp
        then have "4 \<le> k" by (rule power_le_imp_le_exp [rotated]) simp
        from take_block_post [OF B1(1) kept inv False this b(2) refl] run' False
        show ?thesis by auto
      qed
    qed
  qed
qed

section \<open>Using, releasing and resizing a block\<close>

text \<open>Writing to the bytes of a pointer in use keeps the allocator's invariant.\<close>

lemma user_write_inv:
  assumes inv: "heap_inv pb h B" and u: "usable B rv n" and agr: "agree_off (Reg rv n) (mem h) m'"
  shows "heap_inv pb (h\<lparr>mem := m'\<rparr>) B"
proof -
  from u obtain a b where B: "B a = Some (b, Some rv)" and n: "rv + n \<le> a + bsize b"
    by (auto simp: usable_def)
  from inv have dis: "blk_disjoint B" and fr: "free_ok h B" by (simp_all add: heap_inv_def)
  have agr': "agree_off (Reg a (bsize b)) (mem h) m'"
    using agr usable_reg(1) [OF inv B n] by (rule agree_off_mono)
  have "free_ok (h\<lparr>mem := m'\<rparr>) B"
    unfolding free_ok_def
  proof
    fix c
    from fr obtain xs where xs: "fchain (mem h) (nextf h c) xs" "distinct xs"
      "set xs = {a. B a = Some (c, None)}" unfolding free_ok_def by blast
    have "rd64 m' x = rd64 (mem h) x" if "x \<in> set xs" for x
    proof -
      from that xs(3) have Bx: "B x = Some (c, None)" by simp
      with B have "x \<noteq> a" by auto
      from other_block_rd64 [OF dis B Bx this agr'] show ?thesis .
    qed
    then have "fchain m' (nextf h c) xs = fchain (mem h) (nextf h c) xs" by (rule fchain_cong)
    with xs show "\<exists>xs. fchain (mem (h\<lparr>mem := m'\<rparr>)) (nextf (h\<lparr>mem := m'\<rparr>) c) xs \<and> distinct xs \<and>
        set xs = {a. B a = Some (c, None)}" by auto
  qed
  moreover have "live_ok m' x c r" if Bx: "B x = Some (c, Some r)" for x c r
  proof -
    from inv Bx have lv: "live_ok (mem h) x c r" by (simp add: heap_inv_def)
    show ?thesis
    proof (cases "x = a")
      case True
      with B Bx have r: "r = rv" by simp
      from lv have "OVSIZE \<le> r" by (simp add: live_ok_def)
      with r have "Reg (r - OVSIZE) 8 \<inter> Reg rv n = {}" "r - OVSIZE + 8 \<notin> Reg rv n" "r - OVSIZE + 9 \<notin> Reg rv n"
        by (auto simp: OVSIZE_def)
      then have eqs: "rd64 m' (r - OVSIZE) = rd64 (mem h) (r - OVSIZE)"
        "m' (r - OVSIZE + 8) = mem h (r - OVSIZE + 8)" "m' (r - OVSIZE + 9) = mem h (r - OVSIZE + 9)"
        by (blast intro: agree_off_rd64 [OF agr] agree_off_rd8 [OF agr])+
      from lv show ?thesis
        unfolding live_ok_def ov_alignpad_def ov_magic_def ov_index_def eqs .
    next
      case False
      with other_block_live [OF dis B Bx False agr'] lv show ?thesis by simp
    qed
  qed
  ultimately show ?thesis using inv by (simp add: heap_inv_def)
qed

text \<open>\<open>free\<close> of a pointer in use puts its block at the head of its free list.\<close>

lemma nextf_bound:
  assumes inv: "heap_inv pb h B"
  shows "nextf h b < 2 ^ 64"
proof (cases "nextf h b = 0")
  case False
  from free_head [OF inv this] inv have "blk_ok pb (maps h) (nextf h b) b" by (simp add: heap_inv_def)
  then show ?thesis by (simp add: blk_ok_def)
qed simp

lemma sub64_sub:
  assumes "d \<le> c" and "c < 2 ^ 64"
  shows "sub64 c d = c - d"
proof -
  have "c + 2 ^ 64 - d = (c - d) + 2 ^ 64" using assms(1) by simp
  then have "sub64 c d = (c - d) mod 2 ^ 64" unfolding sub64_def by (simp only: mod_add_self2)
  with assms(2) show ?thesis by simp
qed

lemma free_eq:
  assumes inv: "heap_inv pb h B" and B: "B a = Some (b, Some cp)"
  shows "free cp h = Some (h\<lparr>mem := wr64 a (nextf h b) (mem h), nextf := (nextf h)(b := a)\<rparr>)"
proof -
  from inv B have bk: "blk_ok pb (maps h) a b" and lv: "live_ok (mem h) a b cp"
    by (simp_all add: heap_inv_def)
  then have cp: "16 \<le> cp" "cp < 2 ^ 64" "a + 16 \<le> cp" "b < NBUCKETS"
    by (auto simp: blk_ok_def live_ok_def OVSIZE_def NBUCKETS_def)
  from lv cp show ?thesis
    by (simp add: free_def Let_def live_ok_def sub64_sub OVSIZE_def)
qed

lemma free_post:
  assumes inv: "heap_inv pb h B" and B: "B a = Some (b, Some cp)" and run: "free cp h = Some h'"
  shows "heap_inv pb h' (B(a \<mapsto> (b, None)))"
    and "usable B rv n \<Longrightarrow> rv \<noteq> cp \<Longrightarrow>
           usable (B(a \<mapsto> (b, None))) rv n \<and> (\<forall>x \<in> Reg rv n. mem h' x = mem h x)"
    and "nextf h' b = a"
proof -
  have h': "h' = h\<lparr>mem := wr64 a (nextf h b) (mem h), nextf := (nextf h)(b := a)\<rparr>"
    using free_eq [OF inv B] run by simp
  show "heap_inv pb h' (B(a \<mapsto> (b, None)))"
    unfolding h' by (rule heap_inv_push [OF inv B nextf_bound [OF inv]])
  show "nextf h' b = a" by (simp add: h')
  have agr: "agree_off (Reg a (bsize b)) (mem h) (mem h')"
    unfolding h' using bsize_ge [of b] by (simp add: agree_off_wr64 Reg_subset)
  assume u: "usable B rv n" "rv \<noteq> cp"
  then obtain x c where x: "B x = Some (c, Some rv)" "rv + n \<le> x + bsize c" by (auto simp: usable_def)
  with B u(2) have ne: "x \<noteq> a" by auto
  have "blk_disjoint B" using inv by (simp add: heap_inv_def)
  from blk_disjointD [OF this x(1) B ne] usable_reg(1) [OF inv x]
  have "Reg rv n \<inter> Reg a (bsize b) = {}" by blast
  then have "\<forall>x \<in> Reg rv n. mem h' x = mem h x" using agr unfolding agree_off_def by blast
  moreover have "usable (B(a \<mapsto> (b, None))) rv n" unfolding usable_def using x ne by auto
  ultimately show "usable (B(a \<mapsto> (b, None))) rv n \<and> (\<forall>x \<in> Reg rv n. mem h' x = mem h x)" by simp
qed

lemma Some_intros:
  "Some x \<noteq> None"
  "(\<And>x. f x \<noteq> None) \<Longrightarrow> Let v f \<noteq> None"
  "(\<And>x y. g x y \<noteq> None) \<Longrightarrow> (case p of (x, y) \<Rightarrow> g x y) \<noteq> None"
  "r \<noteq> None \<Longrightarrow> (\<And>x. f x \<noteq> None) \<Longrightarrow> (case q of None \<Rightarrow> r | Some x \<Rightarrow> f x) \<noteq> None"
  "r \<noteq> None \<Longrightarrow> r' \<noteq> None \<Longrightarrow> (if c then r else r') \<noteq> None"
  by (auto split: option.split prod.split)

lemma aligned_alloc_total:
  assumes "pb \<le> 26"
  shows "\<exists>rv h'. aligned_alloc (2 ^ (pb + MINSHIFT)) mm align nbytes h = Some (rv, h')"
proof -
  have init: "malloc_init (2 ^ (pb + MINSHIFT)) h \<noteq> None"
    using malloc_init_eq [OF assms, of h] by (simp add: MINSHIFT_def)
  then obtain h0 where "malloc_init (2 ^ (pb + MINSHIFT)) h = Some h0" by blast
  then have "aligned_alloc (2 ^ (pb + MINSHIFT)) mm align nbytes h \<noteq> None"
    unfolding aligned_alloc_def by (simp only: option.case) (intro Some_intros)
  then show ?thesis by auto
qed

lemma malloc_post:
  assumes "heap_inv pb h B" and "pb \<le> 26" and "mmap_ok (2 ^ (pb + MINSHIFT)) mm"
    and "nbytes + 16 < 2 ^ 64"
  obtains rv h' B' where "malloc (2 ^ (pb + MINSHIFT)) mm nbytes h = Some (rv, h')"
    "alloc_post pb 16 nbytes h B rv h' B'"
proof -
  obtain rv h' where run: "aligned_alloc (2 ^ (pb + MINSHIFT)) mm 0 nbytes h = Some (rv, h')"
    using aligned_alloc_total [OF assms(2)] by blast
  with aligned_alloc_post [of pb h B mm 0 4 nbytes rv h'] assms that show ?thesis
    by (auto simp: malloc_def)
qed

lemma free_total: "heap_inv pb h B \<Longrightarrow> usable B cp n \<Longrightarrow> \<exists>h'. free cp h = Some h'"
  using free_eq by (fastforce simp: usable_def)

lemma usable_mono: "usable B rv n \<Longrightarrow> m \<le> n \<Longrightarrow> usable B rv m"
  unfolding usable_def by (meson add_left_mono le_trans)

text \<open>The branch of \<open>realloc\<close> that moves the block: copy, then free.\<close>

lemma move_block:
  assumes inv: "heap_inv pb h1 B1" and np: "usable B1 np nbytes" and cp: "usable B1 cp cap"
    and ne: "np \<noteq> cp" and lt: "cap \<le> nbytes" and dj: "Reg cp cap \<inter> Reg np nbytes = {}"
  shows "\<exists>h' B'. free cp (h1\<lparr>mem := mem_copy np cp cap (mem h1)\<rparr>) = Some h' \<and> heap_inv pb h' B' \<and>
    usable B' np nbytes \<and> (\<forall>i<cap. mem h' (np + i) = mem h1 (cp + i)) \<and>
    (\<forall>rv n. usable B1 rv n \<longrightarrow> rv \<noteq> cp \<longrightarrow> Reg rv n \<inter> Reg np nbytes = {} \<longrightarrow>
       usable B' rv n \<and> (\<forall>x \<in> Reg rv n. mem h' x = mem h1 x))"
proof -
  let ?h2 = "h1\<lparr>mem := mem_copy np cp cap (mem h1)\<rparr>"
  have agr: "agree_off (Reg np nbytes) (mem h1) (mem_copy np cp cap (mem h1))"
    using lt by (auto simp: agree_off_def mem_copy_def)
  have inv2: "heap_inv pb ?h2 B1" by (rule user_write_inv [OF inv np agr])
  from cp obtain a b where a: "B1 a = Some (b, Some cp)" by (auto simp: usable_def)
  obtain h' where run: "free cp ?h2 = Some h'" using free_total [OF inv2 cp] by blast
  let ?B = "B1(a \<mapsto> (b, None))"
  note fp = free_post [OF inv2 a run]
  have cont: "mem h' (np + i) = mem h1 (cp + i)" if "i < cap" for i
  proof -
    have "np + i \<in> Reg np nbytes" using that lt by simp
    then have "mem h' (np + i) = mem ?h2 (np + i)" using fp(2) [OF np ne] by blast
    also have "\<dots> = mem h1 (cp + i)" using that by (simp add: mem_copy_def)
    finally show ?thesis .
  qed
  have others: "usable ?B rv n \<and> (\<forall>x \<in> Reg rv n. mem h' x = mem h1 x)"
    if u: "usable B1 rv n" "rv \<noteq> cp" and d: "Reg rv n \<inter> Reg np nbytes = {}" for rv n
  proof -
    have "\<forall>x \<in> Reg rv n. mem ?h2 x = mem h1 x" using agree_off_disjoint [OF agr d] by simp
    with fp(2) [OF u] show ?thesis by simp
  qed
  have "usable ?B np nbytes" using fp(2) [OF np ne] by blast
  with run fp(1) cont others show ?thesis by blast
qed

lemma blocksize_bsize: "b < 26 \<Longrightarrow> blocksize b = bsize b"
  by (simp add: blocksize_def bsize_def MINSHIFT_def)

lemma realloc_unfold:
  assumes inv: "heap_inv pb h B" and B: "B a = Some (b, Some cp)" and b: "b < 26" and n: "0 < nbytes"
  shows "realloc PS mm cp nbytes h =
    (if cp + nbytes \<le> a + bsize b then Some (cp, h)
     else case malloc PS mm nbytes h of None \<Rightarrow> None
       | Some (np, h) \<Rightarrow> if np = 0 then Some (0, h)
           else map_option (\<lambda>h. (np, h))
             (free cp (h\<lparr>mem := mem_copy np cp (a + bsize b - cp) (mem h)\<rparr>)))"
proof -
  from inv B have bk: "blk_ok pb (maps h) a b" and lv: "live_ok (mem h) a b cp"
    by (simp_all add: heap_inv_def)
  then have cp: "16 \<le> cp" "cp < 2 ^ 64" "a + 16 \<le> cp" "cp \<le> a + bsize b" "bsize b < 2 ^ 64"
    by (auto simp: blk_ok_def live_ok_def OVSIZE_def)
  have s1: "sub64 cp OVSIZE = cp - OVSIZE" using cp(1,2) by (simp add: sub64_sub OVSIZE_def)
  have "sub64 (bsize b) (cp - a) = bsize b - (cp - a)" using cp by (intro sub64_sub) auto
  also have "\<dots> = a + bsize b - cp" using cp(3,4) by linarith
  finally have s2: "sub64 (blocksize b) (cp - a) = a + bsize b - cp" using blocksize_bsize [OF b] by simp
  have cap: "nbytes \<le> a + bsize b - cp \<longleftrightarrow> cp + nbytes \<le> a + bsize b" using n cp(4) by linarith
  have ov: "ov_index (mem h) (cp - OVSIZE) = b" "ov_alignpad (mem h) (cp - OVSIZE) = cp - a"
    using lv by (simp_all add: live_ok_def)
  from cp(1) n have "cp \<noteq> 0" "nbytes \<noteq> 0" by simp_all
  then show ?thesis
    unfolding realloc_def Let_def s1 ov s2 cap by (simp only: if_False)
qed

lemma realloc_moved:
  assumes inv: "heap_inv pb h B" and ucp: "usable B cp cap" and post: "alloc_post pb 16 nbytes h B np h1 B1"
    and np: "np \<noteq> 0" and le: "cap \<le> nbytes"
  shows "\<exists>h' B'. free cp (h1\<lparr>mem := mem_copy np cp cap (mem h1)\<rparr>) = Some h' \<and> heap_inv pb h' B' \<and>
    usable B' np nbytes \<and> (\<forall>i<cap. mem h' (np + i) = mem h (cp + i)) \<and>
    (\<forall>rv m. usable B rv m \<longrightarrow> rv \<noteq> cp \<longrightarrow> usable B' rv m \<and> (\<forall>x \<in> Reg rv m. mem h' x = mem h x))"
proof -
  from post have inv1: "heap_inv pb h1 B1" and uk: "user_kept h B h1 B1" by (simp_all add: alloc_post_def)
  from post np have unp: "usable B1 np nbytes"
    and dj: "\<And>rv m. usable B rv m \<Longrightarrow> rv \<noteq> np \<and> Reg rv m \<inter> Reg np nbytes = {}"
    by (simp_all add: alloc_post_def)
  have keep: "usable B1 rv m" "\<forall>x \<in> Reg rv m. mem h1 x = mem h x" if "usable B rv m" for rv m
    using uk that unfolding user_kept_def by blast+
  have "np \<noteq> cp" "Reg cp cap \<inter> Reg np nbytes = {}" using dj [OF ucp] by auto
  from move_block [OF inv1 unp keep(1) [OF ucp] this(1) le this(2)]
  obtain h' B' where mv: "free cp (h1\<lparr>mem := mem_copy np cp cap (mem h1)\<rparr>) = Some h'" "heap_inv pb h' B'"
    "usable B' np nbytes" "\<forall>i<cap. mem h' (np + i) = mem h1 (cp + i)"
    "\<forall>rv n. usable B1 rv n \<longrightarrow> rv \<noteq> cp \<longrightarrow> Reg rv n \<inter> Reg np nbytes = {} \<longrightarrow>
       usable B' rv n \<and> (\<forall>x \<in> Reg rv n. mem h' x = mem h1 x)" by blast
  have "mem h' (np + i) = mem h (cp + i)" if "i < cap" for i
  proof -
    from that have "cp + i \<in> Reg cp cap" by simp
    with that mv(4) keep(2) [OF ucp] show ?thesis by simp
  qed
  moreover have "usable B' rv m \<and> (\<forall>x \<in> Reg rv m. mem h' x = mem h x)" if "usable B rv m" "rv \<noteq> cp" for rv m
    using mv(5) keep(1) [OF that(1)] that(2) dj [OF that(1)] keep(2) [OF that(1)] by simp
  ultimately show ?thesis using mv(1,2,3) by blast
qed

lemma realloc_post:
  assumes inv: "heap_inv pb h B" and pb: "pb \<le> 26" and mm: "mmap_ok (2 ^ (pb + MINSHIFT)) mm"
    and B: "B a = Some (b, Some cp)" and b: "b < 26" and n: "0 < nbytes" "nbytes + 16 < 2 ^ 64"
  shows "\<exists>np h' B'. realloc (2 ^ (pb + MINSHIFT)) mm cp nbytes h = Some (np, h') \<and> heap_inv pb h' B' \<and>
    (np = 0 \<longrightarrow> user_kept h B h' B') \<and>
    (np \<noteq> 0 \<longrightarrow> usable B' np nbytes \<and>
       (\<forall>i<nbytes. cp + i < a + bsize b \<longrightarrow> mem h' (np + i) = mem h (cp + i)) \<and>
       (\<forall>rv m. usable B rv m \<longrightarrow> rv \<noteq> cp \<longrightarrow> usable B' rv m \<and> (\<forall>x \<in> Reg rv m. mem h' x = mem h x)))"
proof (cases "cp + nbytes \<le> a + bsize b")
  case True
  have "live_ok (mem h) a b cp" using inv B by (simp add: heap_inv_def)
  then have "cp \<noteq> 0" by (simp add: live_ok_def OVSIZE_def)
  moreover have "usable B cp nbytes" unfolding usable_def using B True by blast
  moreover have "realloc (2 ^ (pb + MINSHIFT)) mm cp nbytes h = Some (cp, h)"
    by (simp add: realloc_unfold [OF inv B b n(1)] True)
  ultimately show ?thesis using inv by blast
next
  case False
  let ?cap = "a + bsize b - cp"
  have "live_ok (mem h) a b cp" using inv B by (simp add: heap_inv_def)
  then have cple: "cp \<le> a + bsize b" by (simp add: live_ok_def)
  then have ucp: "usable B cp ?cap" unfolding usable_def using B by auto
  obtain np h1 B1 where ml: "malloc (2 ^ (pb + MINSHIFT)) mm nbytes h = Some (np, h1)"
    and post: "alloc_post pb 16 nbytes h B np h1 B1"
    using malloc_post [OF inv pb mm n(2)] by blast
  note un = realloc_unfold [OF inv B b n(1), of "2 ^ (pb + MINSHIFT)" mm]
  show ?thesis
  proof (cases "np = 0")
    case True
    then have "realloc (2 ^ (pb + MINSHIFT)) mm cp nbytes h = Some (0, h1)"
      using un ml False by simp
    with post True show ?thesis by (auto simp: alloc_post_def)
  next
    case np: False
    have "?cap \<le> nbytes" using False by linarith
    from realloc_moved [OF inv ucp post np this]
    obtain h' B' where mv: "free cp (h1\<lparr>mem := mem_copy np cp ?cap (mem h1)\<rparr>) = Some h'" "heap_inv pb h' B'"
      "usable B' np nbytes" "\<forall>i < ?cap. mem h' (np + i) = mem h (cp + i)"
      "\<forall>rv m. usable B rv m \<longrightarrow> rv \<noteq> cp \<longrightarrow> usable B' rv m \<and> (\<forall>x \<in> Reg rv m. mem h' x = mem h x)"
      by blast
    have "realloc (2 ^ (pb + MINSHIFT)) mm cp nbytes h = Some (np, h')"
      using un ml mv(1) False np by simp
    moreover have "\<forall>i<nbytes. cp + i < a + bsize b \<longrightarrow> mem h' (np + i) = mem h (cp + i)"
      using mv(4) by (simp add: less_diff_conv add.commute)
    ultimately show ?thesis using mv(2,3,5) np by blast
  qed
qed

lemma mem_zero_post:
  assumes "alloc_post pb al n h B rv h1 B1" and "rv \<noteq> 0"
  shows "alloc_post pb al n h B rv (h1\<lparr>mem := mem_zero rv n (mem h1)\<rparr>) B1"
proof -
  from assms have inv: "heap_inv pb h1 B1" and u: "usable B1 rv n" and uk: "user_kept h B h1 B1"
    and dj: "\<And>p m. usable B p m \<Longrightarrow> p \<noteq> rv \<and> Reg p m \<inter> Reg rv n = {}"
    by (simp_all add: alloc_post_def)
  have agr: "agree_off (Reg rv n) (mem h1) (mem_zero rv n (mem h1))"
    by (auto simp: agree_off_def mem_zero_def)
  have "\<forall>x \<in> Reg p m. mem_zero rv n (mem h1) x = mem h x" if "usable B p m" for p m
  proof -
    have "Reg p m \<inter> Reg rv n = {}" using dj [OF that] by blast
    from agree_off_disjoint [OF agr this] uk that show ?thesis by (simp add: user_kept_def)
  qed
  with uk have "user_kept h B (h1\<lparr>mem := mem_zero rv n (mem h1)\<rparr>) B1" by (simp add: user_kept_def)
  with user_write_inv [OF inv u agr] assms show ?thesis by (simp add: alloc_post_def)
qed

lemma calloc_post:
  assumes "heap_inv pb h B" and "pb \<le> 26" and "mmap_ok (2 ^ (pb + MINSHIFT)) mm"
    and n: "nmemb * sz + 16 < 2 ^ 64"
  shows "\<exists>rv h' B'. calloc (2 ^ (pb + MINSHIFT)) mm nmemb sz h = Some (rv, h') \<and>
    alloc_post pb 16 (nmemb * sz) h B rv h' B' \<and> (rv \<noteq> 0 \<longrightarrow> (\<forall>i < nmemb * sz. mem h' (rv + i) = 0))"
proof -
  let ?n = "nmemb * sz"
  have nn: "?n mod 2 ^ 64 = ?n" using n by simp
  obtain rv h1 where run: "aligned_alloc (2 ^ (pb + MINSHIFT)) mm 8 ?n h = Some (rv, h1)"
    using aligned_alloc_total [OF assms(2)] by blast
  then obtain B1 where post: "alloc_post pb 16 ?n h B rv h1 B1"
    using aligned_alloc_post [OF assms(1-3), of 8 4 ?n rv h1] n by auto
  let ?h2 = "if rv = 0 then h1 else h1\<lparr>mem := mem_zero rv ?n (mem h1)\<rparr>"
  have "calloc (2 ^ (pb + MINSHIFT)) mm nmemb sz h = Some (rv, ?h2)"
    unfolding calloc_def Let_def nn run by simp
  moreover have "alloc_post pb 16 ?n h B rv ?h2 B1" using post mem_zero_post [OF post] by (cases "rv = 0") simp_all
  moreover have "rv \<noteq> 0 \<longrightarrow> (\<forall>i < ?n. mem ?h2 (rv + i) = 0)" by (simp add: mem_zero_def)
  ultimately show ?thesis by blast
qed

text \<open>
  After \<open>free\<close> the next allocation of the same size class takes the freed block: no memory is
  requested from the host.
\<close>

lemma free_reuse:
  assumes inv: "heap_inv pb h B" and pb: "pb \<le> 26" and B: "B a = Some (b, Some cp)"
    and pg: "pagesz h = 2 ^ (pb + MINSHIFT)"
    and nb: "nbytes + 16 < 2 ^ 64"
    and bk: "bucket_loop (nbytes + 16) (2 ^ (b0 + MINSHIFT)) b0 = Some b"
    and b0: "b0 = (if nbytes + 16 \<le> 2 ^ (pb + MINSHIFT) then 0 else pb)"
    and run: "free cp h = Some h'"
  shows "\<exists>h''. malloc (2 ^ (pb + MINSHIFT)) mm nbytes h' = Some (a + 16, h'') \<and> maps h'' = maps h"
proof -
  note fp = free_post [OF inv B run]
  have h': "h' = h\<lparr>mem := wr64 a (nextf h b) (mem h), nextf := (nextf h)(b := a)\<rparr>"
    using free_eq [OF inv B] run by simp
  have pg': "pagesz h' = 2 ^ (pb + MINSHIFT)" "pagebucket h' = pb" "maps h' = maps h"
    using pg inv by (auto simp: h' heap_inv_def)
  then have init: "malloc_init (2 ^ (pb + MINSHIFT)) h' = Some h'"
    using malloc_init_eq [OF pb, of h'] by (simp add: MINSHIFT_def)
  have blk: "blk_ok pb (maps h) a b" using inv B by (simp add: heap_inv_def)
  then have a: "a \<noteq> 0" "a + 31 < 2 ^ 64" using bsize_ge [of b] by (auto simp: blk_ok_def)
  have "(2::nat) ^ 4 dvd 2 ^ (min b pb + MINSHIFT)" by (intro le_imp_power_dvd) (simp add: MINSHIFT_def)
  with blk have "16 dvd a" using dvd_trans by (fastforce simp: blk_ok_def)
  note up = align_up [OF this, of 4, OF _ refl]
  then have rv: "mask_align ((a + OVSIZE + 2 ^ 4 - 1) mod 2 ^ 64) (2 ^ 4) = a + 16"
    using a(2) by (simp add: OVSIZE_def)
  have pre: "max 0 16 = (2::nat) ^ 4" "nbytes + max 0 16 < 2 ^ 64" "(0::nat) AND (0 - 1) = 0"
    using nb by simp_all
  have bk': "bucket_loop (nbytes + 2 ^ 4) (2 ^ (b0 + MINSHIFT)) b0 = Some b" using bk by simp
  have b0': "b0 = (if nbytes + 2 ^ 4 \<le> 2 ^ (pb + MINSHIFT) then 0 else pb)" using b0 by simp
  note un = aligned_alloc_unfold [OF init pre pg'(1,2) pb, folded b0', of mm]
  show ?thesis
    unfolding malloc_def un bk' option.case using fp(3) a(1) rv pg'(3) by (simp add: Let_def)
qed

section \<open>The allocator as its clients see it\<close>

text \<open>A client that makes a sequence of allocations.\<close>

fun alloc_all :: "(nat \<Rightarrow> 's \<Rightarrow> (nat \<times> 's) option) \<Rightarrow> nat list \<Rightarrow> 's \<Rightarrow> (nat list \<times> 's) option" where
  "alloc_all alloc [] s = Some ([], s)"
| "alloc_all alloc (n # ns) s =
     (case alloc n s of None \<Rightarrow> None
      | Some (p, s) \<Rightarrow> (case alloc_all alloc ns s of None \<Rightarrow> None | Some (ps, s) \<Rightarrow> Some (p # ps, s)))"

definition apart :: "nat \<times> nat \<Rightarrow> nat \<times> nat \<Rightarrow> bool" where
  "apart x y \<longleftrightarrow> fst x \<noteq> 0 \<longrightarrow> fst y \<noteq> 0 \<longrightarrow> Reg (fst x) (snd x) \<inter> Reg (fst y) (snd y) = {}"

text \<open>
  The contract: \<open>live g p n\<close> says that \<open>n\<close> bytes at \<open>p\<close> belong to the client.  An
  allocation succeeds or returns NULL, keeps what is live and its contents, and hands out
  bytes no live pointer covers.
\<close>

definition live_kept ::
  "('g \<Rightarrow> nat \<Rightarrow> nat \<Rightarrow> bool) \<Rightarrow> ('s \<Rightarrow> nat \<Rightarrow> nat) \<Rightarrow> 's \<Rightarrow> 'g \<Rightarrow> 's \<Rightarrow> 'g \<Rightarrow> bool" where
  "live_kept live bytes s g s' g' \<longleftrightarrow>
     (\<forall>q m. live g q m \<longrightarrow> live g' q m \<and> (\<forall>x \<in> Reg q m. bytes s' x = bytes s x))"

definition granted :: "('g \<Rightarrow> nat \<Rightarrow> nat \<Rightarrow> bool) \<Rightarrow> 'g \<Rightarrow> 'g \<Rightarrow> nat \<times> nat \<Rightarrow> bool" where
  "granted live g g' y \<longleftrightarrow>
     (fst y \<noteq> 0 \<longrightarrow> live g' (fst y) (snd y) \<and>
        (\<forall>q m. live g q m \<longrightarrow> Reg q m \<inter> Reg (fst y) (snd y) = {}))"

lemma live_kept_refl: "live_kept live bytes s g s g"
  by (simp add: live_kept_def)

lemma live_kept_trans:
  "live_kept live bytes s g s1 g1 \<Longrightarrow> live_kept live bytes s1 g1 s2 g2 \<Longrightarrow> live_kept live bytes s g s2 g2"
  unfolding live_kept_def by (metis (no_types))

lemma granted_kept:
  "granted live g g1 y \<Longrightarrow> live_kept live bytes s g1 s' g' \<Longrightarrow> granted live g g' y"
  by (simp add: live_kept_def granted_def)

lemma granted_earlier:
  "live_kept live bytes s g s1 g1 \<Longrightarrow> granted live g1 g' y \<Longrightarrow> granted live g g' y"
  by (simp add: live_kept_def granted_def)

lemma granted_apart: "granted live g g1 x \<Longrightarrow> granted live g1 g' y \<Longrightarrow> apart x y"
  by (simp add: granted_def apart_def)

locale heap_allocator =
  fixes inv :: "'s \<Rightarrow> 'g \<Rightarrow> bool"
    and live :: "'g \<Rightarrow> nat \<Rightarrow> nat \<Rightarrow> bool"
    and bytes :: "'s \<Rightarrow> nat \<Rightarrow> nat"
    and alloc :: "nat \<Rightarrow> 's \<Rightarrow> (nat \<times> 's) option"
    and lim :: nat
  assumes alloc_ok: "inv s g \<Longrightarrow> n < lim \<Longrightarrow>
    \<exists>p s' g'. alloc n s = Some (p, s') \<and> inv s' g' \<and> live_kept live bytes s g s' g' \<and> granted live g g' (p, n)"
begin

lemma alloc_all_ok:
  "inv s g \<Longrightarrow> \<forall>n \<in> set ns. n < lim \<Longrightarrow>
   \<exists>ps s' g'. alloc_all alloc ns s = Some (ps, s') \<and> inv s' g' \<and> length ps = length ns \<and>
     live_kept live bytes s g s' g' \<and> (\<forall>y \<in> set (zip ps ns). granted live g g' y) \<and>
     sorted_wrt apart (zip ps ns)"
proof (induction ns arbitrary: s g)
  case Nil
  then show ?case by (auto intro: live_kept_refl)
next
  case (Cons n ns)
  then have lims: "n < lim" "\<forall>n \<in> set ns. n < lim" by simp_all
  from alloc_ok [OF Cons.prems(1) lims(1)] obtain p s1 g1 where
    A: "alloc n s = Some (p, s1)" "inv s1 g1" "live_kept live bytes s g s1 g1" "granted live g g1 (p, n)"
    by blast
  from Cons.IH [OF A(2) lims(2)] obtain ps s' g' where
    R: "alloc_all alloc ns s1 = Some (ps, s')" "inv s' g'" "length ps = length ns"
      "live_kept live bytes s1 g1 s' g'" "\<forall>y \<in> set (zip ps ns). granted live g1 g' y"
      "sorted_wrt apart (zip ps ns)" by blast
  have "\<forall>y \<in> set (zip ps ns). apart (p, n) y" using granted_apart [OF A(4)] R(5) by blast
  then have "sorted_wrt apart (zip (p # ps) (n # ns))" using R(6) by simp
  moreover have "\<forall>y \<in> set (zip (p # ps) (n # ns)). granted live g g' y"
    using granted_kept [OF A(4) R(4)] granted_earlier [OF A(3)] R(5) by simp
  moreover have "alloc_all alloc (n # ns) s = Some (p # ps, s')" using A(1) R(1) by simp
  ultimately show ?case using R(2,3) live_kept_trans [OF A(3) R(4)] by (metis length_Cons)
qed

end

text \<open>The model's state for this contract: the host's page size, its \<open>mmap\<close>, and the heap.\<close>

type_synonym heap_env = "nat \<times> host_mmap \<times> heap"

definition env_inv :: "heap_env \<Rightarrow> blocks \<Rightarrow> bool" where
  "env_inv s B \<longleftrightarrow>
     (case s of (pb, mm, h) \<Rightarrow> pb \<le> 26 \<and> mmap_ok (2 ^ (pb + MINSHIFT)) mm \<and> heap_inv pb h B)"

definition env_bytes :: "heap_env \<Rightarrow> mem" where
  "env_bytes s = mem (snd (snd s))"

definition env_malloc :: "nat \<Rightarrow> heap_env \<Rightarrow> (nat \<times> heap_env) option" where
  "env_malloc n s =
     (case s of (pb, mm, h) \<Rightarrow>
        map_option (\<lambda>(p, h). (p, (pb, mm, h))) (malloc (2 ^ (pb + MINSHIFT)) mm n h))"

interpretation heap_malloc: heap_allocator env_inv usable env_bytes env_malloc "2 ^ 64 - 16"
proof
  fix s g n assume s: "env_inv s g" and n: "n < (2::nat) ^ 64 - 16"
  obtain pb mm h where e: "s = (pb, mm, h)" by (cases s)
  with s have "heap_inv pb h g" "pb \<le> 26" "mmap_ok (2 ^ (pb + MINSHIFT)) mm" by (simp_all add: env_inv_def)
  moreover from n have "n + 16 < 2 ^ 64" by simp
  ultimately obtain rv h' B' where r: "malloc (2 ^ (pb + MINSHIFT)) mm n h = Some (rv, h')"
    "alloc_post pb 16 n h g rv h' B'" using malloc_post by metis
  let ?s = "(pb, mm, h')"
  have "env_malloc n s = Some (rv, ?s)" by (simp add: env_malloc_def e r(1))
  moreover have "env_inv ?s B'" using s r(2) e by (simp add: env_inv_def alloc_post_def)
  moreover have "live_kept usable env_bytes s g ?s B'"
    using r(2) e by (simp add: env_bytes_def alloc_post_def user_kept_def live_kept_def)
  moreover have "granted usable g B' (rv, n)" using r(2) by (simp add: alloc_post_def granted_def)
  ultimately show "\<exists>p s' g'. env_malloc n s = Some (p, s') \<and> env_inv s' g' \<and>
      live_kept usable env_bytes s g s' g' \<and> granted usable g g' (p, n)"
    by blast
qed

section \<open>Properties\<close>

text \<open>A concrete host for the witnesses: mappings are placed above all earlier ones.\<close>

definition map_top :: "(nat \<times> nat) list \<Rightarrow> nat" where
  "map_top log = sum_list (map (\<lambda>(r, l). r + l) log)"

definition bump_mmap :: host_mmap where
  "bump_mmap log len =
     (let a = 4096 * (map_top log div 4096 + 1) in if a + len \<le> 2 ^ 63 then Some a else None)"

definition heap0 :: heap where
  "heap0 = \<lparr>mem = (\<lambda>_. 0), nextf = (\<lambda>_. 0), pagesz = 0, pagebucket = 0, maps = []\<rparr>"

lemma map_top_ge: "(r, l) \<in> set log \<Longrightarrow> r + l \<le> map_top log"
  unfolding map_top_def by (rule member_le_sum_list; force)

lemma bump_mmap_ok: "mmap_ok 4096 bump_mmap"
  unfolding mmap_ok_def
proof (intro allI impI)
  fix log len a assume "bump_mmap log len = Some a"
  then have a: "a = 4096 * (map_top log div 4096 + 1)" "a + len \<le> 2 ^ 63"
    by (auto simp: bump_mmap_def Let_def split: if_splits)
  have gt: "map_top log < a" unfolding a(1) by simp
  have "Reg a len \<inter> Reg r l = {}" if "(r, l) \<in> set log" for r l
    using map_top_ge [OF that] gt by (auto simp: Reg_disjoint_iff)
  with a gt show "a \<noteq> 0 \<and> 4096 dvd a \<and> a + len \<le> 2 ^ 63 \<and> (\<forall>(r, l) \<in> set log. Reg a len \<inter> Reg r l = {})"
    by auto
qed

lemma heap0_inv: "heap_inv 7 heap0 Map.empty"
  unfolding heap0_def by (rule heap_inv_init)

text \<open>A heap with one block in use: 32 bytes at 4096, handed out as 4112.\<close>

definition heap1 :: heap where
  "heap1 = \<lparr>mem = stamp 4096 4112 0 (\<lambda>_. 7), nextf = (\<lambda>_. 0), pagesz = 4096, pagebucket = 7,
     maps = [(4096, 4096)]\<rparr>"

definition blocks1 :: blocks where
  "blocks1 = [4096 \<mapsto> (0, Some 4112)]"

lemma heap1_inv: "heap_inv 7 heap1 blocks1"
proof -
  have "live_ok (mem heap1) 4096 0 4112"
    using stamp_live(1) [of 4096 4112 0] by (simp add: heap1_def bsize_def MINSHIFT_def)
  moreover have "free_ok heap1 blocks1"
    unfolding free_ok_def by (auto simp: heap1_def blocks1_def intro!: exI [of _ "[]"])
  ultimately show ?thesis
    by (auto simp: heap_inv_def heap1_def blocks1_def blk_ok_def blk_disjoint_def bsize_def MINSHIFT_def
        split: if_splits)
qed

lemma page_4096: "(2::nat) ^ (7 + MINSHIFT) = 4096"
  by (simp add: MINSHIFT_def)

text \<open>
  C2: On a well-formed heap, \<open>aligned_alloc\<close> with a power-of-two alignment and a size that
  does not wrap returns; the heap stays well-formed, every pointer in use stays usable with its
  contents, and a non-NULL result is aligned (to at least 16), has \<open>nbytes\<close> usable bytes, and
  overlaps no pointer in use.
\<close>

theorem aligned_alloc_correct:
  assumes "heap_inv pb h B" and "pb \<le> 26" and "mmap_ok (2 ^ (pb + MINSHIFT)) mm"
    and "max align 16 = 2 ^ k" and "nbytes + max align 16 < 2 ^ 64"
  shows "\<exists>rv h' B'. aligned_alloc (2 ^ (pb + MINSHIFT)) mm align nbytes h = Some (rv, h') \<and>
    heap_inv pb h' B' \<and> user_kept h B h' B' \<and>
    (rv \<noteq> 0 \<longrightarrow> usable B' rv nbytes \<and> 2 ^ k dvd rv \<and>
       (\<forall>rv' n. usable B rv' n \<longrightarrow> rv' \<noteq> rv \<and> Reg rv' n \<inter> Reg rv nbytes = {}))"
proof -
  obtain rv h' where run: "aligned_alloc (2 ^ (pb + MINSHIFT)) mm align nbytes h = Some (rv, h')"
    using aligned_alloc_total [OF assms(2)] by blast
  with aligned_alloc_post [OF assms this] show ?thesis unfolding alloc_post_def by blast
qed

theorem aligned_alloc_correct_witness:
  "\<exists>rv h' B'. aligned_alloc 4096 bump_mmap 64 100 heap0 = Some (rv, h') \<and>
    heap_inv 7 h' B' \<and> user_kept heap0 Map.empty h' B' \<and>
    (rv \<noteq> 0 \<longrightarrow> usable B' rv 100 \<and> 2 ^ 6 dvd rv \<and>
       (\<forall>rv' n. usable Map.empty rv' n \<longrightarrow> rv' \<noteq> rv \<and> Reg rv' n \<inter> Reg rv 100 = {}))"
  using aligned_alloc_correct [OF heap0_inv, of bump_mmap 64 6 100] bump_mmap_ok
  by (simp add: page_4096)

text \<open>
  C7: A client that makes any sequence of \<open>malloc\<close> calls gets, for the calls that do not
  return NULL, pairwise disjoint byte ranges of the sizes it asked for, disjoint from everything
  it had, whose contents do not change.
\<close>

theorem malloc_sequence_disjoint:
  assumes "env_inv s B" and "\<forall>n \<in> set ns. n < 2 ^ 64 - 16"
  shows "\<exists>ps s' B'. alloc_all env_malloc ns s = Some (ps, s') \<and> env_inv s' B' \<and> length ps = length ns \<and>
    live_kept usable env_bytes s B s' B' \<and> (\<forall>y \<in> set (zip ps ns). granted usable B B' y) \<and>
    sorted_wrt apart (zip ps ns)"
  using assms by (rule heap_malloc.alloc_all_ok)

theorem malloc_sequence_disjoint_witness:
  "\<exists>ps s' B'. alloc_all env_malloc [100, 5000, 16] (7, bump_mmap, heap0) = Some (ps, s') \<and>
    env_inv s' B' \<and> length ps = length [100, 5000, 16 :: nat] \<and>
    live_kept usable env_bytes (7, bump_mmap, heap0) Map.empty s' B' \<and>
    (\<forall>y \<in> set (zip ps [100, 5000, 16]). granted usable Map.empty B' y) \<and>
    sorted_wrt apart (zip ps [100, 5000, 16])"
proof -
  have "env_inv (7, bump_mmap, heap0) Map.empty"
    using heap0_inv bump_mmap_ok by (simp add: env_inv_def page_4096)
  from malloc_sequence_disjoint [OF this, of "[100, 5000, 16]"] show ?thesis
    by (simp del: alloc_all.simps)
qed

text \<open>
  C12: \<open>free\<close> of a pointer in use succeeds, keeps the heap well-formed, ends the use of that
  pointer only, leaves the bytes of every other pointer in use alone, and puts the block at the
  head of the free list of its bucket.
\<close>

theorem free_correct:
  assumes "heap_inv pb h B" and "B a = Some (b, Some cp)"
  shows "\<exists>h'. free cp h = Some h' \<and> heap_inv pb h' (B(a \<mapsto> (b, None))) \<and> nextf h' b = a \<and>
    (\<forall>rv n. usable B rv n \<and> rv \<noteq> cp \<longrightarrow>
       usable (B(a \<mapsto> (b, None))) rv n \<and> (\<forall>x \<in> Reg rv n. mem h' x = mem h x))"
proof -
  obtain h' where run: "free cp h = Some h'" using free_eq [OF assms] by blast
  note fp = free_post [OF assms run]
  from run fp(1,3) show ?thesis by (intro exI [of _ h'] conjI allI impI) (use fp(2) in auto)
qed

theorem free_correct_witness:
  "\<exists>h'. free 4112 heap1 = Some h' \<and> heap_inv 7 h' (blocks1(4096 \<mapsto> (0, None))) \<and> nextf h' 0 = 4096 \<and>
    (\<forall>rv n. usable blocks1 rv n \<and> rv \<noteq> 4112 \<longrightarrow>
       usable (blocks1(4096 \<mapsto> (0, None))) rv n \<and> (\<forall>x \<in> Reg rv n. mem h' x = mem heap1 x))"
  by (rule free_correct [OF heap1_inv]) (simp add: blocks1_def)

text \<open>
  After \<open>free\<close>, a \<open>malloc\<close> of a size of the same bucket returns the freed block at its
  default alignment and requests no memory from the host.
\<close>

theorem malloc_reuses_freed:
  assumes "heap_inv pb h B" and "pb \<le> 26" and "B a = Some (b, Some cp)"
    and "pagesz h = 2 ^ (pb + MINSHIFT)" and "nbytes + 16 < 2 ^ 64"
    and "bucket_loop (nbytes + 16) (2 ^ (b0 + MINSHIFT)) b0 = Some b"
    and "b0 = (if nbytes + 16 \<le> 2 ^ (pb + MINSHIFT) then 0 else pb)"
    and "free cp h = Some h'"
  shows "\<exists>h''. malloc (2 ^ (pb + MINSHIFT)) mm nbytes h' = Some (a + 16, h'') \<and> maps h'' = maps h"
  using assms by (rule free_reuse)

theorem malloc_reuses_freed_witness:
  "\<exists>h' h''. free 4112 heap1 = Some h' \<and> malloc 4096 (\<lambda>_ _. None) 9 h' = Some (4112, h'') \<and>
     maps h'' = [(4096, 4096)]"
proof -
  have B: "blocks1 4096 = Some (0, Some 4112)" by (simp add: blocks1_def)
  obtain h' where run: "free 4112 heap1 = Some h'" using free_eq [OF heap1_inv B] by blast
  have "bucket_loop 25 32 0 = Some 0" by (simp add: bucket_loop.simps)
  with malloc_reuses_freed [OF heap1_inv _ B _ _ _ _ run, of 9 0 "\<lambda>_ _. None"] run show ?thesis
    by (simp add: page_4096 heap1_def MINSHIFT_def)
qed

text \<open>
  C13: \<open>realloc\<close> of a pointer in use (block below 2 GiB) to a size that does not wrap returns.
  A non-NULL result has \<open>nbytes\<close> usable bytes that start with the old contents, up to the
  smaller size; every other pointer in use keeps its bytes.  On NULL nothing in use changes.
\<close>

theorem realloc_correct:
  assumes "heap_inv pb h B" and "pb \<le> 26" and "mmap_ok (2 ^ (pb + MINSHIFT)) mm"
    and "B a = Some (b, Some cp)" and "b < 26" and "0 < nbytes" and "nbytes + 16 < 2 ^ 64"
  shows "\<exists>np h' B'. realloc (2 ^ (pb + MINSHIFT)) mm cp nbytes h = Some (np, h') \<and> heap_inv pb h' B' \<and>
    (np = 0 \<longrightarrow> user_kept h B h' B') \<and>
    (np \<noteq> 0 \<longrightarrow> usable B' np nbytes \<and>
       (\<forall>i<nbytes. cp + i < a + bsize b \<longrightarrow> mem h' (np + i) = mem h (cp + i)) \<and>
       (\<forall>rv m. usable B rv m \<longrightarrow> rv \<noteq> cp \<longrightarrow> usable B' rv m \<and> (\<forall>x \<in> Reg rv m. mem h' x = mem h x)))"
  using assms by (rule realloc_post)

theorem realloc_correct_witness:
  "\<exists>np h' B'. realloc 4096 bump_mmap 4112 200 heap1 = Some (np, h') \<and> heap_inv 7 h' B' \<and>
    (np \<noteq> 0 \<longrightarrow> usable B' np 200 \<and> (\<forall>i<16. mem h' (np + i) = 7))"
proof -
  have B: "blocks1 4096 = Some (0, Some 4112)" by (simp add: blocks1_def)
  have "mem heap1 (4112 + i) = 7" for i
    by (simp add: heap1_def stamp_def wr64_def wr8_def OVSIZE_def)
  with realloc_correct [OF heap1_inv _ _ B, of bump_mmap 200] bump_mmap_ok show ?thesis
    by (auto simp: page_4096 bsize_def MINSHIFT_def)
qed

text \<open>
  C14: \<open>calloc\<close> of a product that does not wrap returns NULL or a fresh pointer, with the
  guarantees of \<open>malloc\<close>, to \<open>nmemb * size\<close> zero bytes.
\<close>

theorem calloc_correct:
  assumes "heap_inv pb h B" and "pb \<le> 26" and "mmap_ok (2 ^ (pb + MINSHIFT)) mm"
    and "nmemb * sz + 16 < 2 ^ 64"
  shows "\<exists>rv h' B'. calloc (2 ^ (pb + MINSHIFT)) mm nmemb sz h = Some (rv, h') \<and>
    alloc_post pb 16 (nmemb * sz) h B rv h' B' \<and> (rv \<noteq> 0 \<longrightarrow> (\<forall>i < nmemb * sz. mem h' (rv + i) = 0))"
  using assms by (rule calloc_post)

theorem calloc_correct_witness:
  "\<exists>rv h' B'. calloc 4096 bump_mmap 3 40 heap1 = Some (rv, h') \<and>
    alloc_post 7 16 120 heap1 blocks1 rv h' B' \<and> (rv \<noteq> 0 \<longrightarrow> (\<forall>i < 120. mem h' (rv + i) = 0))"
  using calloc_correct [OF heap1_inv, of bump_mmap 3 40] bump_mmap_ok by (simp add: page_4096)

text \<open>
  The sum of the size and the overhead is not checked: for the 16 largest sizes
  \<open>malloc\<close> does what it does for size 0, and a non-NULL result has 16 usable bytes.
\<close>

theorem malloc_size_wraps:
  assumes "2 ^ 64 - 16 \<le> n" and "n < 2 ^ 64" and "pb \<le> 26" and "heap_inv pb h B"
  shows "malloc (2 ^ (pb + MINSHIFT)) mm n h = malloc (2 ^ (pb + MINSHIFT)) mm 0 h"
proof -
  obtain h0 where init: "malloc_init (2 ^ (pb + MINSHIFT)) h = Some h0" and pg: "32 \<le> pagesz h0"
    using malloc_init_eq [OF assms(3), of h] assms(4) bsize_ge [of pb]
    by (auto simp: heap_inv_def bsize_def MINSHIFT_def)
  define m where "m = n - (2 ^ 64 - 16)"
  have m: "m < 16" "n = m + (2 ^ 64 - 16)" using assms(1,2) by (simp_all add: m_def)
  have one: "mask_align (OVSIZE + 15) 16 = 16"
    using mask_align_eq [of "OVSIZE + 15" 4] by (simp add: OVSIZE_def)
  have "(n + 16) mod 2 ^ 64 = m" using m by (simp add: mod_if)
  moreover have "bucket_loop x 32 0 = Some 0" if "x \<le> 32" for x using that by (simp add: bucket_loop.simps)
  ultimately show ?thesis
    using m(1) pg unfolding malloc_def aligned_alloc_def init
    by (simp add: MINALIGN_def one MINSHIFT_def Let_def)
qed

theorem malloc_size_wraps_witness:
  "malloc 4096 bump_mmap (2 ^ 64 - 1) heap0 = malloc 4096 bump_mmap 0 heap0"
  using malloc_size_wraps [OF _ _ _ heap0_inv, of "2 ^ 64 - 1" bump_mmap] by (simp add: page_4096)

text \<open>
  \<open>free\<close> does not clear \<open>ov_magic\<close>, which lies behind the \<open>ov_next\<close> it writes: the
  header of a freed pointer still carries the magic number, so the sanity check of a second
  \<open>free\<close> passes; from an empty free list it makes the inside of the block a free block.
\<close>

theorem double_free_undetected:
  assumes "heap_inv pb h B" and "B a = Some (b, Some (a + 16))" and "nextf h b = 0"
  shows "\<exists>h' h''. free (a + 16) h = Some h' \<and> ov_magic (mem h') a = MAGIC \<and>
    free (a + 16) h' = Some h'' \<and> nextf h'' b = a + 16"
proof -
  let ?h = "h\<lparr>mem := wr64 a 0 (mem h), nextf := (nextf h)(b := a)\<rparr>"
  have run: "free (a + 16) h = Some ?h" using free_eq [OF assms(1,2)] assms(3) by simp
  from assms(1,2) have lv: "live_ok (mem h) a b (a + 16)" and bk: "blk_ok pb (maps h) a b"
    by (simp_all add: heap_inv_def)
  from lv have mg: "ov_magic (mem ?h) a = MAGIC" "ov_index (mem ?h) a = b"
    by (simp_all add: live_ok_def OVSIZE_def ov_magic_def ov_index_def wr64_def)
  have al: "ov_alignpad (mem ?h) a = 0" by (simp add: ov_alignpad_def)
  from bk have "a + 16 < 2 ^ 64" "b < NBUCKETS" using bsize_ge [of b] by (auto simp: blk_ok_def NBUCKETS_def)
  then have "free (a + 16) ?h = Some (?h\<lparr>mem := wr64 (a + 16) a (mem ?h), nextf := (nextf ?h)(b := a + 16)\<rparr>)"
    using mg al by (simp add: free_def Let_def sub64_sub OVSIZE_def)
  with run mg(1) show ?thesis by auto
qed

theorem double_free_undetected_witness:
  "\<exists>h' h''. free 4112 heap1 = Some h' \<and> ov_magic (mem h') 4096 = MAGIC \<and>
    free 4112 h' = Some h'' \<and> nextf h'' 0 = 4112"
  using double_free_undetected [OF heap1_inv, of 4096 0] by (simp add: blocks1_def heap1_def)

end
