(* ===== verification/Sched.thy ===== *)
theory Sched
  imports Tailq
begin

text \<open>
  The cooperative scheduler of franken/thread/thread.c: threads, the round-robin
  \<open>schedule\<close>, wait queues, creation, exit, join and sleeping.  Pointers to threads,
  mutexes, read/write locks and condition variables are numbers; a lwp pointer is a number with
  NULL as 0.  Tail queues are lists (theory \<open>Tailq\<close>): \<open>TAILQ_INSERT_TAIL\<close> appends,
  \<open>TAILQ_REMOVE\<close> is \<^const>\<open>remove1\<close>.

  A thread that calls \<open>schedule\<close> leaves part of its work for the time it is resumed.  Each
  thread therefore has a stack \<open>stk\<close> of frames, each the rest of a function of the library
  that waits for an inner call to return, and \<open>ctl\<close> says what the current thread does:
  \<open>User\<close> runs code outside the library, \<open>Ret v\<close> returns \<open>v\<close> to the top frame,
  \<open>Scheduling\<close> is inside \<open>schedule\<close>, \<open>Aborted\<close> is a failed assertion or an
  \<open>abort\<close>, \<open>Fault\<close> the use of an object that is not allocated.  The hypercalls
  \<open>hyp_backend_unschedule\<close> and \<open>hyp_backend_schedule\<close> belong to the rump kernel:
  a call pushes \<open>FHook\<close>, and the code it runs may call the library again.

  \<open>clock_gettime\<close> and \<open>clock_nanosleep\<close> are inputs: \<open>schedule_loop\<close> takes, for each
  turn of its loop, the time read and the threads that the sleep wakes (those waiting for a
  file descriptor).  A list that is too short gives \<open>None\<close>: the loop has not returned.

  The mutexes, read/write locks and condition variables, the machine's steps and the properties
  that span both are in theory \<open>Sync\<close>.
\<close>

named_theorems sched_defs \<open>the straight-line definitions of the thread library\<close>

section \<open>Data\<close>

text \<open>\<open>struct thread\<close>; the name, the saved context and \<open>threrrno\<close> are not read by the library.\<close>

record thread =
  lwp :: nat
  cookie :: nat
  wakeup_time :: int
  flags :: "32 word"

definition RUNNABLE_FLAG :: "32 word" where "RUNNABLE_FLAG = 0x00000001"
definition THREAD_MUSTJOIN :: "32 word" where "THREAD_MUSTJOIN = 0x00000002"
definition THREAD_JOINED :: "32 word" where "THREAD_JOINED = 0x00000004"
definition THREAD_EXTSTACK :: "32 word" where "THREAD_EXTSTACK = 0x00000008"
definition THREAD_TIMEDOUT :: "32 word" where "THREAD_TIMEDOUT = 0x00000010"

text \<open>The wait queues: of a mutex, the two of a read/write lock, of a condition variable.\<close>

datatype waithead = MtxWaiters nat | RwWait nat | WwWait nat | CvWaiters nat

text \<open>The hypercalls, with their interlock and the lock count handed back.\<close>

datatype hookcall = HUnsched "nat option" | HSched int "nat option"

datatype frame =
    FHook hookcall
  | FWait waithead
  | FYield
  | FSleep int
  | FClock int int
  | FJoin nat
  | FExit
  | FExited
  | FReturn int
  | FMutexEnter nat
  | FMutexLoop nat int
  | FRwEnter int nat
  | FRwLoop int nat int
  | FCvUnsched nat nat int
  | FCvWait nat nat int
  | FCvSpin nat nat int
  | FCvDone nat int
  | FCvNowrap nat nat

datatype ctl = User | Ret int | Scheduling | Aborted | Fault

text \<open>\<open>struct rumpuser_mtx\<close>, \<open>struct rumpuser_rw\<close> and \<open>struct rumpuser_cv\<close>.\<close>

record mtx =
  m_v :: int
  m_flags :: "32 word"
  m_o :: nat

record rwlock =
  rw_v :: int
  rw_o :: nat

record cv =
  nwaiters :: int

record st =
  threads :: "nat \<rightharpoonup> thread"
  thread_list :: "nat list"
  exited_threads :: "nat list"
  current_thread :: nat
  joinwq :: "(nat \<times> nat) list"
  wq :: "waithead \<Rightarrow> nat list"
  onlist :: "nat \<Rightarrow> bool"
  mtxs :: "nat \<rightharpoonup> mtx"
  rws :: "nat \<rightharpoonup> rwlock"
  cvs :: "nat \<rightharpoonup> cv"
  stk :: "nat \<Rightarrow> frame list"
  ctl :: ctl

definition thread0 :: thread where
  "thread0 = \<lparr>lwp = 0, cookie = 0, wakeup_time = 0, flags = 0\<rparr>"

definition thr :: "st \<Rightarrow> nat \<Rightarrow> thread" where
  "thr s t = (case threads s t of Some x \<Rightarrow> x | None \<Rightarrow> thread0)"

definition upd_thread :: "nat \<Rightarrow> (thread \<Rightarrow> thread) \<Rightarrow> st \<Rightarrow> st" where
  "upd_thread t f s = s\<lparr>threads := (threads s)(t := map_option f (threads s t))\<rparr>"

section \<open>Control\<close>

definition ret :: "int \<Rightarrow> st \<Rightarrow> st" where
  [sched_defs]: "ret v s = s\<lparr>ctl := Ret v\<rparr>"

definition push :: "frame \<Rightarrow> st \<Rightarrow> st" where
  [sched_defs]: "push f s = s\<lparr>stk := (stk s)(current_thread s := f # stk s (current_thread s))\<rparr>"

definition pop :: "st \<Rightarrow> st" where
  [sched_defs]: "pop s = s\<lparr>stk := (stk s)(current_thread s := tl (stk s (current_thread s)))\<rparr>"

text \<open>A hypercall: \<open>rumpkern_unsched\<close> and \<open>rumpkern_sched\<close>, continued by the frame \<open>f\<close>.\<close>

definition rumpkern_unsched :: "nat option \<Rightarrow> frame \<Rightarrow> st \<Rightarrow> st" where
  [sched_defs]: "rumpkern_unsched interlock f s = (push (FHook (HUnsched interlock)) (push f s))\<lparr>ctl := User\<rparr>"

definition rumpkern_sched :: "int \<Rightarrow> nat option \<Rightarrow> frame \<Rightarrow> st \<Rightarrow> st" where
  [sched_defs]: "rumpkern_sched nlocks interlock f s =
     (push (FHook (HSched nlocks interlock)) (push f s))\<lparr>ctl := User\<rparr>"

text \<open>A call of \<open>schedule\<close>, continued by the frame \<open>f\<close>.\<close>

definition call_schedule :: "frame \<Rightarrow> st \<Rightarrow> st" where
  [sched_defs]: "call_schedule f s = (push f s)\<lparr>ctl := Scheduling\<rparr>"

definition abort_st :: "st \<Rightarrow> st" where
  [sched_defs]: "abort_st s = s\<lparr>ctl := Aborted\<rparr>"

definition fault :: "st \<Rightarrow> st" where
  [sched_defs]: "fault s = s\<lparr>ctl := Fault\<rparr>"

section \<open>Threads\<close>

definition get_current :: "st \<Rightarrow> nat" where
  [sched_defs]: "get_current s = current_thread s"

definition curlwp :: "st \<Rightarrow> nat" where
  "curlwp s = lwp (thr s (current_thread s))"

definition set_curlwp :: "nat \<Rightarrow> st \<Rightarrow> st" where
  [sched_defs]: "set_curlwp l s = upd_thread (current_thread s) (lwp_update (\<lambda>_. l)) s"

definition is_runnable :: "st \<Rightarrow> nat \<Rightarrow> bool" where
  "is_runnable s t \<longleftrightarrow> has_flag (flags (thr s t)) RUNNABLE_FLAG"

definition set_runnable :: "nat \<Rightarrow> st \<Rightarrow> st" where
  "set_runnable t s = upd_thread t (flags_update (\<lambda>f. f OR RUNNABLE_FLAG)) s"

definition clear_runnable :: "nat \<Rightarrow> st \<Rightarrow> st" where
  "clear_runnable t s = upd_thread t (flags_update (\<lambda>f. f AND NOT RUNNABLE_FLAG)) s"

definition set_wakeup :: "nat \<Rightarrow> int \<Rightarrow> st \<Rightarrow> st" where
  "set_wakeup t w s = upd_thread t (wakeup_time_update (\<lambda>_. w)) s"

definition set_flag :: "nat \<Rightarrow> 32 word \<Rightarrow> st \<Rightarrow> st" where
  "set_flag t m s = upd_thread t (flags_update (\<lambda>f. f OR m)) s"

definition clear_flag :: "nat \<Rightarrow> 32 word \<Rightarrow> st \<Rightarrow> st" where
  "clear_flag t m s = upd_thread t (flags_update (\<lambda>f. f AND NOT m)) s"

definition wake :: "nat \<Rightarrow> st \<Rightarrow> st" where
  "wake t s = set_runnable t (set_wakeup t (-1) s)"

definition block :: "nat \<Rightarrow> st \<Rightarrow> st" where
  "block t s = clear_runnable t (set_wakeup t (-1) s)"

section \<open>The scheduler\<close>

text \<open>
  One pass of \<open>schedule\<close> over the thread list at time \<open>tm\<close>: expired sleepers are woken, the
  first runnable thread is moved to the end of the list and chosen.  \<open>wakeup\<close> is the time of
  the earliest wake-up seen.
\<close>

fun scan :: "int \<Rightarrow> int \<Rightarrow> nat list \<Rightarrow> st \<Rightarrow> nat option \<times> int \<times> st" where
  "scan tm wakeup [] s = (None, wakeup, s)"
| "scan tm wakeup (t # ts) s =
     (let expired = (\<not> is_runnable s t \<and> 0 \<le> wakeup_time (thr s t) \<and> wakeup_time (thr s t) \<le> tm);
          wakeup = (if \<not> is_runnable s t \<and> 0 \<le> wakeup_time (thr s t) \<and> \<not> wakeup_time (thr s t) \<le> tm \<and>
                       wakeup_time (thr s t) < wakeup
                    then wakeup_time (thr s t) else wakeup);
          s = (if expired then wake t (set_flag t THREAD_TIMEDOUT s) else s)
      in if is_runnable s t
         then (Some t, wakeup, s\<lparr>thread_list := remove1 t (thread_list s) @ [t]\<rparr>)
         else scan tm wakeup ts s)"

text \<open>The time slept when nothing is runnable, as seconds and nanoseconds.\<close>

definition sleep_request :: "int \<Rightarrow> int \<Rightarrow> int \<times> int" where
  "sleep_request tm wakeup =
     (let sec = (wakeup - tm) div (1000 * 1000 * 1000)
      in (sec, (wakeup - tm) - 1000 * 1000 * 1000 * sec))"

fun schedule_loop :: "(int \<times> nat list) list \<Rightarrow> st \<Rightarrow> (nat \<times> st) option" where
  "schedule_loop [] s = None"
| "schedule_loop ((tm, woken) # env) s =
     (case scan tm (tm + 1000 * 1000) (thread_list s) s of
        (Some n, _, s) \<Rightarrow> Some (n, s)
      | (None, _, s) \<Rightarrow> schedule_loop env (fold wake woken s))"

text \<open>The end of \<open>schedule\<close>: free the exited threads other than \<open>prev\<close>.\<close>

definition reap :: "nat \<Rightarrow> st \<Rightarrow> st" where
  "reap prev s =
     s\<lparr>exited_threads := filter (\<lambda>t. t = prev) (exited_threads s),
       threads := (\<lambda>t. if t \<in> set (exited_threads s) \<and> t \<noteq> prev then None else threads s t)\<rparr>"

text \<open>
  \<open>switch_threads\<close> and what follows it.  The thread switched to continues behind its own call
  of \<open>schedule\<close>, whose \<open>prev\<close> is itself; a thread that never ran starts its function.
\<close>

definition switch_threads :: "nat \<Rightarrow> st \<Rightarrow> st" where
  "switch_threads next s =
     (let s = s\<lparr>current_thread := next\<rparr>
      in if stk s next = [] then s\<lparr>ctl := User\<rparr> else ret 0 (reap next s))"

definition schedule :: "(int \<times> nat list) list \<Rightarrow> st \<Rightarrow> st option" where
  "schedule env s =
     (case schedule_loop env s of
        None \<Rightarrow> None
      | Some (next, s) \<Rightarrow> Some (switch_threads next s))"

section \<open>Creation, exit and join\<close>

text \<open>\<open>alloc\<close>: the result of \<open>calloc\<close>; \<open>mapped\<close>: whether \<open>mmap\<close> gave a stack.\<close>

definition create_thread :: "nat option \<Rightarrow> bool \<Rightarrow> nat \<Rightarrow> bool \<Rightarrow> bool \<Rightarrow> st \<Rightarrow> nat \<times> st" where
  "create_thread alloc mapped ck extstack joinable s =
     (case alloc of
        None \<Rightarrow> (0, s)
      | Some t \<Rightarrow>
          if \<not> extstack \<and> \<not> mapped then (0, s)
          else
            let fl = (if joinable then THREAD_MUSTJOIN else 0);
                fl = (if extstack then fl OR THREAD_EXTSTACK else fl);
                s = s\<lparr>threads := (threads s)(t \<mapsto> \<lparr>lwp = 0, cookie = ck, wakeup_time = -1, flags = fl\<rparr>),
                      stk := (stk s)(t := []), onlist := (onlist s)(t := False)\<rparr>;
                s = set_runnable t s
            in (t, s\<lparr>thread_list := thread_list s @ [t]\<rparr>))"

text \<open>The joiner of \<open>t\<close>: the first entry of \<open>joinwq\<close> that wants it.\<close>

fun find_joiner :: "nat \<Rightarrow> (nat \<times> nat) list \<Rightarrow> nat option" where
  "find_joiner t [] = None"
| "find_joiner t ((j, w) # js) = (if w = t then Some j else find_joiner t js)"

text \<open>\<open>exit_thread\<close> from the test of its first loop on.\<close>

definition exit_loop :: "st \<Rightarrow> st" where
  "exit_loop s =
     (let thread = get_current s
      in if has_flag (flags (thr s thread)) THREAD_MUSTJOIN
         then
           let s = set_flag thread THREAD_JOINED s;
               s = (case find_joiner thread (joinwq s) of None \<Rightarrow> s | Some j \<Rightarrow> wake j s)
           in call_schedule FExit (block thread s)
         else
           let s = s\<lparr>thread_list := remove1 thread (thread_list s)\<rparr>;
               s = clear_runnable thread s;
               s = s\<lparr>exited_threads := thread # exited_threads s\<rparr>
           in call_schedule FExited s)"

definition exit_thread :: "st \<Rightarrow> st" where
  "exit_thread s = exit_loop s"

text \<open>\<open>join_thread\<close> from the test of its loop on; the waiter is on the joiner's stack.\<close>

definition join_loop :: "nat \<Rightarrow> st \<Rightarrow> st" where
  "join_loop joinable s =
     (if threads s joinable = None then fault s
      else if \<not> has_flag (flags (thr s joinable)) THREAD_JOINED
      then
        let thread = get_current s;
            s = s\<lparr>joinwq := joinwq s @ [(thread, joinable)]\<rparr>
        in call_schedule (FJoin joinable) (block thread s)
      else ret 0 (wake joinable (clear_flag joinable THREAD_MUSTJOIN s)))"

definition join_thread :: "nat \<Rightarrow> st \<Rightarrow> st" where
  "join_thread joinable s =
     (if threads s joinable = None then fault s
      else if \<not> has_flag (flags (thr s joinable)) THREAD_MUSTJOIN then abort_st s
      else join_loop joinable s)"

definition join_resume :: "nat \<Rightarrow> st \<Rightarrow> st" where
  "join_resume joinable s =
     join_loop joinable (s\<lparr>joinwq := remove1 (get_current s, joinable) (joinwq s)\<rparr>)"

section \<open>Sleeping\<close>

definition CLOCK_REALTIME :: int where "CLOCK_REALTIME = 0"
definition CLOCK_MONOTONIC :: int where "CLOCK_MONOTONIC = 3"

text \<open>\<open>sec * 1000 * 1000 * 1000UL + nsec\<close> stored in an \<open>int64_t\<close>.\<close>

definition nsecs :: "int \<Rightarrow> int \<Rightarrow> int" where
  "nsecs sec nsec = wrap64 (sec * 1000000000 + nsec)"

definition absnanosleep :: "int \<Rightarrow> frame \<Rightarrow> st \<Rightarrow> st" where
  "absnanosleep nsec f s =
     (let thread = get_current s
      in call_schedule f (clear_runnable thread (set_wakeup thread nsec s)))"

definition nsleep :: "int \<Rightarrow> int \<Rightarrow> frame \<Rightarrow> st \<Rightarrow> st" where
  "nsleep tm nsec f s = absnanosleep (wrap64 (tm + nsec)) f s"

text \<open>\<open>clock_sleep\<close>: release the rump CPU, sleep, take it again.\<close>

definition clock_sleep :: "int \<Rightarrow> int \<Rightarrow> int \<Rightarrow> st \<Rightarrow> st" where
  "clock_sleep clk sec nsec s = rumpkern_unsched None (FClock clk (nsecs sec nsec)) s"

definition clock_sleep_unsched :: "int \<Rightarrow> int \<Rightarrow> int \<Rightarrow> int \<Rightarrow> st \<Rightarrow> st" where
  "clock_sleep_unsched tm clk nanosec nlocks s =
     (if clk = CLOCK_REALTIME then nsleep tm nanosec (FSleep nlocks) s
      else if clk = CLOCK_MONOTONIC then absnanosleep nanosec (FSleep nlocks) s
      else rumpkern_sched nlocks None (FReturn 0) s)"

section \<open>Wait queues\<close>

definition WAIT_NOTIMEOUT :: int where "WAIT_NOTIMEOUT = -1"

text \<open>\<open>wait\<close> up to its call of \<open>schedule\<close>; \<open>f\<close> is the caller's frame, \<open>tm\<close> the time.\<close>

definition wait :: "int \<Rightarrow> waithead \<Rightarrow> int \<Rightarrow> frame \<Rightarrow> st \<Rightarrow> st" where
  "wait tm wh nsec f s =
     (if nsec = 0 then abort_st s
      else
        let who = get_current s;
            s = s\<lparr>wq := (wq s)(wh := wq s wh @ [who]), onlist := (onlist s)(who := True)\<rparr>;
            s = block who s;
            s = set_wakeup who (if nsec = WAIT_NOTIMEOUT then -1 else wrap64 (tm + nsec)) s;
            s = clear_runnable who s
        in call_schedule (FWait wh) (push f s))"

text \<open>\<open>wait\<close> behind its call of \<open>schedule\<close>; the waiter goes out of scope.\<close>

definition wait_resume :: "waithead \<Rightarrow> st \<Rightarrow> st" where
  "wait_resume wh s =
     (let who = get_current s
      in if onlist s who
         then ret (errno_val ETIMEDOUT)
                (s\<lparr>wq := (wq s)(wh := remove1 who (wq s wh)), onlist := (onlist s)(who := False)\<rparr>)
         else ret 0 s)"

definition wakeup_one :: "waithead \<Rightarrow> st \<Rightarrow> st" where
  "wakeup_one wh s =
     (case wq s wh of
        [] \<Rightarrow> s
      | w # ws \<Rightarrow> wake w (s\<lparr>wq := (wq s)(wh := ws), onlist := (onlist s)(w := False)\<rparr>))"

fun wakeup_list :: "nat list \<Rightarrow> waithead \<Rightarrow> st \<Rightarrow> st" where
  "wakeup_list [] wh s = s"
| "wakeup_list (w # ws) wh s =
     wakeup_list ws wh (wake w (s\<lparr>wq := (wq s)(wh := ws), onlist := (onlist s)(w := False)\<rparr>))"

definition wakeup_all :: "waithead \<Rightarrow> st \<Rightarrow> st" where
  "wakeup_all wh s = wakeup_list (wq s wh) wh s"

text \<open>\<open>init_sched\<close>: the initial thread is thread 1.\<close>

definition init_sched :: st where
  "init_sched =
     \<lparr>threads = [1 \<mapsto> \<lparr>lwp = 0, cookie = 0, wakeup_time = -1, flags = RUNNABLE_FLAG\<rparr>],
      thread_list = [1], exited_threads = [], current_thread = 1, joinwq = [], wq = (\<lambda>_. []),
      onlist = (\<lambda>_. False), mtxs = Map.empty, rws = Map.empty, cvs = Map.empty, stk = (\<lambda>_. []),
      ctl = User\<rparr>"

end
