(* ===== verification/Sync.thy ===== *)
theory Sync
  imports Sched
begin

text \<open>
  Mutexes, read/write locks and condition variables of franken/thread/thread.c, and the
  machine that runs the thread library.  \<open>do_call\<close> is the call of an operation by code
  outside the library, \<open>resume\<close> the rest of an operation once the call it waits for returns,
  \<open>step\<close> the step relation of the whole.  The parameter \<open>tm\<close> is the time that \<open>now()\<close>
  reads.
\<close>

section \<open>Mutexes\<close>

definition MTX_SPIN :: "32 word" where "MTX_SPIN = 0x01"
definition MTX_KMUTEX :: "32 word" where "MTX_KMUTEX = 0x02"

definition mutex_init :: "nat \<Rightarrow> 32 word \<Rightarrow> st \<Rightarrow> st" where
  "mutex_init m fl s =
     s\<lparr>mtxs := (mtxs s)(m \<mapsto> \<lparr>m_v = 0, m_flags = fl, m_o = 0\<rparr>), wq := (wq s)(MtxWaiters m := [])\<rparr>"

definition mutex_tryenter :: "mtx \<Rightarrow> nat \<Rightarrow> st \<Rightarrow> int \<times> st" where
  "mutex_tryenter mt m s =
     (let l = curlwp s
      in if m_v mt \<noteq> 0 \<and> m_o mt \<noteq> l then (errno_val EBUSY, s)
         else (0, s\<lparr>mtxs := (mtxs s)(m \<mapsto> mt\<lparr>m_v := m_v mt + 1, m_o := l\<rparr>)\<rparr>))"

text \<open>The loop of \<open>mutex_enter\<close>, entered with the rump CPU released.\<close>

definition mutex_loop :: "int \<Rightarrow> nat \<Rightarrow> int \<Rightarrow> st \<Rightarrow> st" where
  "mutex_loop tm m nlocks s =
     (case mtxs s m of
        None \<Rightarrow> fault s
      | Some mt \<Rightarrow>
          let (rv, s) = mutex_tryenter mt m s
          in if rv \<noteq> 0 then wait tm (MtxWaiters m) WAIT_NOTIMEOUT (FMutexLoop m nlocks) s
             else rumpkern_sched nlocks None (FReturn 0) s)"

definition mutex_enter :: "nat \<Rightarrow> st \<Rightarrow> st" where
  "mutex_enter m s =
     (case mtxs s m of
        None \<Rightarrow> fault s
      | Some mt \<Rightarrow>
          let (rv, s) = mutex_tryenter mt m s
          in if rv \<noteq> 0 then rumpkern_unsched None (FMutexEnter m) s else ret 0 s)"

definition mutex_enter_nowrap :: "nat \<Rightarrow> st \<Rightarrow> st" where
  "mutex_enter_nowrap m s =
     (case mtxs s m of
        None \<Rightarrow> fault s
      | Some mt \<Rightarrow> let (rv, s) = mutex_tryenter mt m s in if rv \<noteq> 0 then abort_st s else ret 0 s)"

definition mutex_exit :: "nat \<Rightarrow> st \<Rightarrow> st" where
  "mutex_exit m s =
     (case mtxs s m of
        None \<Rightarrow> fault s
      | Some mt \<Rightarrow>
          if \<not> 0 < m_v mt then abort_st s
          else if m_v mt - 1 = 0
          then ret 0 (wakeup_one (MtxWaiters m) (s\<lparr>mtxs := (mtxs s)(m \<mapsto> mt\<lparr>m_v := m_v mt - 1, m_o := 0\<rparr>)\<rparr>))
          else ret 0 (s\<lparr>mtxs := (mtxs s)(m \<mapsto> mt\<lparr>m_v := m_v mt - 1\<rparr>)\<rparr>))"

definition mutex_destroy :: "nat \<Rightarrow> st \<Rightarrow> st" where
  "mutex_destroy m s =
     (case mtxs s m of
        None \<Rightarrow> fault s
      | Some mt \<Rightarrow>
          if wq s (MtxWaiters m) = [] \<and> m_o mt = 0 then ret 0 (s\<lparr>mtxs := (mtxs s)(m := None)\<rparr>)
          else abort_st s)"

definition mutex_owner :: "nat \<Rightarrow> st \<Rightarrow> nat" where
  "mutex_owner m s = (case mtxs s m of None \<Rightarrow> 0 | Some mt \<Rightarrow> m_o mt)"

section \<open>Read/write locks\<close>

definition RW_READER :: int where "RW_READER = 0"
definition RW_WRITER :: int where "RW_WRITER = 1"

definition rw_init :: "nat \<Rightarrow> st \<Rightarrow> st" where
  "rw_init r s =
     s\<lparr>rws := (rws s)(r \<mapsto> \<lparr>rw_v = 0, rw_o = 0\<rparr>), wq := (wq s)(RwWait r := [], WwWait r := [])\<rparr>"

definition rw_tryenter :: "int \<Rightarrow> rwlock \<Rightarrow> nat \<Rightarrow> st \<Rightarrow> int \<times> st" where
  "rw_tryenter lk rw r s =
     (if lk = RW_WRITER then
        if rw_o rw = 0 then (0, s\<lparr>rws := (rws s)(r \<mapsto> rw\<lparr>rw_o := curlwp s\<rparr>)\<rparr>)
        else (errno_val EBUSY, s)
      else if lk = RW_READER then
        if rw_o rw = 0 \<and> wq s (WwWait r) = [] then (0, s\<lparr>rws := (rws s)(r \<mapsto> rw\<lparr>rw_v := rw_v rw + 1\<rparr>)\<rparr>)
        else (errno_val EBUSY, s)
      else (errno_val EINVAL, s))"

text \<open>For another \<open>lk\<close> the queue pointer stays NULL and \<open>wait\<close> faults.\<close>

definition rw_loop :: "int \<Rightarrow> int \<Rightarrow> nat \<Rightarrow> int \<Rightarrow> st \<Rightarrow> st" where
  "rw_loop tm lk r nlocks s =
     (case rws s r of
        None \<Rightarrow> fault s
      | Some rw \<Rightarrow>
          let (rv, s) = rw_tryenter lk rw r s
          in if rv \<noteq> 0 then
               if lk = RW_WRITER then wait tm (WwWait r) WAIT_NOTIMEOUT (FRwLoop lk r nlocks) s
               else if lk = RW_READER then wait tm (RwWait r) WAIT_NOTIMEOUT (FRwLoop lk r nlocks) s
               else fault s
             else rumpkern_sched nlocks None (FReturn 0) s)"

definition rw_enter :: "int \<Rightarrow> nat \<Rightarrow> st \<Rightarrow> st" where
  "rw_enter lk r s =
     (case rws s r of
        None \<Rightarrow> fault s
      | Some rw \<Rightarrow>
          let (rv, s) = rw_tryenter lk rw r s
          in if rv \<noteq> 0 then rumpkern_unsched None (FRwEnter lk r) s else ret 0 s)"

definition rw_exit :: "nat \<Rightarrow> st \<Rightarrow> st" where
  "rw_exit r s =
     (case rws s r of
        None \<Rightarrow> fault s
      | Some rw \<Rightarrow>
          let rw = (if rw_o rw \<noteq> 0 then rw\<lparr>rw_o := 0\<rparr> else rw\<lparr>rw_v := rw_v rw - 1\<rparr>);
              s = s\<lparr>rws := (rws s)(r \<mapsto> rw)\<rparr>
          in if wq s (WwWait r) \<noteq> [] then
               ret 0 (if rw_o rw = 0 then wakeup_one (WwWait r) s else s)
             else if wq s (RwWait r) \<noteq> [] \<and> rw_o rw = 0 then ret 0 (wakeup_all (RwWait r) s)
             else ret 0 s)"

definition rw_destroy :: "nat \<Rightarrow> st \<Rightarrow> st" where
  "rw_destroy r s = (case rws s r of None \<Rightarrow> fault s | Some rw \<Rightarrow> ret 0 (s\<lparr>rws := (rws s)(r := None)\<rparr>))"

text \<open>\<open>None\<close>: the result is not written.\<close>

definition rw_held :: "int \<Rightarrow> rwlock \<Rightarrow> st \<Rightarrow> bool option" where
  "rw_held lk rw s =
     (if lk = RW_WRITER then Some (rw_o rw = curlwp s)
      else if lk = RW_READER then Some (0 < rw_v rw)
      else None)"

definition rw_downgrade :: "nat \<Rightarrow> st \<Rightarrow> st" where
  "rw_downgrade r s =
     (case rws s r of
        None \<Rightarrow> fault s
      | Some rw \<Rightarrow> if rw_o rw = curlwp s then ret 0 (s\<lparr>rws := (rws s)(r \<mapsto> rw\<lparr>rw_v := -1\<rparr>)\<rparr>) else abort_st s)"

definition rw_tryupgrade :: "nat \<Rightarrow> st \<Rightarrow> st" where
  "rw_tryupgrade r s =
     (case rws s r of
        None \<Rightarrow> fault s
      | Some rw \<Rightarrow>
          if rw_v rw = -1 then ret 0 (s\<lparr>rws := (rws s)(r \<mapsto> rw\<lparr>rw_v := 1, rw_o := curlwp s\<rparr>)\<rparr>)
          else ret (errno_val EBUSY) s)"

section \<open>Condition variables\<close>

definition cv_init :: "nat \<Rightarrow> st \<Rightarrow> st" where
  "cv_init c s = s\<lparr>cvs := (cvs s)(c \<mapsto> \<lparr>nwaiters = 0\<rparr>), wq := (wq s)(CvWaiters c := [])\<rparr>"

definition cv_destroy :: "nat \<Rightarrow> st \<Rightarrow> st" where
  "cv_destroy c s =
     (case cvs s c of
        None \<Rightarrow> fault s
      | Some x \<Rightarrow> if nwaiters x = 0 then ret 0 (s\<lparr>cvs := (cvs s)(c := None)\<rparr>) else abort_st s)"

text \<open>\<open>cv->nwaiters++\<close> and \<open>cv->nwaiters--\<close>.\<close>

definition cv_add :: "nat \<Rightarrow> int \<Rightarrow> st \<Rightarrow> st" where
  "cv_add c d s = s\<lparr>cvs := (cvs s)(c := map_option (nwaiters_update (\<lambda>n. n + d)) (cvs s c))\<rparr>"

text \<open>\<open>cv_wait\<close> and \<open>cv_timedwait\<close> up to the hypercall in \<open>cv_unsched\<close>.\<close>

definition cv_wait_nsec :: "nat \<Rightarrow> nat \<Rightarrow> int \<Rightarrow> st \<Rightarrow> st" where
  "cv_wait_nsec c m nsec s =
     (if cvs s c = None then fault s
      else rumpkern_unsched (Some m) (FCvUnsched c m nsec) (cv_add c 1 s))"

definition cv_wait :: "nat \<Rightarrow> nat \<Rightarrow> st \<Rightarrow> st" where
  "cv_wait c m s = cv_wait_nsec c m WAIT_NOTIMEOUT s"

definition cv_timedwait :: "nat \<Rightarrow> nat \<Rightarrow> int \<Rightarrow> int \<Rightarrow> st \<Rightarrow> st" where
  "cv_timedwait c m sec nsec s = cv_wait_nsec c m (nsecs sec nsec) s"

text \<open>The rest of \<open>cv_unsched\<close> and the wait.\<close>

definition cv_unsched :: "int \<Rightarrow> nat \<Rightarrow> nat \<Rightarrow> int \<Rightarrow> int \<Rightarrow> st \<Rightarrow> st" where
  "cv_unsched tm c m nsec nlocks s =
     (let s = mutex_exit m s
      in if ctl s = Aborted \<or> ctl s = Fault then s
         else wait tm (CvWaiters c) nsec (FCvWait c m nlocks) s)"

text \<open>\<open>cv_resched\<close>, with the order of its two steps by the kind of mutex.\<close>

definition cv_resched :: "nat \<Rightarrow> nat \<Rightarrow> int \<Rightarrow> int \<Rightarrow> st \<Rightarrow> st" where
  "cv_resched c m nlocks rv s =
     (case mtxs s m of
        None \<Rightarrow> fault s
      | Some mt \<Rightarrow>
          if m_flags mt AND (MTX_KMUTEX OR MTX_SPIN) = MTX_KMUTEX OR MTX_SPIN
          then rumpkern_sched nlocks (Some m) (FCvSpin c m rv) s
          else
            let s = mutex_enter_nowrap m s
            in if ctl s = Aborted \<or> ctl s = Fault then s
               else rumpkern_sched nlocks (Some m) (FCvDone c rv) s)"

definition cv_done :: "nat \<Rightarrow> int \<Rightarrow> st \<Rightarrow> st" where
  "cv_done c rv s = ret rv (cv_add c (-1) s)"

text \<open>Behind the hypercall for a spin mutex, and behind the wait of \<open>cv_wait_nowrap\<close>.\<close>

definition cv_relock :: "nat \<Rightarrow> nat \<Rightarrow> int \<Rightarrow> st \<Rightarrow> st" where
  "cv_relock c m rv s =
     (let s = mutex_enter_nowrap m s
      in if ctl s = Aborted \<or> ctl s = Fault then s else cv_done c rv s)"

definition cv_wait_nowrap :: "int \<Rightarrow> nat \<Rightarrow> nat \<Rightarrow> st \<Rightarrow> st" where
  "cv_wait_nowrap tm c m s =
     (if cvs s c = None then fault s
      else
        let s = mutex_exit m (cv_add c 1 s)
        in if ctl s = Aborted \<or> ctl s = Fault then s
           else wait tm (CvWaiters c) WAIT_NOTIMEOUT (FCvNowrap c m) s)"

definition cv_signal :: "nat \<Rightarrow> st \<Rightarrow> st" where
  "cv_signal c s = (if cvs s c = None then fault s else ret 0 (wakeup_one (CvWaiters c) s))"

definition cv_broadcast :: "nat \<Rightarrow> st \<Rightarrow> st" where
  "cv_broadcast c s = (if cvs s c = None then fault s else ret 0 (wakeup_all (CvWaiters c) s))"

definition cv_has_waiters :: "nat \<Rightarrow> st \<Rightarrow> bool" where
  "cv_has_waiters c s \<longleftrightarrow> (case cvs s c of None \<Rightarrow> False | Some x \<Rightarrow> nwaiters x \<noteq> 0)"

section \<open>The machine\<close>

text \<open>What a function of the library does when the call it waits for returns \<open>v\<close>.\<close>

fun resume :: "int \<Rightarrow> frame \<Rightarrow> int \<Rightarrow> st \<Rightarrow> st" where
  "resume tm (FHook h) v s = s"
| "resume tm (FWait wh) v s = wait_resume wh s"
| "resume tm FYield v s = ret 0 s"
| "resume tm (FSleep nlocks) v s = rumpkern_sched nlocks None (FReturn 0) s"
| "resume tm (FClock clk ns) v s = clock_sleep_unsched tm clk ns v s"
| "resume tm (FJoin j) v s = join_resume j s"
| "resume tm FExit v s = exit_loop s"
| "resume tm FExited v s = call_schedule FExited s"
| "resume tm (FReturn rv) v s = ret rv s"
| "resume tm (FMutexEnter m) v s = mutex_loop tm m v s"
| "resume tm (FMutexLoop m n) v s = mutex_loop tm m n s"
| "resume tm (FRwEnter lk r) v s = rw_loop tm lk r v s"
| "resume tm (FRwLoop lk r n) v s = rw_loop tm lk r n s"
| "resume tm (FCvUnsched c m nsec) v s = cv_unsched tm c m nsec v s"
| "resume tm (FCvWait c m n) v s = cv_resched c m n v s"
| "resume tm (FCvSpin c m rv) v s = cv_relock c m rv s"
| "resume tm (FCvDone c rv) v s = cv_done c rv s"
| "resume tm (FCvNowrap c m) v s = cv_relock c m 0 s"

text \<open>The calls that code outside the library makes.\<close>

datatype lib_call =
    CSchedule | CWake nat | CSetLwp nat | CSetCookie nat
  | CCreate nat bool nat bool bool | CExit | CJoin nat | CClockSleep int int int
  | CMutexInit nat "32 word" | CMutexEnter nat | CMutexEnterNowrap nat | CMutexTryenter nat
  | CMutexExit nat | CMutexDestroy nat
  | CRwInit nat | CRwEnter int nat | CRwTryenter int nat | CRwExit nat | CRwDestroy nat
  | CRwDowngrade nat | CRwTryupgrade nat
  | CCvInit nat | CCvDestroy nat | CCvWait nat nat | CCvWaitNowrap nat nat
  | CCvTimedwait nat nat int int | CCvSignal nat | CCvBroadcast nat

fun do_call :: "int \<Rightarrow> lib_call \<Rightarrow> st \<Rightarrow> st" where
  "do_call tm CSchedule s = call_schedule FYield s"
| "do_call tm (CWake t) s = (if threads s t = None then fault s else ret 0 (wake t s))"
| "do_call tm (CSetLwp l) s = ret 0 (set_curlwp l s)"
| "do_call tm (CSetCookie c) s = ret 0 (upd_thread (current_thread s) (cookie_update (\<lambda>_. c)) s)"
| "do_call tm (CCreate t mapped ck ext j) s =
     (case create_thread (Some t) mapped ck ext j s of (v, s) \<Rightarrow> ret (int v) s)"
| "do_call tm CExit s = exit_thread s"
| "do_call tm (CJoin t) s = join_thread t s"
| "do_call tm (CClockSleep clk sec nsec) s = clock_sleep clk sec nsec s"
| "do_call tm (CMutexInit m fl) s = ret 0 (mutex_init m fl s)"
| "do_call tm (CMutexEnter m) s = mutex_enter m s"
| "do_call tm (CMutexEnterNowrap m) s = mutex_enter_nowrap m s"
| "do_call tm (CMutexTryenter m) s =
     (case mtxs s m of None \<Rightarrow> fault s | Some mt \<Rightarrow> (case mutex_tryenter mt m s of (rv, s) \<Rightarrow> ret rv s))"
| "do_call tm (CMutexExit m) s = mutex_exit m s"
| "do_call tm (CMutexDestroy m) s = mutex_destroy m s"
| "do_call tm (CRwInit r) s = ret 0 (rw_init r s)"
| "do_call tm (CRwEnter lk r) s = rw_enter lk r s"
| "do_call tm (CRwTryenter lk r) s =
     (case rws s r of None \<Rightarrow> fault s | Some rw \<Rightarrow> (case rw_tryenter lk rw r s of (rv, s) \<Rightarrow> ret rv s))"
| "do_call tm (CRwExit r) s = rw_exit r s"
| "do_call tm (CRwDestroy r) s = rw_destroy r s"
| "do_call tm (CRwDowngrade r) s = rw_downgrade r s"
| "do_call tm (CRwTryupgrade r) s = rw_tryupgrade r s"
| "do_call tm (CCvInit c) s = ret 0 (cv_init c s)"
| "do_call tm (CCvDestroy c) s = cv_destroy c s"
| "do_call tm (CCvWait c m) s = cv_wait c m s"
| "do_call tm (CCvWaitNowrap c m) s = cv_wait_nowrap tm c m s"
| "do_call tm (CCvTimedwait c m sec nsec) s = cv_timedwait c m sec nsec s"
| "do_call tm (CCvSignal c) s = cv_signal c s"
| "do_call tm (CCvBroadcast c) s = cv_broadcast c s"

text \<open>
  What \<open>calloc\<close> and the callers guarantee: a new object is at an address not in use (not NULL),
  and a thread exits from its own code, not from a hypercall.
\<close>

fun call_ok :: "lib_call \<Rightarrow> st \<Rightarrow> bool" where
  "call_ok (CCreate t mapped ck ext j) s \<longleftrightarrow> t \<noteq> 0 \<and> threads s t = None"
| "call_ok (CMutexInit m fl) s \<longleftrightarrow> mtxs s m = None"
| "call_ok (CRwInit r) s \<longleftrightarrow> rws s r = None"
| "call_ok (CCvInit c) s \<longleftrightarrow> cvs s c = None"
| "call_ok CExit s \<longleftrightarrow> stk s (current_thread s) = []"
| "call_ok _ s \<longleftrightarrow> True"

definition is_hook :: "frame \<Rightarrow> bool" where
  "is_hook f \<longleftrightarrow> (\<exists>h. f = FHook h)"

inductive step :: "st \<Rightarrow> st \<Rightarrow> bool" where
  call: "ctl s = User \<Longrightarrow> call_ok c s \<Longrightarrow> step s (do_call tm c s)"
| hook_return: "ctl s = User \<Longrightarrow> stk s (current_thread s) = FHook h # fs \<Longrightarrow> step s (ret n (pop s))"
| return_user: "ctl s = Ret v \<Longrightarrow> stk s (current_thread s) = [] \<or> is_hook (hd (stk s (current_thread s))) \<Longrightarrow>
    step s (s\<lparr>ctl := User\<rparr>)"
| return_frame: "ctl s = Ret v \<Longrightarrow> stk s (current_thread s) = f # fs \<Longrightarrow> \<not> is_hook f \<Longrightarrow>
    step s (resume tm f v (pop s))"
| sched: "ctl s = Scheduling \<Longrightarrow> \<forall>(tm, woken) \<in> set env. set woken \<subseteq> dom (threads s) \<Longrightarrow>
    schedule env s = Some s' \<Longrightarrow> step s s'"

text \<open>The states of a run of the library.\<close>

inductive reachable :: "st \<Rightarrow> bool" where
  init: "reachable init_sched"
| step: "reachable s \<Longrightarrow> step s s' \<Longrightarrow> reachable s'"

end
