(* ===== verification/Sched_Inv.thy ===== *)
theory Sched_Inv
  imports Sync
begin

text \<open>
  Invariants of the thread library over every run of the machine of theory \<open>Sync\<close>.
  \<open>base\<close> is the consistency of the thread lists, the wait queues and the stacks;
  \<open>run_inv\<close> adds what holds while the current thread executes library code;
  \<open>sched_inv\<close> is the invariant of the machine's states.  Each operation takes
  \<open>run_inv\<close> to \<open>sched_inv\<close>.
\<close>

section \<open>Consistency\<close>

definition stack_ok :: "frame list \<Rightarrow> bool" where
  "stack_ok fs \<longleftrightarrow>
     (\<forall>q. FWait q \<notin> set (tl fs)) \<and> FExit \<notin> set (butlast fs) \<and>
     (\<forall>m fs'. fs = FWait (MtxWaiters m) # fs' \<longrightarrow> (\<exists>n fs''. fs' = FMutexLoop m n # fs''))"

definition base :: "st \<Rightarrow> bool" where
  "base s \<longleftrightarrow>
     distinct (thread_list s @ exited_threads s) \<and>
     dom (threads s) = set (thread_list s) \<union> set (exited_threads s) \<and>
     (\<forall>t \<in> set (exited_threads s). stk s t = [FExited]) \<and>
     (\<forall>q. distinct (wq s q)) \<and>
     (\<forall>q. \<forall>t \<in> set (wq s q). t \<in> set (thread_list s) \<and> onlist s t \<and> (\<exists>fs. stk s t = FWait q # fs)) \<and>
     (\<forall>t. stack_ok (stk s t))"

definition run_inv :: "st \<Rightarrow> bool" where
  "run_inv s \<longleftrightarrow>
     base s \<and> current_thread s \<in> set (thread_list s) \<and> (\<forall>q. FWait q \<notin> set (stk s (current_thread s)))"

definition sched_inv :: "st \<Rightarrow> bool" where
  "sched_inv s \<longleftrightarrow>
     base s \<and>
     (case ctl s of
        User \<Rightarrow> current_thread s \<in> set (thread_list s) \<and>
                (stk s (current_thread s) = [] \<or> is_hook (hd (stk s (current_thread s))))
      | Ret v \<Rightarrow> current_thread s \<in> set (thread_list s)
      | Scheduling \<Rightarrow> current_thread s \<in> set (thread_list s) \<union> set (exited_threads s)
      | _ \<Rightarrow> True)"

subsection \<open>Field updates that do not matter\<close>

lemma base_simps [simp]:
  "base (s\<lparr>mtxs := a\<rparr>) = base s" "base (s\<lparr>rws := b\<rparr>) = base s" "base (s\<lparr>cvs := c\<rparr>) = base s"
  "base (s\<lparr>joinwq := d\<rparr>) = base s" "base (s\<lparr>ctl := e\<rparr>) = base s" "base (s\<lparr>current_thread := f\<rparr>) = base s"
  by (simp_all add: base_def)

lemma run_inv_simps [simp]:
  "run_inv (s\<lparr>mtxs := a\<rparr>) = run_inv s" "run_inv (s\<lparr>rws := b\<rparr>) = run_inv s" "run_inv (s\<lparr>cvs := c\<rparr>) = run_inv s"
  "run_inv (s\<lparr>joinwq := d\<rparr>) = run_inv s" "run_inv (s\<lparr>ctl := e\<rparr>) = run_inv s"
  by (simp_all add: run_inv_def)

lemma run_inv_base: "run_inv s \<Longrightarrow> base s"
  by (simp add: run_inv_def)

lemma upd_thread_sel [simp]:
  "thread_list (upd_thread t f s) = thread_list s" "exited_threads (upd_thread t f s) = exited_threads s"
  "current_thread (upd_thread t f s) = current_thread s" "joinwq (upd_thread t f s) = joinwq s"
  "wq (upd_thread t f s) = wq s" "onlist (upd_thread t f s) = onlist s" "mtxs (upd_thread t f s) = mtxs s"
  "rws (upd_thread t f s) = rws s" "cvs (upd_thread t f s) = cvs s" "stk (upd_thread t f s) = stk s"
  "ctl (upd_thread t f s) = ctl s"
  by (simp_all add: upd_thread_def)

lemma dom_upd_thread [simp]: "dom (threads (upd_thread t f s)) = dom (threads s)"
  by (auto simp: upd_thread_def dom_def)

lemma upd_thread_None [simp]: "threads (upd_thread t f s) u = None \<longleftrightarrow> threads s u = None"
  by (simp add: upd_thread_def)

lemmas thread_ops = set_runnable_def clear_runnable_def set_wakeup_def set_flag_def clear_flag_def
  wake_def block_def set_curlwp_def

lemma base_upd_thread [simp]: "base (upd_thread t f s) = base s"
  by (simp add: base_def)

lemma run_inv_upd_thread [simp]: "run_inv (upd_thread t f s) = run_inv s"
  by (simp add: run_inv_def)

lemma thr_upd_thread:
  "thr (upd_thread t f s) u = (if u = t \<and> threads s t \<noteq> None then f (thr s t) else thr s u)"
  by (auto simp: thr_def upd_thread_def split: option.split)

subsection \<open>Ends of operations\<close>

lemma stack_ok_push: "stack_ok fs \<Longrightarrow> (\<forall>q. FWait q \<notin> set fs) \<Longrightarrow> f \<noteq> FExit \<or> fs = [] \<Longrightarrow> (\<forall>q. f \<noteq> FWait q) \<Longrightarrow>
   stack_ok (f # fs)"
  by (cases fs) (auto simp: stack_ok_def)

lemma stack_ok_tl: "stack_ok (f # fs) \<Longrightarrow> stack_ok fs \<and> (\<forall>q. FWait q \<notin> set fs)"
  by (cases fs) (auto simp: stack_ok_def)

lemma run_inv_push:
  assumes "run_inv s" and "f \<noteq> FExit \<or> stk s (current_thread s) = []" and "\<forall>q. f \<noteq> FWait q"
  shows "run_inv (push f s)"
proof -
  let ?c = "current_thread s"
  have nw: "?c \<notin> set (wq s q)" for q
    using assms(1) by (force simp: run_inv_def base_def)
  have ex: "?c \<notin> set (exited_threads s)" using assms(1) by (auto simp: run_inv_def base_def)
  have "stack_ok (f # stk s ?c)"
    using assms by (intro stack_ok_push) (auto simp: run_inv_def base_def)
  then have "base (push f s)"
    using assms(1) nw ex by (auto simp: run_inv_def base_def push_def)
  with assms show ?thesis by (auto simp: run_inv_def push_def)
qed

lemma sched_inv_ret [intro!]: "run_inv s \<Longrightarrow> sched_inv (ret v s)"
  by (simp add: sched_inv_def ret_def run_inv_def)

lemma sched_inv_stop [intro!]: "base s \<Longrightarrow> sched_inv (abort_st s)" "base s \<Longrightarrow> sched_inv (fault s)"
  by (simp_all add: sched_inv_def abort_st_def fault_def)

lemma sched_inv_unsched [intro!]:
  assumes "run_inv s" and "f \<noteq> FExit" and "\<forall>q. f \<noteq> FWait q"
  shows "sched_inv (rumpkern_unsched i f s)"
proof -
  have "run_inv (push (FHook (HUnsched i)) (push f s))"
    using assms by (intro run_inv_push) auto
  then show ?thesis by (auto simp: sched_inv_def run_inv_def rumpkern_unsched_def is_hook_def push_def)
qed

lemma sched_inv_sched [intro!]:
  assumes "run_inv s" and "f \<noteq> FExit" and "\<forall>q. f \<noteq> FWait q"
  shows "sched_inv (rumpkern_sched n i f s)"
proof -
  have "run_inv (push (FHook (HSched n i)) (push f s))"
    using assms by (intro run_inv_push) auto
  then show ?thesis by (auto simp: sched_inv_def run_inv_def rumpkern_sched_def is_hook_def push_def)
qed

lemma sched_inv_call_schedule [intro!]:
  assumes "run_inv s" and "f \<noteq> FExit \<or> stk s (current_thread s) = []" and "\<forall>q. f \<noteq> FWait q"
  shows "sched_inv (call_schedule f s)"
  using run_inv_push [OF assms] by (simp add: sched_inv_def run_inv_def call_schedule_def push_def)

text \<open>Entering a wait queue.\<close>

lemma sched_inv_wait [intro!]:
  assumes inv: "run_inv s" and f: "f \<noteq> FExit" "\<forall>q. f \<noteq> FWait q"
    and mtx: "\<forall>m. wh = MtxWaiters m \<longrightarrow> (\<exists>n. f = FMutexLoop m n)"
  shows "sched_inv (wait tm wh nsec f s)"
proof (cases "nsec = 0")
  case True
  with inv show ?thesis by (auto simp: wait_def intro: run_inv_base)
next
  case False
  let ?c = "current_thread s"
  have ok: "stack_ok (f # stk s ?c)"
    using inv f by (intro stack_ok_push) (auto simp: run_inv_def base_def)
  have "stack_ok (FWait wh # f # stk s ?c)"
    using ok f mtx inv by (auto simp: stack_ok_def run_inv_def)
  moreover have "?c \<notin> set (wq s q)" for q
    using inv by (force simp: run_inv_def base_def)
  moreover have "?c \<notin> set (exited_threads s)" using inv by (auto simp: run_inv_def base_def)
  ultimately have "base (wait tm wh nsec f s)"
    using inv False
    by (auto simp: run_inv_def base_def wait_def Let_def sched_defs thread_ops)
  with inv False show ?thesis
    by (simp add: sched_inv_def run_inv_def wait_def Let_def sched_defs thread_ops)
qed

subsection \<open>Wake-ups\<close>

lemma base_wqD:
  "base s \<Longrightarrow> t \<in> set (wq s q) \<Longrightarrow> t \<in> set (thread_list s) \<and> onlist s t \<and> (\<exists>fs. stk s t = FWait q # fs)"
  unfolding base_def by blast

lemma base_wakeup:
  assumes "base s" and "wq s wh = w # ws"
  shows "base (s\<lparr>wq := (wq s)(wh := ws), onlist := (onlist s)(w := False)\<rparr>)"
proof -
  have "w \<notin> set (wq s q)" if "q \<noteq> wh" for q
  proof
    assume "w \<in> set (wq s q)"
    from base_wqD [OF assms(1) this] base_wqD [OF assms(1), of w wh] assms(2) that show False by auto
  qed
  moreover have "distinct (w # ws)" using assms by (metis base_def)
  moreover have "\<forall>t \<in> set ws. t \<in> set (thread_list s) \<and> onlist s t \<and> (\<exists>fs. stk s t = FWait wh # fs)"
    using base_wqD [OF assms(1), of _ wh] assms(2) by simp
  ultimately show ?thesis using assms unfolding base_def by auto
qed

lemma base_wakeup_one: "base s \<Longrightarrow> base (wakeup_one wh s)"
  using base_wakeup by (auto simp: wakeup_one_def thread_ops split: list.split)

lemma base_wakeup_list: "base s \<Longrightarrow> wq s wh = ws \<Longrightarrow> base (wakeup_list ws wh s)"
proof (induction ws arbitrary: s)
  case (Cons w ws)
  from base_wakeup [OF Cons.prems] show ?case by (simp add: Cons.IH thread_ops)
qed simp

lemma wakeup_sel [simp]:
  "current_thread (wakeup_one wh s) = current_thread s" "thread_list (wakeup_one wh s) = thread_list s"
  "stk (wakeup_one wh s) = stk s" "mtxs (wakeup_one wh s) = mtxs s" "rws (wakeup_one wh s) = rws s"
  "cvs (wakeup_one wh s) = cvs s" "ctl (wakeup_one wh s) = ctl s" "joinwq (wakeup_one wh s) = joinwq s"
  "exited_threads (wakeup_one wh s) = exited_threads s"
  by (simp_all add: wakeup_one_def thread_ops split: list.split)

lemma wakeup_list_sel [simp]:
  "current_thread (wakeup_list ws wh s) = current_thread s" "thread_list (wakeup_list ws wh s) = thread_list s"
  "stk (wakeup_list ws wh s) = stk s" "mtxs (wakeup_list ws wh s) = mtxs s" "rws (wakeup_list ws wh s) = rws s"
  "cvs (wakeup_list ws wh s) = cvs s" "ctl (wakeup_list ws wh s) = ctl s"
  "exited_threads (wakeup_list ws wh s) = exited_threads s"
  by (induction ws arbitrary: s) (simp_all add: thread_ops)

lemma run_inv_wakeup [intro!]: "run_inv s \<Longrightarrow> run_inv (wakeup_one wh s)" "run_inv s \<Longrightarrow> run_inv (wakeup_all wh s)"
  by (simp_all add: run_inv_def wakeup_all_def base_wakeup_one base_wakeup_list)

lemma run_inv_wake [simp]:
  "run_inv (wake t s) = run_inv s" "run_inv (block t s) = run_inv s" "run_inv (set_flag t m s) = run_inv s"
  "run_inv (clear_flag t m s) = run_inv s" "run_inv (clear_runnable t s) = run_inv s"
  "run_inv (set_wakeup t w s) = run_inv s" "run_inv (set_curlwp l s) = run_inv s"
  by (simp_all add: thread_ops)

section \<open>Operations keep the invariant\<close>

lemmas op_defs = mutex_loop_def mutex_enter_def mutex_enter_nowrap_def mutex_exit_def mutex_destroy_def
  mutex_tryenter_def rw_loop_def rw_enter_def rw_tryenter_def rw_exit_def rw_destroy_def rw_downgrade_def
  rw_tryupgrade_def

lemma mutex_tryenter_run_inv: "run_inv s \<Longrightarrow> run_inv (snd (mutex_tryenter mt m s))"
  by (simp add: mutex_tryenter_def Let_def)

lemma rw_tryenter_run_inv: "run_inv s \<Longrightarrow> run_inv (snd (rw_tryenter lk rw r s))"
  by (simp add: rw_tryenter_def)

lemma mutex_inv [intro]:
  assumes "run_inv s"
  shows "sched_inv (mutex_loop tm m n s)" "sched_inv (mutex_enter m s)"
    "sched_inv (mutex_enter_nowrap m s)" "sched_inv (mutex_exit m s)" "sched_inv (mutex_destroy m s)"
  using assms
  by (auto simp: op_defs Let_def intro: run_inv_base split: option.split)

lemma rw_inv [intro]:
  assumes "run_inv s"
  shows "sched_inv (rw_loop tm lk r n s)" "sched_inv (rw_enter lk r s)" "sched_inv (rw_exit r s)"
    "sched_inv (rw_destroy r s)" "sched_inv (rw_downgrade r s)" "sched_inv (rw_tryupgrade r s)"
  using assms
  by (auto simp: op_defs Let_def intro: run_inv_base split: option.split)

text \<open>\<open>mutex_exit\<close> and \<open>mutex_enter_nowrap\<close> inside a condition variable operation.\<close>

lemma mutex_step_run_inv:
  assumes "run_inv s"
  shows "run_inv (mutex_exit m s)" "run_inv (mutex_enter_nowrap m s)"
  using assms by (auto simp: op_defs Let_def sched_defs split: option.split)

lemma cv_add_run_inv [simp]: "run_inv (cv_add c d s) = run_inv s" "base (cv_add c d s) = base s"
  by (simp_all add: cv_add_def)

lemma sched_inv_stopped: "run_inv s \<Longrightarrow> ctl s = Aborted \<or> ctl s = Fault \<Longrightarrow> sched_inv s"
  by (auto simp: sched_inv_def run_inv_def)

lemma cv_inv [intro]:
  assumes "run_inv s"
  shows "sched_inv (cv_wait c m s)" "sched_inv (cv_timedwait c m sec nsec s)"
    "sched_inv (cv_unsched tm c m nsec n s)" "sched_inv (cv_resched c m n rv s)"
    "sched_inv (cv_relock c m rv s)" "sched_inv (cv_done c rv s)" "sched_inv (cv_wait_nowrap tm c m s)"
    "sched_inv (cv_signal c s)" "sched_inv (cv_broadcast c s)" "sched_inv (cv_destroy c s)"
  using assms mutex_step_run_inv [OF assms] mutex_step_run_inv(1) [of "cv_add c 1 s" m]
  by (auto simp: cv_wait_def cv_timedwait_def cv_wait_nsec_def cv_unsched_def cv_resched_def cv_relock_def
      cv_done_def cv_wait_nowrap_def cv_signal_def cv_broadcast_def cv_destroy_def Let_def
      intro: run_inv_base sched_inv_stopped split: option.split)

lemma sleep_inv [intro]:
  assumes "run_inv s"
  shows "sched_inv (clock_sleep clk sec nsec s)" "sched_inv (clock_sleep_unsched tm clk ns n s)"
  using assms by (auto simp: clock_sleep_def clock_sleep_unsched_def nsleep_def absnanosleep_def Let_def)

lemma join_inv [intro]:
  assumes "run_inv s"
  shows "sched_inv (join_thread j s)" "sched_inv (join_resume j s)"
  using assms by (auto simp: join_thread_def join_resume_def join_loop_def Let_def intro: run_inv_base)

lemma exit_inv:
  assumes inv: "run_inv s" and e: "stk s (current_thread s) = []"
  shows "sched_inv (exit_loop s)"
proof (cases "has_flag (flags (thr s (current_thread s))) THREAD_MUSTJOIN")
  case True
  with assms show ?thesis
    by (auto simp: exit_loop_def Let_def get_current_def thread_ops split: option.split)
next
  case False
  let ?c = "current_thread s"
  have "?c \<notin> set (wq s q)" for q using inv e base_wqD by (fastforce simp: run_inv_def)
  moreover have "stack_ok [FExited]" by (simp add: stack_ok_def)
  ultimately have "base (exit_loop s)"
    using False inv e
    by (auto simp: exit_loop_def Let_def sched_defs thread_ops base_def run_inv_def distinct_remove1 notin_set_remove1)
  with False show ?thesis
    by (simp add: sched_inv_def exit_loop_def Let_def sched_defs thread_ops)
qed

lemma wait_resume_inv:
  assumes inv: "sched_inv s" and c: "ctl s = Ret v" and st: "stk s (current_thread s) = FWait q # fs"
  shows "sched_inv (wait_resume q (pop s))"
proof -
  let ?c = "current_thread s"
  from inv have b: "base s" by (simp add: sched_inv_def)
  have "stack_ok (FWait q # fs)" using b st by (metis base_def)
  from stack_ok_tl [OF this] have fs: "stack_ok fs" by blast
  have oth: "?c \<notin> set (wq s q')" if "q' \<noteq> q" for q' using base_wqD [OF b, of ?c q'] st that by auto
  have ex: "?c \<notin> set (exited_threads s)" using b st by (auto simp: base_def)
  have cl: "?c \<in> set (thread_list s)" using inv c by (simp add: sched_inv_def)
  show ?thesis
  proof (cases "onlist s ?c")
    case True
    have "base (wait_resume q (pop s))"
      using True b st oth ex fs unfolding base_def
      by (auto simp: wait_resume_def sched_defs Let_def)
    with True cl show ?thesis by (simp add: sched_inv_def wait_resume_def sched_defs Let_def)
  next
    case False
    then have "?c \<notin> set (wq s q')" for q' using base_wqD [OF b, of ?c q'] by blast
    then have "base (wait_resume q (pop s))"
      using False b st ex fs unfolding base_def
      by (auto simp: wait_resume_def sched_defs Let_def)
    with False cl show ?thesis by (simp add: sched_inv_def wait_resume_def sched_defs Let_def)
  qed
qed

lemma pop_run_inv:
  assumes inv: "sched_inv s" and c: "ctl s = Ret v \<or> ctl s = User" and st: "stk s (current_thread s) = f # fs"
    and nw: "\<forall>q. f \<noteq> FWait q"
  shows "run_inv (pop s)"
proof -
  let ?c = "current_thread s"
  from inv have b: "base s" by (simp add: sched_inv_def)
  have "stack_ok (f # fs)" using b st by (metis base_def)
  note fs = stack_ok_tl [OF this]
  have nin: "?c \<notin> set (wq s q')" for q' using base_wqD [OF b, of ?c q'] st nw by auto
  have cl: "?c \<in> set (thread_list s)" using inv c by (auto simp: sched_inv_def)
  then have ex: "?c \<notin> set (exited_threads s)" using b by (auto simp: base_def)
  show ?thesis
    using b st fs nin ex cl unfolding run_inv_def base_def by (auto simp: sched_defs)
qed

lemma user_run_inv:
  assumes inv: "sched_inv s" and c: "ctl s = User"
  shows "run_inv s"
proof -
  let ?c = "current_thread s"
  have "stack_ok (stk s ?c)" using inv by (simp add: sched_inv_def base_def)
  moreover have "stk s ?c = [] \<or> is_hook (hd (stk s ?c))" using inv c by (simp add: sched_inv_def)
  ultimately have "\<forall>q. FWait q \<notin> set (stk s ?c)"
    by (cases "stk s ?c") (auto simp: stack_ok_def is_hook_def)
  with inv c show ?thesis by (simp add: sched_inv_def run_inv_def)
qed

section \<open>The scheduler\<close>

text \<open>What the scheduler changes: flags and wake-up times, and the place of the chosen thread.\<close>

definition moved :: "nat \<Rightarrow> st \<Rightarrow> st \<Rightarrow> bool" where
  "moved n s s' \<longleftrightarrow>
     n \<in> set (thread_list s) \<and>
     (\<exists>th. dom th = dom (threads s) \<and>
        s' = s\<lparr>threads := th, thread_list := remove1 n (thread_list s) @ [n]\<rparr>)"

lemma scan_moved:
  assumes "scan tm wk ts s = (r, wk', s')" and "set ts \<subseteq> set (thread_list s)"
  shows "case r of Some n \<Rightarrow> moved n s s' | None \<Rightarrow> \<exists>th. dom th = dom (threads s) \<and> s' = s\<lparr>threads := th\<rparr>"
  using assms
proof (induction tm wk ts s rule: scan.induct)
  case (1 tm wk s)
  then show ?case by (auto intro!: exI [of _ "threads s'"])
next
  case (2 tm wk t ts s)
  define ex where "ex \<longleftrightarrow> \<not> is_runnable s t \<and> 0 \<le> wakeup_time (thr s t) \<and> wakeup_time (thr s t) \<le> tm"
  define s1 where "s1 = (if ex then wake t (set_flag t THREAD_TIMEDOUT s) else s)"
  define w1 where "w1 = (if \<not> is_runnable s t \<and> 0 \<le> wakeup_time (thr s t) \<and> \<not> wakeup_time (thr s t) \<le> tm \<and>
      wakeup_time (thr s t) < wk then wakeup_time (thr s t) else wk)"
  have sc: "scan tm wk (t # ts) s = (if is_runnable s1 t
      then (Some t, w1, s1\<lparr>thread_list := remove1 t (thread_list s1) @ [t]\<rparr>) else scan tm w1 ts s1)"
    by (simp add: Let_def s1_def w1_def ex_def)
  obtain th where th: "dom th = dom (threads s)" "s1 = s\<lparr>threads := th\<rparr>"
  proof -
    have "dom (threads s1) = dom (threads s)" by (simp add: s1_def thread_ops)
    moreover have "s1 = s\<lparr>threads := threads s1\<rparr>" by (simp add: s1_def thread_ops upd_thread_def)
    ultimately show ?thesis by (rule that)
  qed
  show ?case
  proof (cases "is_runnable s1 t")
    case True
    with sc 2(2) have "r = Some t" "s' = s1\<lparr>thread_list := remove1 t (thread_list s1) @ [t]\<rparr>" by auto
    with th 2(3) show ?thesis by (auto simp: moved_def)
  next
    case False
    with sc 2(2) have run: "scan tm w1 ts s1 = (r, wk', s')" by simp
    have "set ts \<subseteq> set (thread_list s1)" using 2(3) th(2) by simp
    with run False have "case r of Some n \<Rightarrow> moved n s1 s' | None \<Rightarrow> \<exists>th. dom th = dom (threads s1) \<and> s' = s1\<lparr>threads := th\<rparr>"
      using 2(1) by (simp add: s1_def w1_def ex_def Let_def)
    with th show ?thesis by (auto simp: moved_def split: option.splits)
  qed
qed

lemma wake_threads:
  "dom (threads (wake t s)) = dom (threads s)" "(wake t s)\<lparr>threads := th\<rparr> = s\<lparr>threads := th\<rparr>"
  by (simp add: thread_ops) (simp add: thread_ops upd_thread_def)

lemma fold_wake_threads: "\<exists>th. dom th = dom (threads s) \<and> fold wake ts s = s\<lparr>threads := th\<rparr>"
proof (induction ts arbitrary: s)
  case Nil
  then show ?case by (auto intro!: exI [of _ "threads s"])
next
  case (Cons t ts)
  obtain th where th: "dom th = dom (threads (wake t s))" "fold wake ts (wake t s) = (wake t s)\<lparr>threads := th\<rparr>"
    using Cons by blast
  then show ?case by (auto simp: wake_threads)
qed

lemma schedule_loop_moved: "schedule_loop env s = Some (n, s') \<Longrightarrow> moved n s s'"
proof (induction env s rule: schedule_loop.induct)
  case (2 tm woken env s)
  obtain r w s1 where sc: "scan tm (tm + 1000 * 1000) (thread_list s) s = (r, w, s1)" by (metis prod_cases3)
  note mv = scan_moved [OF sc order_refl]
  show ?case
  proof (cases r)
    case None
    obtain th where th: "dom th = dom (threads s1)" "fold wake woken s1 = s1\<lparr>threads := th\<rparr>"
      using fold_wake_threads by blast
    from mv None obtain th' where th': "dom th' = dom (threads s)" "s1 = s\<lparr>threads := th'\<rparr>" by auto
    have "moved n (fold wake woken s1) s'" using 2 sc None by auto
    with th th' show ?thesis by (auto simp: moved_def)
  next
    case (Some t)
    with 2 sc mv show ?thesis by auto
  qed
qed simp

lemma moved_sel:
  assumes "moved n s s'"
  shows "stk s' = stk s" "wq s' = wq s" "onlist s' = onlist s" "mtxs s' = mtxs s" "exited_threads s' = exited_threads s"
    "cvs s' = cvs s" "rws s' = rws s" "joinwq s' = joinwq s" "set (thread_list s') = set (thread_list s)"
    "n \<in> set (thread_list s')" "dom (threads s') = dom (threads s)"
    "thread_list s' = remove1 n (thread_list s) @ [n]"
proof -
  from assms obtain th where th: "dom th = dom (threads s)" "n \<in> set (thread_list s)"
    "s' = s\<lparr>threads := th, thread_list := remove1 n (thread_list s) @ [n]\<rparr>" unfolding moved_def by blast
  then show "stk s' = stk s" "wq s' = wq s" "onlist s' = onlist s" "mtxs s' = mtxs s" "exited_threads s' = exited_threads s"
    "cvs s' = cvs s" "rws s' = rws s" "joinwq s' = joinwq s" "set (thread_list s') = set (thread_list s)"
    "n \<in> set (thread_list s')" "dom (threads s') = dom (threads s)" "thread_list s' = remove1 n (thread_list s) @ [n]"
    using insert_set_remove1 [of n "thread_list s"] by simp_all
qed

lemma moved_base:
  assumes mv: "moved n s s'" and b: "base s"
  shows "base s'"
proof -
  have "distinct (thread_list s' @ exited_threads s')"
    using b moved_sel(5,9,12) [OF mv] by (auto simp: base_def distinct_remove1)
  with b show ?thesis unfolding base_def by (simp add: moved_sel(1-11) [OF mv])
qed

lemma reap_base:
  assumes b: "base s" and p: "p \<in> set (thread_list s)"
  shows "base (reap p s)"
proof -
  from b p have "filter (\<lambda>t. t = p) (exited_threads s) = []" by (auto simp: base_def filter_empty_conv)
  moreover have "dom (threads (reap p s)) = set (thread_list s)"
    using b p by (auto simp: reap_def base_def dom_def split: if_splits)
  ultimately show ?thesis using b by (auto simp: reap_def base_def)
qed

lemma switch_inv:
  assumes "base s" and "n \<in> set (thread_list s)"
  shows "sched_inv (switch_threads n s)"
  using assms reap_base [of "s\<lparr>current_thread := n\<rparr>" n]
  by (simp add: switch_threads_def Let_def sched_inv_def ret_def reap_def)

lemma schedule_inv:
  assumes inv: "sched_inv s" and run: "schedule env s = Some s'"
  shows "sched_inv s'"
proof -
  from run obtain n s1 where lp: "schedule_loop env s = Some (n, s1)" and s': "s' = switch_threads n s1"
    by (auto simp: schedule_def split: option.splits prod.splits)
  from schedule_loop_moved [OF lp] have mv: "moved n s s1" .
  have "base s1" using moved_base [OF mv] inv by (simp add: sched_inv_def)
  with moved_sel(10) [OF mv] show ?thesis unfolding s' by (intro switch_inv)
qed

section \<open>Every step keeps the invariant\<close>

lemma create_run_inv:
  assumes inv: "run_inv s" and new: "threads s t = None"
  shows "run_inv (snd (create_thread (Some t) mapped ck ext j s))"
proof (cases "\<not> ext \<and> \<not> mapped")
  case True
  with inv show ?thesis by (simp add: create_thread_def)
next
  case False
  have t: "t \<notin> set (thread_list s)" "t \<notin> set (exited_threads s)"
  proof -
    have "t \<notin> dom (threads s)" using new by (simp add: domIff)
    then show "t \<notin> set (thread_list s)" "t \<notin> set (exited_threads s)"
      using inv by (simp_all add: run_inv_def base_def)
  qed
  then have nw: "t \<notin> set (wq s q)" for q using base_wqD [of s t q] inv by (auto simp: run_inv_def)
  have c: "t \<noteq> current_thread s" using inv t by (auto simp: run_inv_def)
  have "stack_ok []" by (simp add: stack_ok_def)
  moreover have "dom (threads s) = set (thread_list s) \<union> set (exited_threads s)"
    using inv by (simp add: run_inv_def base_def)
  ultimately show ?thesis
    using False inv t nw c unfolding run_inv_def base_def
    by (simp add: create_thread_def Let_def thread_ops) blast
qed

lemma init_run_inv:
  assumes inv: "run_inv s"
  shows "run_inv (mutex_init m fl s)" "run_inv (rw_init r s)" "run_inv (cv_init c s)"
  using assms by (auto simp: mutex_init_def rw_init_def cv_init_def run_inv_def base_def)

lemma do_call_inv:
  assumes inv: "run_inv s" and ok: "call_ok c s"
  shows "sched_inv (do_call tm c s)"
proof (cases c)
  case (CCreate t mapped ck ext j)
  with create_run_inv [OF inv, of t mapped ck ext j] ok show ?thesis
    by (auto split: prod.split)
next
  case CExit
  with exit_inv [OF inv] ok show ?thesis by (simp add: exit_thread_def)
next
  case (CMutexTryenter m)
  with mutex_tryenter_run_inv [OF inv] inv show ?thesis
    by (auto simp: split_beta split: option.split intro: run_inv_base)
next
  case (CRwTryenter lk r)
  with rw_tryenter_run_inv [OF inv] inv show ?thesis
    by (auto simp: split_beta split: option.split intro: run_inv_base)
qed (use inv init_run_inv [OF inv] in \<open>auto intro: run_inv_base\<close>)

lemma resume_inv:
  assumes inv: "sched_inv s" and c: "ctl s = Ret v" and st: "stk s (current_thread s) = f # fs" and nh: "\<not> is_hook f"
  shows "sched_inv (resume tm f v (pop s))"
proof (cases "\<exists>q. f = FWait q")
  case True
  with wait_resume_inv [OF inv c] st show ?thesis by auto
next
  case False
  then have run: "run_inv (pop s)" using pop_run_inv [OF inv _ st] c by blast
  show ?thesis
  proof (cases f)
    case FExit
    have "FExit \<notin> set (butlast (f # fs))" using inv st unfolding sched_inv_def base_def stack_ok_def by metis
    with FExit have "fs = []" by (cases fs) auto
    with st have "stk (pop s) (current_thread (pop s)) = []" by (simp add: pop_def)
    with exit_inv [OF run] FExit show ?thesis by simp
  qed (use run nh False in \<open>auto simp: is_hook_def\<close>)
qed

theorem step_inv:
  assumes "step s s'" and "sched_inv s"
  shows "sched_inv s'"
  using assms
proof (cases rule: step.cases)
  case (call c tm)
  with do_call_inv [OF user_run_inv] assms(2) show ?thesis by simp
next
  case (hook_return h fs n)
  with pop_run_inv [OF assms(2)] show ?thesis by auto
next
  case (return_user v)
  with assms(2) show ?thesis by (auto simp: sched_inv_def)
next
  case (return_frame v f fs tm)
  with resume_inv [OF assms(2)] show ?thesis by simp
next
  case (sched env)
  with schedule_inv [OF assms(2)] show ?thesis by simp
qed

lemma init_inv: "sched_inv init_sched"
  by (auto simp: sched_inv_def base_def init_sched_def stack_ok_def dom_def)

theorem reachable_inv: "reachable s \<Longrightarrow> sched_inv s"
  by (induction rule: reachable.induct) (auto intro: init_inv step_inv)

end
