(* ===== verification/Sched_Mutex.thy ===== *)
theory Sched_Mutex
  imports Sched_Inv
begin

text \<open>
  Mutexes do not lose wake-ups: whenever a mutex is free while threads wait for it, some thread
  has been taken off its queue, is runnable and will try the mutex again.  \<open>handed\<close> is the
  invariant while the current thread executes library code, \<open>no_lost\<close> that of the machine's
  states.  \<open>handed s M\<close> exempts the mutexes in \<open>M\<close>.
\<close>

definition baton :: "st \<Rightarrow> nat \<Rightarrow> nat \<Rightarrow> bool" where
  "baton s m t \<longleftrightarrow>
     t \<in> set (thread_list s) \<and> is_runnable s t \<and> \<not> onlist s t \<and> (\<exists>fs. stk s t = FWait (MtxWaiters m) # fs)"

definition free_waited :: "st \<Rightarrow> nat \<Rightarrow> bool" where
  "free_waited s m \<longleftrightarrow> (\<exists>mt. mtxs s m = Some mt \<and> m_v mt = 0) \<and> wq s (MtxWaiters m) \<noteq> []"

definition handed :: "st \<Rightarrow> nat set \<Rightarrow> bool" where
  "handed s M \<longleftrightarrow> (\<forall>m. m \<notin> M \<longrightarrow> free_waited s m \<longrightarrow> (\<exists>t. baton s m t))"

definition retrying :: "st \<Rightarrow> nat \<Rightarrow> bool" where
  "retrying s m \<longleftrightarrow> (\<exists>v. ctl s = Ret v) \<and> (\<exists>n fs. stk s (current_thread s) = FMutexLoop m n # fs)"

definition stopped :: "st \<Rightarrow> bool" where
  "stopped s \<longleftrightarrow> ctl s = Aborted \<or> ctl s = Fault"

definition no_lost :: "st \<Rightarrow> bool" where
  "no_lost s \<longleftrightarrow> stopped s \<or> (\<forall>m. free_waited s m \<longrightarrow> (\<exists>t. baton s m t) \<or> retrying s m)"

section \<open>Changes that keep the baton\<close>

lemma handedI:
  assumes "handed s M" and "\<And>m. m \<notin> M' \<Longrightarrow> free_waited s' m \<Longrightarrow> m \<notin> M \<and> free_waited s m"
    and "\<And>m t. baton s m t \<Longrightarrow> baton s' m t"
  shows "handed s' M'"
  using assms unfolding handed_def by blast

lemma not_baton_current: "run_inv s \<Longrightarrow> \<not> baton s m (current_thread s)"
  by (auto simp: baton_def run_inv_def)

lemma handed_simps [simp]:
  "handed (s\<lparr>rws := a\<rparr>) M = handed s M" "handed (s\<lparr>cvs := b\<rparr>) M = handed s M"
  "handed (s\<lparr>joinwq := c\<rparr>) M = handed s M" "handed (s\<lparr>ctl := d\<rparr>) M = handed s M"
  "handed (cv_add x y s) M = handed s M"
  by (simp_all add: handed_def baton_def free_waited_def is_runnable_def thr_def cv_add_def)

definition keeps_runnable :: "(thread \<Rightarrow> thread) \<Rightarrow> bool" where
  "keeps_runnable f \<longleftrightarrow>
     (\<forall>x. has_flag (flags x) RUNNABLE_FLAG \<longrightarrow> has_flag (flags (f x)) RUNNABLE_FLAG)"

lemma runnable_not_mustjoin: "RUNNABLE_FLAG AND NOT THREAD_MUSTJOIN = RUNNABLE_FLAG"
  by (simp add: RUNNABLE_FLAG_def THREAD_MUSTJOIN_def)

lemma keeps_runnable_intros [simp]:
  "keeps_runnable (flags_update (\<lambda>f. f OR m))" "keeps_runnable (wakeup_time_update g)"
  "keeps_runnable (lwp_update h)" "keeps_runnable (cookie_update k)"
  "keeps_runnable (flags_update (\<lambda>f. f AND NOT THREAD_MUSTJOIN))"
  by (simp_all add: keeps_runnable_def flag_simps runnable_not_mustjoin)

lemma is_runnable_keep:
  "keeps_runnable f \<Longrightarrow> is_runnable s u \<Longrightarrow> is_runnable (upd_thread t f s) u"
  by (auto simp: is_runnable_def thr_upd_thread keeps_runnable_def)

lemma is_runnable_other: "u \<noteq> t \<Longrightarrow> is_runnable (upd_thread t f s) u = is_runnable s u"
  by (simp add: is_runnable_def thr_upd_thread)

lemma free_waited_upd_thread [simp]: "free_waited (upd_thread t f s) m = free_waited s m"
  by (simp add: free_waited_def)

lemma handed_keep: "handed s M \<Longrightarrow> keeps_runnable f \<Longrightarrow> handed (upd_thread t f s) M"
  by (erule handedI) (auto simp: baton_def is_runnable_keep)

lemma handed_current:
  assumes "handed s M" and "run_inv s" and "t = current_thread s"
  shows "handed (upd_thread t f s) M"
  using assms(1)
proof (rule handedI)
  fix m u assume "baton s m u"
  moreover from this have "u \<noteq> t" using not_baton_current [OF assms(2)] assms(3) by blast
  ultimately show "baton (upd_thread t f s) m u" by (simp add: baton_def is_runnable_other)
qed simp

lemma handed_wake: "handed s M \<Longrightarrow> handed (wake t s) M"
  by (simp add: thread_ops handed_keep)

lemma handed_push:
  assumes "handed s M" and "run_inv s"
  shows "handed (push f s) M"
  using assms(1)
proof (rule handedI)
  fix m u assume "baton s m u"
  moreover from this have "u \<noteq> current_thread s" using not_baton_current [OF assms(2)] by blast
  ultimately show "baton (push f s) m u" by (simp add: baton_def push_def is_runnable_def thr_def)
qed (simp add: free_waited_def push_def)

section \<open>Ends of operations\<close>

lemma no_lost_handed: "handed s {} \<Longrightarrow> no_lost s"
  by (simp add: no_lost_def handed_def)

lemma no_lost_ret [intro!]: "handed s {} \<Longrightarrow> no_lost (ret v s)"
  by (rule no_lost_handed) (simp add: ret_def)

lemma no_lost_stop [intro!, simp]: "no_lost (abort_st s)" "no_lost (fault s)"
  by (simp_all add: no_lost_def stopped_def abort_st_def fault_def)

lemma no_lost_unsched [intro!]:
  assumes "handed s {}" and "run_inv s" and "f \<noteq> FExit" and "\<forall>q. f \<noteq> FWait q"
  shows "no_lost (rumpkern_unsched i f s)"
proof -
  have "handed (push (FHook (HUnsched i)) (push f s)) {}"
    using assms run_inv_push [of s f] by (intro handed_push) auto
  then show ?thesis unfolding rumpkern_unsched_def by (intro no_lost_handed) simp
qed

lemma no_lost_sched [intro!]:
  assumes "handed s {}" and "run_inv s" and "f \<noteq> FExit" and "\<forall>q. f \<noteq> FWait q"
  shows "no_lost (rumpkern_sched n i f s)"
proof -
  have "handed (push (FHook (HSched n i)) (push f s)) {}"
    using assms run_inv_push [of s f] by (intro handed_push) auto
  then show ?thesis unfolding rumpkern_sched_def by (intro no_lost_handed) simp
qed

lemma no_lost_call_schedule [intro!]:
  "handed s {} \<Longrightarrow> run_inv s \<Longrightarrow> no_lost (call_schedule f s)"
  unfolding call_schedule_def by (intro no_lost_handed) (simp add: handed_push)

text \<open>A thread may wait for a mutex only while it is not free.\<close>

lemma no_lost_wait:
  assumes h: "handed s {}" and inv: "run_inv s" and f: "\<forall>q. f \<noteq> FWait q" "f \<noteq> FExit"
    and busy: "\<forall>m mt. wh = MtxWaiters m \<longrightarrow> mtxs s m = Some mt \<longrightarrow> m_v mt \<noteq> 0"
  shows "no_lost (wait tm wh nsec f s)"
proof (cases "nsec = 0")
  case False
  let ?c = "current_thread s"
  have "handed (wait tm wh nsec f s) {}"
    using h
  proof (rule handedI)
    fix m assume "free_waited (wait tm wh nsec f s) m"
    then show "m \<notin> {} \<and> free_waited s m"
      using False busy
      by (auto simp: free_waited_def wait_def Let_def sched_defs thread_ops split: if_splits)
  next
    fix m u assume b: "baton s m u"
    then have "u \<noteq> ?c" using not_baton_current [OF inv] by blast
    then have "is_runnable (wait tm wh nsec f s) u = is_runnable s u"
      using False
      by (simp add: wait_def Let_def sched_defs thread_ops is_runnable_def thr_upd_thread)
        (simp add: thr_def upd_thread_def)
    with b \<open>u \<noteq> ?c\<close> False show "baton (wait tm wh nsec f s) m u"
      by (auto simp: baton_def wait_def Let_def sched_defs thread_ops)
  qed
  then show ?thesis by (rule no_lost_handed)
qed (simp add: wait_def)

section \<open>Counts\<close>

text \<open>The count of a mutex is never negative.\<close>

definition mtx_ok :: "st \<Rightarrow> bool" where
  "mtx_ok s \<longleftrightarrow> (\<forall>m mt. mtxs s m = Some mt \<longrightarrow> 0 \<le> m_v mt)"

lemma mtx_ok_upd: "mtx_ok s \<Longrightarrow> 0 \<le> m_v mt \<Longrightarrow> mtx_ok (s\<lparr>mtxs := (mtxs s)(m \<mapsto> mt)\<rparr>)"
  by (simp add: mtx_ok_def)

lemma mtx_ok_cong: "mtxs s' = mtxs s \<Longrightarrow> mtx_ok s' = mtx_ok s"
  by (simp add: mtx_ok_def)

lemma wait_mtxs [simp]: "mtxs (wait tm wh nsec f s) = mtxs s"
  by (simp add: wait_def Let_def sched_defs thread_ops)

lemma control_mtxs [simp]:
  "mtxs (ret v s) = mtxs s" "mtxs (push f s) = mtxs s" "mtxs (pop s) = mtxs s"
  "mtxs (rumpkern_unsched i f s) = mtxs s" "mtxs (rumpkern_sched n i f s) = mtxs s"
  "mtxs (call_schedule f s) = mtxs s" "mtxs (abort_st s) = mtxs s" "mtxs (fault s) = mtxs s"
  "mtxs (wake t s) = mtxs s" "mtxs (block t s) = mtxs s" "mtxs (clear_runnable t s) = mtxs s"
  "mtxs (set_wakeup t w s) = mtxs s" "mtxs (set_flag t fl s) = mtxs s" "mtxs (clear_flag t fl s) = mtxs s"
  "mtxs (set_runnable t s) = mtxs s" "mtxs (set_curlwp l s) = mtxs s" "mtxs (cv_add c d s) = mtxs s"
  "mtxs (wakeup_all wh s) = mtxs s"
  by (simp_all add: sched_defs thread_ops cv_add_def wakeup_all_def)

lemma mtx_ok_ret [simp]: "mtx_ok (ret v s) = mtx_ok s"
  by (rule mtx_ok_cong) simp

lemma cv_init_mtxs [simp]: "mtxs (cv_init c s) = mtxs s"
  by (simp add: cv_init_def)

lemma mutex_mtx_ok:
  assumes "mtx_ok s"
  shows "mtx_ok (mutex_loop tm m n s)" "mtx_ok (mutex_enter m s)" "mtx_ok (mutex_enter_nowrap m s)"
    "mtx_ok (mutex_exit m s)" "mtx_ok (mutex_destroy m s)" "mtx_ok (snd (mutex_tryenter mt m s)) \<or> m_v mt < 0"
    "mtx_ok (mutex_init m fl s)"
  using assms
  by (auto simp: mtx_ok_def op_defs mutex_init_def Let_def split: option.splits if_splits)

lemma rw_mtxs [simp]:
  "mtxs (rw_loop tm lk r n s) = mtxs s" "mtxs (rw_enter lk r s) = mtxs s" "mtxs (rw_exit r s) = mtxs s"
  "mtxs (rw_destroy r s) = mtxs s" "mtxs (rw_downgrade r s) = mtxs s" "mtxs (rw_tryupgrade r s) = mtxs s"
  "mtxs (snd (rw_tryenter lk rw r s)) = mtxs s" "mtxs (rw_init r s) = mtxs s"
  by (simp_all add: op_defs rw_init_def Let_def split: option.split)

lemma cv_mtx_ok:
  assumes "mtx_ok s"
  shows "mtx_ok (cv_wait c m s)" "mtx_ok (cv_timedwait c m sec nsec s)" "mtx_ok (cv_unsched tm c m nsec n s)"
    "mtx_ok (cv_resched c m n rv s)" "mtx_ok (cv_relock c m rv s)" "mtx_ok (cv_done c rv s)"
    "mtx_ok (cv_wait_nowrap tm c m s)" "mtx_ok (cv_signal c s)" "mtx_ok (cv_broadcast c s)" "mtx_ok (cv_destroy c s)"
    "mtx_ok (cv_init c s)"
proof -
  note ok = mutex_mtx_ok [OF assms] and ok1 = mutex_mtx_ok(4) [of "cv_add c 1 s" m]
  have add: "mtx_ok (cv_add c d s') = mtx_ok s'" for c d s' by (rule mtx_ok_cong) simp
  note defs = cv_wait_def cv_timedwait_def cv_wait_nsec_def cv_unsched_def cv_resched_def cv_relock_def
    cv_done_def cv_wait_nowrap_def cv_signal_def cv_broadcast_def cv_destroy_def cv_init_def
  show "mtx_ok (cv_wait c m s)" "mtx_ok (cv_timedwait c m sec nsec s)" "mtx_ok (cv_unsched tm c m nsec n s)"
    "mtx_ok (cv_resched c m n rv s)" "mtx_ok (cv_relock c m rv s)" "mtx_ok (cv_done c rv s)"
    "mtx_ok (cv_wait_nowrap tm c m s)" "mtx_ok (cv_signal c s)" "mtx_ok (cv_broadcast c s)" "mtx_ok (cv_destroy c s)"
    "mtx_ok (cv_init c s)"
    using assms ok ok1 add by (auto simp: defs mtx_ok_def Let_def split: option.splits)
qed

lemma thread_mtxs [simp]:
  "mtxs (clock_sleep clk sec nsec s) = mtxs s" "mtxs (clock_sleep_unsched tm clk ns n s) = mtxs s"
  "mtxs (join_thread j s) = mtxs s" "mtxs (join_resume j s) = mtxs s" "mtxs (exit_loop s) = mtxs s"
  "mtxs (exit_thread s) = mtxs s" "mtxs (wait_resume q s) = mtxs s"
  "mtxs (snd (create_thread a b c d e s)) = mtxs s"
  by (simp_all add: clock_sleep_def clock_sleep_unsched_def nsleep_def absnanosleep_def join_thread_def
      join_resume_def join_loop_def exit_thread_def exit_loop_def wait_resume_def create_thread_def Let_def
      split: option.split)

lemma do_call_mtx_ok: "mtx_ok s \<Longrightarrow> mtx_ok (do_call tm c s)"
proof (cases c)
  case (CMutexTryenter m)
  assume "mtx_ok s"
  with CMutexTryenter mutex_mtx_ok(6) [of s] show ?thesis
    by (auto simp: split_beta mtx_ok_def split: option.split) (metis linorder_not_le)+
qed (auto simp: mutex_mtx_ok cv_mtx_ok split_beta split: option.split elim!: mtx_ok_cong [THEN iffD1, rotated])

lemma resume_mtx_ok: "mtx_ok s \<Longrightarrow> mtx_ok (resume tm f v s)"
  by (cases f) (auto simp: mutex_mtx_ok cv_mtx_ok elim!: mtx_ok_cong [THEN iffD1, rotated])

lemma schedule_mtxs:
  assumes "schedule env s = Some s'"
  shows "mtxs s' = mtxs s"
proof -
  from assms obtain n s1 where "schedule_loop env s = Some (n, s1)" "s' = switch_threads n s1"
    by (auto simp: schedule_def split: option.splits prod.splits)
  with moved_sel(4) [OF schedule_loop_moved] show ?thesis
    by (auto simp: switch_threads_def Let_def reap_def)
qed

lemma step_mtx_ok: "step s s' \<Longrightarrow> mtx_ok s \<Longrightarrow> mtx_ok s'"
proof (induction rule: step.induct)
  case (call s c tm)
  then show ?case by (simp add: do_call_mtx_ok)
next
  case (return_frame s v f fs tm)
  have "mtx_ok (pop s)" using return_frame.prems by (simp add: mtx_ok_def)
  then show ?case by (rule resume_mtx_ok)
next
  case (sched s env s')
  with schedule_mtxs show ?case by (simp add: mtx_ok_def)
qed (auto simp: mtx_ok_def)

section \<open>Operations keep the hand-over\<close>

lemma handed_wakeup:
  assumes "handed s M" and "wq s wh = w # ws"
  shows "handed (s\<lparr>wq := (wq s)(wh := ws), onlist := (onlist s)(w := False)\<rparr>) M"
  using assms(1)
proof (rule handedI)
  show "m \<notin> M \<and> free_waited s m"
    if "m \<notin> M" "free_waited (s\<lparr>wq := (wq s)(wh := ws), onlist := (onlist s)(w := False)\<rparr>) m" for m
    using that assms(2) by (auto simp: free_waited_def split: if_splits)
qed (auto simp: baton_def is_runnable_def thr_def)

lemma handed_wakeup_one: "handed s M \<Longrightarrow> handed (wakeup_one wh s) M"
  using handed_wakeup [of s M wh] by (auto simp: wakeup_one_def handed_wake split: list.split)

lemma wake_wq [simp]: "wq (wake t s) = wq s"
  by (simp add: thread_ops)

lemma handed_wakeup_list: "handed s M \<Longrightarrow> wq s wh = ws \<Longrightarrow> handed (wakeup_list ws wh s) M"
proof (induction ws arbitrary: s)
  case (Cons w ws)
  from handed_wake [OF handed_wakeup [OF Cons.prems]] show ?case by (simp add: Cons.IH)
qed simp

lemma handed_wakeup_all: "handed s M \<Longrightarrow> handed (wakeup_all wh s) M"
  by (simp add: wakeup_all_def handed_wakeup_list)

text \<open>Releasing a mutex hands it to the first waiter.\<close>

lemma wake_runnable:
  assumes "t \<in> dom (threads s)"
  shows "is_runnable (wake t s) t"
proof -
  have "has_flag (f OR RUNNABLE_FLAG) RUNNABLE_FLAG" for f by (simp add: flag_simps has_flag_def RUNNABLE_FLAG_def)
  then show ?thesis using assms by (auto simp: is_runnable_def thread_ops thr_upd_thread domIff)
qed

lemma handed_release:
  assumes h: "handed s {m}" and b: "base s"
  shows "handed (wakeup_one (MtxWaiters m) s) {}"
proof (cases "wq s (MtxWaiters m)")
  case Nil
  with h show ?thesis by (auto simp: wakeup_one_def handed_def free_waited_def)
next
  case (Cons w ws)
  let ?s = "s\<lparr>wq := (wq s)(MtxWaiters m := ws), onlist := (onlist s)(w := False)\<rparr>"
  from base_wqD [OF b, of w "MtxWaiters m"] Cons obtain fs
    where w: "w \<in> set (thread_list s)" "stk s w = FWait (MtxWaiters m) # fs" by auto
  have "w \<in> dom (threads ?s)" using b w(1) by (simp add: base_def)
  then have "baton (wake w ?s) m w"
    using w wake_runnable [of w ?s] by (auto simp: baton_def thread_ops)
  moreover have "handed (wake w ?s) {m}" using h Cons by (intro handed_wake handed_wakeup)
  ultimately show ?thesis using Cons by (auto simp: wakeup_one_def handed_def)
qed

lemma handed_mtx:
  assumes "handed s M"
  shows "handed (s\<lparr>mtxs := (mtxs s)(m \<mapsto> mt)\<rparr>) (insert m M)"
    and "m_v mt \<noteq> 0 \<Longrightarrow> handed (s\<lparr>mtxs := (mtxs s)(m \<mapsto> mt)\<rparr>) (M - {m})"
    and "handed (s\<lparr>mtxs := (mtxs s)(m := None)\<rparr>) M"
  using assms
  by (auto simp: handed_def free_waited_def baton_def is_runnable_def thr_def)

lemma mutex_tryenter_cases:
  assumes "mutex_tryenter mt m s = (rv, s')" and "0 \<le> m_v mt"
  obtains "rv \<noteq> 0" "s' = s" "m_v mt \<noteq> 0"
  | mt' where "rv = 0" "s' = s\<lparr>mtxs := (mtxs s)(m \<mapsto> mt')\<rparr>" "m_v mt' \<noteq> 0"
  using assms by (auto simp: mutex_tryenter_def Let_def split: if_splits)

lemma handed_tryenter:
  assumes "handed s {m}" and "mtx_ok s" and "mtxs s m = Some mt"
  shows "handed (snd (mutex_tryenter mt m s)) {}"
proof -
  have v: "0 \<le> m_v mt" using assms(2,3) by (simp add: mtx_ok_def)
  obtain rv s' where t: "mutex_tryenter mt m s = (rv, s')" by fastforce
  from t v show ?thesis
  proof (cases rule: mutex_tryenter_cases)
    case 1
    have "\<not> free_waited s m" using 1 assms(3) by (simp add: free_waited_def)
    with assms(1) have "handed s {}" unfolding handed_def by (metis singletonD)
    with 1 t show ?thesis by simp
  next
    case (2 mt')
    with handed_mtx(2) [OF assms(1), of mt' m] t show ?thesis by simp
  qed
qed

lemma handed_mono: "handed s M \<Longrightarrow> M \<subseteq> M' \<Longrightarrow> handed s M'"
  by (auto simp: handed_def)

lemma mutex_loop_no_lost:
  assumes h: "handed s {m}" and inv: "run_inv s" and ok: "mtx_ok s"
  shows "no_lost (mutex_loop tm m n s)"
proof (cases "mtxs s m")
  case None
  then show ?thesis by (simp add: mutex_loop_def)
next
  case (Some mt)
  have v: "0 \<le> m_v mt" using ok Some by (simp add: mtx_ok_def)
  obtain rv s' where t: "mutex_tryenter mt m s = (rv, s')" by fastforce
  have h': "handed s' {}" using handed_tryenter [OF h ok Some] t by simp
  have inv': "run_inv s'" using mutex_tryenter_run_inv [OF inv, of mt m] t by simp
  from t v show ?thesis
  proof (cases rule: mutex_tryenter_cases)
    case 1
    with t Some h' inv' show ?thesis
      by (auto simp: mutex_loop_def intro!: no_lost_wait)
  next
    case (2 mt')
    with t Some h' inv' show ?thesis by (auto simp: mutex_loop_def)
  qed
qed

lemma mutex_no_lost:
  assumes h: "handed s {}" and inv: "run_inv s" and ok: "mtx_ok s"
  shows "no_lost (mutex_enter m s)" "no_lost (mutex_enter_nowrap m s)" "no_lost (mutex_exit m s)"
    "no_lost (mutex_destroy m s)" "handed (mutex_exit m s) {}"
    "handed (mutex_enter_nowrap m s) {}"
proof -
  have hm: "handed s {m}" using h by (rule handed_mono) simp
  have te: "handed (snd (mutex_tryenter mt m s)) {}" if "mtxs s m = Some mt" for mt
    using handed_tryenter [OF hm ok that] .
  note ti = mutex_tryenter_run_inv [OF inv]
  show "no_lost (mutex_enter m s)"
    using te ti by (auto simp: mutex_enter_def split_beta Let_def split: option.split)
  show nw: "handed (mutex_enter_nowrap m s) {}"
    using te h by (auto simp: mutex_enter_nowrap_def split_beta Let_def sched_defs split: option.split)
  then show "no_lost (mutex_enter_nowrap m s)" by (rule no_lost_handed)
  have "handed (wakeup_one (MtxWaiters m) (s\<lparr>mtxs := (mtxs s)(m \<mapsto> mt)\<rparr>)) {}" for mt
    using handed_mtx(1) [OF h, of m mt] inv by (intro handed_release) (simp_all add: run_inv_base)
  moreover have "handed (s\<lparr>mtxs := (mtxs s)(m \<mapsto> mt)\<rparr>) {}" if "m_v mt \<noteq> 0" for mt
    using handed_mtx(2) [OF h that, of m] by simp
  ultimately show ex: "handed (mutex_exit m s) {}"
    using h by (auto simp: mutex_exit_def ret_def abort_st_def fault_def split: option.split)
  then show "no_lost (mutex_exit m s)" by (rule no_lost_handed)
  show "no_lost (mutex_destroy m s)"
    using handed_mtx(3) [OF h] by (auto simp: mutex_destroy_def split: option.split)
qed

lemma no_lost_stopped: "ctl s = Aborted \<or> ctl s = Fault \<Longrightarrow> no_lost s"
  by (auto simp: no_lost_def stopped_def)

lemma rw_tryenter_handed: "handed s {} \<Longrightarrow> handed (snd (rw_tryenter lk rw r s)) {}"
  by (simp add: rw_tryenter_def)

lemma rw_no_lost:
  assumes h: "handed s {}" and inv: "run_inv s"
  shows "no_lost (rw_loop tm lk r n s)" "no_lost (rw_enter lk r s)" "no_lost (rw_exit r s)"
    "no_lost (rw_destroy r s)" "no_lost (rw_downgrade r s)" "no_lost (rw_tryupgrade r s)"
proof -
  note te = rw_tryenter_handed [OF h] rw_tryenter_run_inv [OF inv]
  show "no_lost (rw_loop tm lk r n s)"
    using te by (auto simp: rw_loop_def split_beta Let_def intro!: no_lost_wait split: option.split)
  show "no_lost (rw_enter lk r s)"
    using te by (auto simp: rw_enter_def split_beta Let_def split: option.split)
  show "no_lost (rw_exit r s)" "no_lost (rw_destroy r s)" "no_lost (rw_downgrade r s)" "no_lost (rw_tryupgrade r s)"
    using h by (auto simp: rw_exit_def rw_destroy_def rw_downgrade_def rw_tryupgrade_def Let_def
        intro!: handed_wakeup_one handed_wakeup_all split: option.split)
qed

lemma cv_no_lost:
  assumes h: "handed s {}" and inv: "run_inv s" and ok: "mtx_ok s"
  shows "no_lost (cv_wait c m s)" "no_lost (cv_timedwait c m sec nsec s)" "no_lost (cv_unsched tm c m nsec n s)"
    "no_lost (cv_resched c m n rv s)" "no_lost (cv_relock c m rv s)" "no_lost (cv_done c rv s)"
    "no_lost (cv_wait_nowrap tm c m s)" "no_lost (cv_signal c s)" "no_lost (cv_broadcast c s)"
    "no_lost (cv_destroy c s)"
proof -
  note mn = mutex_no_lost [OF h inv ok, of m] and mi = mutex_step_run_inv [OF inv, of m]
  have ok1: "mtx_ok (cv_add c 1 s)" using ok by (simp add: mtx_ok_def)
  have h1: "handed (mutex_exit m (cv_add c 1 s)) {}" "run_inv (mutex_exit m (cv_add c 1 s))"
    using mutex_no_lost(5) [of "cv_add c 1 s" m] mutex_step_run_inv(1) [of "cv_add c 1 s" m] h inv ok1 by simp_all
  show "no_lost (cv_wait c m s)" "no_lost (cv_timedwait c m sec nsec s)"
    using h inv by (auto simp: cv_wait_def cv_timedwait_def cv_wait_nsec_def)
  show "no_lost (cv_unsched tm c m nsec n s)"
    using mn(5) mi(1) by (auto simp: cv_unsched_def Let_def intro: no_lost_stopped no_lost_wait)
  show "no_lost (cv_resched c m n rv s)"
    using h inv mn(6) mi(2) by (auto simp: cv_resched_def Let_def intro: no_lost_stopped split: option.split)
  show "no_lost (cv_done c rv s)" using h by (auto simp: cv_done_def)
  show "no_lost (cv_relock c m rv s)"
    using mn(6) by (auto simp: cv_relock_def cv_done_def Let_def intro: no_lost_stopped)
  show "no_lost (cv_wait_nowrap tm c m s)"
    using h1 by (auto simp: cv_wait_nowrap_def Let_def intro: no_lost_stopped no_lost_wait)
  show "no_lost (cv_signal c s)" "no_lost (cv_broadcast c s)" "no_lost (cv_destroy c s)"
    using h by (auto simp: cv_signal_def cv_broadcast_def cv_destroy_def
        intro!: handed_wakeup_one handed_wakeup_all split: option.split)
qed

lemma handed_block:
  assumes "handed s {}" and "run_inv s" and "t = current_thread s"
  shows "handed (block t s) {}" "handed (clear_runnable t (set_wakeup t w s)) {}" "handed (clear_runnable t s) {}"
  using assms by (simp_all add: thread_ops handed_current)

lemma thread_no_lost:
  assumes h: "handed s {}" and inv: "run_inv s"
  shows "no_lost (clock_sleep clk sec nsec s)" "no_lost (clock_sleep_unsched tm clk ns n s)"
    "no_lost (join_thread j s)" "no_lost (join_resume j s)"
proof -
  show "no_lost (clock_sleep clk sec nsec s)" "no_lost (clock_sleep_unsched tm clk ns n s)"
    using h inv handed_block [OF h inv]
    by (auto simp: clock_sleep_def clock_sleep_unsched_def nsleep_def absnanosleep_def Let_def get_current_def)
  have lp: "no_lost (join_loop j s')" if "handed s' {}" "run_inv s'" for s'
    using that handed_block(1) [of "s'\<lparr>joinwq := joinwq s' @ [(current_thread s', j)]\<rparr>" "current_thread s'"]
    by (auto simp: join_loop_def Let_def get_current_def handed_keep clear_flag_def intro!: handed_wake)
  show "no_lost (join_thread j s)" using lp [OF h inv] by (simp add: join_thread_def)
  show "no_lost (join_resume j s)" using lp h inv by (simp add: join_resume_def)
qed

lemma exit_no_lost:
  assumes h: "handed s {}" and inv: "run_inv s"
  shows "no_lost (exit_loop s)"
proof (cases "has_flag (flags (thr s (current_thread s))) THREAD_MUSTJOIN")
  case True
  let ?c = "current_thread s"
  let ?s1 = "set_flag ?c THREAD_JOINED s"
  let ?s2 = "case find_joiner ?c (joinwq s) of None \<Rightarrow> ?s1 | Some j \<Rightarrow> wake j ?s1"
  have h1: "handed ?s1 {}" using h by (simp add: set_flag_def handed_keep)
  then have h2: "handed ?s2 {}" by (simp add: handed_wake split: option.split)
  have c2: "current_thread ?s2 = ?c" "run_inv ?s2" using inv by (simp_all add: thread_ops split: option.split)
  have "handed (block ?c ?s2) {}" using handed_block(1) [OF h2 c2(2)] c2(1) by simp
  moreover have "exit_loop s = call_schedule FExit (block ?c ?s2)"
    using True by (simp add: exit_loop_def Let_def get_current_def set_flag_def cong: option.case_cong)
  ultimately show ?thesis using c2(2) by auto
next
  case False
  let ?c = "current_thread s"
  have nb: "\<not> baton s m ?c" for m using not_baton_current [OF inv] .
  have "handed (exit_loop s) {}"
    using h
  proof (rule handedI)
    fix m u assume b: "baton s m u"
    with nb have "u \<noteq> ?c" by blast
    with b False show "baton (exit_loop s) m u"
      by (auto simp: baton_def exit_loop_def Let_def sched_defs thread_ops is_runnable_def thr_def upd_thread_def)
  qed (use False in \<open>simp add: free_waited_def exit_loop_def Let_def sched_defs thread_ops\<close>)
  then show ?thesis by (rule no_lost_handed)
qed

lemma create_handed:
  assumes h: "handed s {}" and inv: "run_inv s" and new: "threads s t = None"
  shows "handed (snd (create_thread (Some t) mapped ck ext j s)) {}"
  using h
proof (rule handedI)
  fix m u assume b: "baton s m u"
  then have "u \<in> dom (threads s)" using inv by (auto simp: baton_def run_inv_def base_def)
  with new have "u \<noteq> t" by auto
  with b show "baton (snd (create_thread (Some t) mapped ck ext j s)) m u"
    by (auto simp: baton_def create_thread_def Let_def thread_ops is_runnable_def thr_def upd_thread_def)
qed (auto simp: free_waited_def create_thread_def Let_def thread_ops split: if_splits)

lemma init_handed:
  assumes "handed s {}"
  shows "handed (mutex_init m fl s) {}" "handed (rw_init r s) {}" "handed (cv_init c s) {}"
  using assms
  by (auto simp: handed_def free_waited_def baton_def is_runnable_def thr_def mutex_init_def rw_init_def cv_init_def
      split: if_splits)

section \<open>Every step keeps the hand-over\<close>

lemma user_handed:
  assumes "no_lost s" and "ctl s = User"
  shows "handed s {}"
  using assms by (auto simp: no_lost_def stopped_def handed_def retrying_def)

lemma pop_handed:
  assumes nl: "no_lost s" and c: "ctl s = Ret v" and st: "stk s (current_thread s) = f # fs"
    and nw: "\<forall>q. f \<noteq> FWait q"
  shows "handed (pop s) {m. \<exists>n. f = FMutexLoop m n}"
  unfolding handed_def
proof (intro allI impI)
  fix m assume m: "m \<notin> {m. \<exists>n. f = FMutexLoop m n}" and fw: "free_waited (pop s) m"
  from fw have "free_waited s m" by (simp add: free_waited_def pop_def)
  with nl c obtain t where t: "baton s m t"
    using m st by (auto simp: no_lost_def stopped_def retrying_def)
  then have "t \<noteq> current_thread s" using st nw by (auto simp: baton_def)
  with t have "baton (pop s) m t" by (simp add: baton_def pop_def is_runnable_def thr_def)
  then show "\<exists>t. baton (pop s) m t" ..
qed

lemma wait_resume_no_lost:
  assumes nl: "no_lost s" and inv: "sched_inv s" and c: "ctl s = Ret v"
    and st: "stk s (current_thread s) = FWait q # fs"
  shows "no_lost (wait_resume q (pop s))"
  unfolding no_lost_def
proof (rule disjI2, intro allI impI)
  let ?c = "current_thread s" and ?s' = "wait_resume q (pop s)"
  fix m assume fw: "free_waited ?s' m"
  then have "free_waited s m"
    by (auto simp: free_waited_def wait_resume_def Let_def sched_defs split: if_splits)
  with nl c st obtain t where t: "baton s m t" by (auto simp: no_lost_def stopped_def retrying_def)
  show "(\<exists>t. baton ?s' m t) \<or> retrying ?s' m"
  proof (cases "t = ?c")
    case True
    with t st have q: "q = MtxWaiters m" by (auto simp: baton_def)
    have "stack_ok (FWait q # fs)" using inv st unfolding sched_inv_def base_def by metis
    with q obtain n fs' where "fs = FMutexLoop m n # fs'" by (auto simp: stack_ok_def)
    with st have "retrying ?s' m" by (simp add: retrying_def wait_resume_def Let_def sched_defs)
    then show ?thesis ..
  next
    case False
    with t have "baton ?s' m t"
      by (auto simp: baton_def wait_resume_def Let_def sched_defs is_runnable_def thr_def)
    then show ?thesis by blast
  qed
qed

lemma do_call_no_lost:
  assumes h: "handed s {}" and inv: "run_inv s" and ok: "mtx_ok s" and c: "call_ok c s"
  shows "no_lost (do_call tm c s)"
proof (cases c)
  case (CMutexTryenter m)
  have "handed s {m}" using h by (rule handed_mono) simp
  with CMutexTryenter handed_tryenter [OF _ ok] show ?thesis
    by (auto simp: split_beta split: option.split)
qed (use h inv ok c init_handed [OF h] create_handed [OF h inv] rw_tryenter_handed [OF h] in
  \<open>auto simp: split_beta mutex_no_lost rw_no_lost cv_no_lost thread_no_lost exit_thread_def exit_no_lost
    handed_wake handed_keep set_curlwp_def split: option.split\<close>)

lemma resume_no_lost:
  assumes nl: "no_lost s" and inv: "sched_inv s" and ok: "mtx_ok s" and c: "ctl s = Ret v"
    and st: "stk s (current_thread s) = f # fs" and nh: "\<not> is_hook f"
  shows "no_lost (resume tm f v (pop s))"
proof (cases "\<exists>q. f = FWait q")
  case True
  with wait_resume_no_lost [OF nl inv c] st show ?thesis by auto
next
  case False
  then have run: "run_inv (pop s)" using pop_run_inv [OF inv _ st] c by blast
  have ok': "mtx_ok (pop s)" using ok by (simp add: mtx_ok_def)
  have h: "handed (pop s) {m. \<exists>n. f = FMutexLoop m n}" using pop_handed [OF nl c st] False by blast
  show ?thesis
  proof (cases f)
    case (FMutexLoop m n)
    with h have "handed (pop s) {m}" by simp
    with FMutexLoop mutex_loop_no_lost [OF _ run ok'] show ?thesis by simp
  next
    case (FMutexEnter m)
    with h have "handed (pop s) {m}" by (auto intro: handed_mono)
    with FMutexEnter mutex_loop_no_lost [OF _ run ok'] show ?thesis by simp
  qed (use h run ok' nh False in \<open>auto simp: is_hook_def rw_no_lost cv_no_lost thread_no_lost exit_no_lost\<close>)
qed

lemma scan_runnable:
  assumes "scan tm wk ts s = (r, wk', s')" and "is_runnable s u"
  shows "is_runnable s' u"
  using assms
proof (induction tm wk ts s rule: scan.induct)
  case (2 tm wk t ts s)
  have keep: "is_runnable (wake t (set_flag t THREAD_TIMEDOUT s)) u"
    using 2(3) by (simp add: thread_ops is_runnable_keep)
  have upd: "is_runnable (s\<lparr>thread_list := xs\<rparr>) u = is_runnable s u" for s xs by (simp add: is_runnable_def thr_def)
  from 2 keep show ?case by (auto simp: Let_def upd split: if_splits)
qed simp

lemma fold_wake_runnable: "is_runnable s u \<Longrightarrow> is_runnable (fold wake ts s) u"
  by (induction ts arbitrary: s) (auto simp: thread_ops is_runnable_keep)

lemma schedule_loop_runnable: "schedule_loop env s = Some (n, s') \<Longrightarrow> is_runnable s u \<Longrightarrow> is_runnable s' u"
proof (induction env s rule: schedule_loop.induct)
  case (2 tm woken env s)
  then show ?case
    by (auto split: prod.splits option.splits simp: scan_runnable [OF _ 2(3)] fold_wake_runnable)
qed simp

lemma schedule_no_lost:
  assumes nl: "no_lost s" and inv: "sched_inv s" and c: "ctl s = Scheduling" and run: "schedule env s = Some s'"
  shows "no_lost s'"
proof -
  from run obtain n s1 where lp: "schedule_loop env s = Some (n, s1)" and s': "s' = switch_threads n s1"
    by (auto simp: schedule_def split: option.splits prod.splits)
  note mv = moved_sel [OF schedule_loop_moved [OF lp]]
  have h: "handed s {}" using nl c by (auto simp: no_lost_def stopped_def handed_def retrying_def)
  have "handed s' {}"
    using h
  proof (rule handedI)
    fix m assume "free_waited s' m"
    then show "m \<notin> {} \<and> free_waited s m"
      by (auto simp: s' free_waited_def switch_threads_def Let_def sched_defs reap_def mv split: if_splits)
  next
    fix m u assume b: "baton s m u"
    then have "is_runnable s1 u" using schedule_loop_runnable [OF lp] by (simp add: baton_def)
    moreover have "u \<notin> set (exited_threads s)"
      using b inv by (auto simp: baton_def sched_inv_def base_def)
    ultimately show "baton s' m u"
      using b by (auto simp: s' baton_def switch_threads_def Let_def sched_defs reap_def mv(1-11) is_runnable_def thr_def)
  qed
  then show ?thesis by (rule no_lost_handed)
qed

lemma step_no_lost:
  assumes "step s s'" and "no_lost s" and "sched_inv s" and "mtx_ok s"
  shows "no_lost s'"
  using assms
proof (cases rule: step.cases)
  case (call c tm)
  with do_call_no_lost [OF user_handed user_run_inv] assms show ?thesis by simp
next
  case (hook_return h fs n)
  have "handed (pop s) {}"
    using user_handed [OF assms(2) hook_return(2)]
  proof (rule handedI)
    fix m u assume b: "baton s m u"
    then have "u \<noteq> current_thread s" using hook_return(3) by (auto simp: baton_def)
    with b show "baton (pop s) m u" by (simp add: baton_def pop_def is_runnable_def thr_def)
  qed (simp add: free_waited_def pop_def)
  with hook_return show ?thesis by auto
next
  case (return_user v)
  have "\<not> retrying s m" for m using return_user by (auto simp: retrying_def is_hook_def)
  with return_user assms(2) show ?thesis
    by (auto simp: no_lost_def stopped_def baton_def free_waited_def is_runnable_def thr_def)
next
  case (return_frame v f fs tm)
  with resume_no_lost [OF assms(2-4)] show ?thesis by simp
next
  case (sched env)
  with schedule_no_lost [OF assms(2,3)] show ?thesis by simp
qed

lemma reachable_no_lost: "reachable s \<Longrightarrow> sched_inv s \<and> mtx_ok s \<and> no_lost s"
proof (induction rule: reachable.induct)
  case init
  then show ?case
    using init_inv by (simp add: mtx_ok_def no_lost_def free_waited_def) (simp add: init_sched_def)
next
  case (step s s')
  then show ?case using step_inv step_mtx_ok step_no_lost by blast
qed

end
