(* ===== verification/Sched_Fair.thy ===== *)
theory Sched_Fair
  imports Sched_Mutex
begin

text \<open>
  The scheduler's choices.  \<open>scan_find\<close>: a pass chooses the first thread of the list that is
  runnable or whose sleep has expired.  \<open>pos s t\<close> is the number of threads before \<open>t\<close>;
  no step of the machine lets it grow, and every choice of another thread makes it smaller while
  \<open>t\<close> is runnable.
\<close>

definition ready :: "st \<Rightarrow> int \<Rightarrow> nat \<Rightarrow> bool" where
  "ready s tm t \<longleftrightarrow> is_runnable s t \<or> 0 \<le> wakeup_time (thr s t) \<and> wakeup_time (thr s t) \<le> tm"

text \<open>The earliest wake-up time of the sleepers, bounded by \<open>wk\<close>.\<close>

fun earliest :: "st \<Rightarrow> int \<Rightarrow> nat list \<Rightarrow> int" where
  "earliest s wk [] = wk"
| "earliest s wk (t # ts) =
     earliest s (if 0 \<le> wakeup_time (thr s t) \<and> wakeup_time (thr s t) < wk then wakeup_time (thr s t) else wk) ts"

lemma wake_timedout_runnable:
  "t \<in> dom (threads s) \<Longrightarrow> is_runnable (wake t (set_flag t m s)) t"
  by (rule wake_runnable) (simp add: set_flag_def)

lemma scan_find: "set ts \<subseteq> dom (threads s) \<Longrightarrow> fst (scan tm wk ts s) = List.find (ready s tm) ts"
proof (induction ts arbitrary: wk)
  case (Cons t ts)
  show ?case
  proof (cases "ready s tm t")
    case True
    show ?thesis
    proof (cases "is_runnable s t")
      case False
      with True have "0 \<le> wakeup_time (thr s t)" "wakeup_time (thr s t) \<le> tm" by (auto simp: ready_def)
      with False True Cons.prems wake_timedout_runnable [of t s] show ?thesis by (simp add: Let_def)
    qed (use True in \<open>simp add: Let_def\<close>)
  next
    case False
    then have "\<not> is_runnable s t" "\<not> (0 \<le> wakeup_time (thr s t) \<and> wakeup_time (thr s t) \<le> tm)"
      by (auto simp: ready_def)
    with False Cons show ?thesis by (auto simp: Let_def)
  qed
qed simp

lemma scan_none:
  "\<forall>t \<in> set ts. \<not> ready s tm t \<Longrightarrow> scan tm wk ts s = (None, earliest s wk ts, s)"
  by (induction ts arbitrary: wk) (auto simp: ready_def Let_def)

lemma earliest_le: "earliest s wk ts \<le> wk"
proof (induction ts arbitrary: wk)
  case (Cons t ts)
  show ?case
    using Cons [of wk] Cons [of "wakeup_time (thr s t)"] by auto
qed simp

lemma earliest_le_wakeup:
  "t \<in> set ts \<Longrightarrow> 0 \<le> wakeup_time (thr s t) \<Longrightarrow> earliest s wk ts \<le> wakeup_time (thr s t)"
proof (induction ts arbitrary: wk)
  case (Cons u ts)
  show ?case
  proof (cases "t \<in> set ts")
    case False
    with Cons.prems have "u = t" by simp
    with Cons.prems earliest_le [of s wk ts] earliest_le [of s "wakeup_time (thr s t)" ts] show ?thesis by auto
  qed (use Cons in simp)
qed simp

lemma earliest_gt:
  "b < wk \<Longrightarrow> \<forall>t \<in> set ts. 0 \<le> wakeup_time (thr s t) \<longrightarrow> b < wakeup_time (thr s t) \<Longrightarrow> b < earliest s wk ts"
  by (induction ts arbitrary: wk) auto

section \<open>Positions\<close>

definition pos :: "st \<Rightarrow> nat \<Rightarrow> nat" where
  "pos s t = length (takeWhile (\<lambda>x. x \<noteq> t) (thread_list s))"

lemma pos_append: "t \<in> set xs \<Longrightarrow> takeWhile (\<lambda>x. x \<noteq> t) (xs @ ys) = takeWhile (\<lambda>x. x \<noteq> t) xs"
  by (induction xs) auto

lemma pos_remove1: "n \<noteq> t \<Longrightarrow> length (takeWhile (\<lambda>x. x \<noteq> t) (remove1 n xs)) \<le> length (takeWhile (\<lambda>x. x \<noteq> t) xs)"
  by (induction xs) auto

lemma pos_remove1_before:
  "n \<noteq> t \<Longrightarrow> n \<in> set (takeWhile (\<lambda>x. x \<noteq> t) xs) \<Longrightarrow>
   length (takeWhile (\<lambda>x. x \<noteq> t) (remove1 n xs)) < length (takeWhile (\<lambda>x. x \<noteq> t) xs)"
  by (induction xs) (auto split: if_splits)

lemma find_before:
  "List.find P xs = Some n \<Longrightarrow> P t \<Longrightarrow> t \<in> set xs \<Longrightarrow> n \<noteq> t \<Longrightarrow> n \<in> set (takeWhile (\<lambda>x. x \<noteq> t) xs)"
  by (induction xs) (auto split: if_splits)

text \<open>While \<open>t\<close> is runnable, the scheduler returns in its first pass, and \<open>t\<close> moves forward.\<close>

lemma schedule_loop_first:
  assumes d: "set (thread_list s) \<subseteq> dom (threads s)" and t: "t \<in> set (thread_list s)" "ready s tm t"
  shows "\<exists>n s'. schedule_loop ((tm, woken) # env) s = Some (n, s') \<and>
    List.find (ready s tm) (thread_list s) = Some n"
proof -
  obtain r w s' where sc: "scan tm (tm + 1000 * 1000) (thread_list s) s = (r, w, s')" by (metis prod_cases3)
  with scan_find [OF d, of tm "tm + 1000 * 1000"] have r: "r = List.find (ready s tm) (thread_list s)" by simp
  with t obtain n where n: "List.find (ready s tm) (thread_list s) = Some n" by (metis find_None_iff2 not_None_eq)
  with r sc have "schedule_loop ((tm, woken) # env) s = Some (n, s')" by simp
  with n show ?thesis by blast
qed

lemma schedule_pos:
  assumes inv: "sched_inv s" and t: "t \<in> set (thread_list s)" "is_runnable s t"
    and run: "schedule env s = Some s'" and other: "current_thread s' \<noteq> t"
  shows "pos s' t < pos s t"
proof -
  from run obtain n s1 where lp: "schedule_loop env s = Some (n, s1)" and s': "s' = switch_threads n s1"
    by (auto simp: schedule_def split: option.splits prod.splits)
  have n: "current_thread s' = n" by (simp add: s' switch_threads_def Let_def sched_defs reap_def)
  with other have nt: "n \<noteq> t" by simp
  obtain tm w e where env: "env = (tm, w) # e" using lp by (cases env) auto
  have d: "set (thread_list s) \<subseteq> dom (threads s)" using inv by (auto simp: sched_inv_def base_def)
  have "ready s tm t" using t(2) by (simp add: ready_def)
  from schedule_loop_first [OF d t(1) this, of w e] lp env
  have fd: "List.find (ready s tm) (thread_list s) = Some n" by auto
  note mv = moved_sel [OF schedule_loop_moved [OF lp]]
  have "thread_list s' = remove1 n (thread_list s) @ [n]"
    using mv(12) by (simp add: s' switch_threads_def Let_def sched_defs reap_def)
  moreover have "t \<in> set (remove1 n (thread_list s))" using t(1) nt by simp
  moreover have "n \<in> set (takeWhile (\<lambda>x. x \<noteq> t) (thread_list s))"
    using find_before [OF fd \<open>ready s tm t\<close> t(1) nt] .
  ultimately show ?thesis
    unfolding pos_def using pos_remove1_before [OF nt] by (simp add: pos_append)
qed

section \<open>Other steps\<close>

text \<open>What an operation does to the thread list: nothing, append a thread, or remove the current one.\<close>

definition list_kept :: "st \<Rightarrow> st \<Rightarrow> bool" where
  "list_kept s s' \<longleftrightarrow>
     (\<exists>ys. thread_list s' = thread_list s @ ys) \<or> thread_list s' = remove1 (current_thread s) (thread_list s)"

lemma list_kept_same: "thread_list s' = thread_list s \<Longrightarrow> list_kept s s'"
  by (simp add: list_kept_def)

lemma control_list [simp]:
  "thread_list (ret v s) = thread_list s" "thread_list (push f s) = thread_list s" "thread_list (pop s) = thread_list s"
  "thread_list (rumpkern_unsched i f s) = thread_list s" "thread_list (rumpkern_sched n i f s) = thread_list s"
  "thread_list (call_schedule f s) = thread_list s" "thread_list (abort_st s) = thread_list s"
  "thread_list (fault s) = thread_list s" "thread_list (wake t s) = thread_list s" "thread_list (block t s) = thread_list s"
  "thread_list (clear_runnable t s) = thread_list s" "thread_list (set_wakeup t w s) = thread_list s"
  "thread_list (set_flag t fl s) = thread_list s" "thread_list (clear_flag t fl s) = thread_list s"
  "thread_list (set_runnable t s) = thread_list s" "thread_list (set_curlwp l s) = thread_list s"
  "thread_list (cv_add c d s) = thread_list s" "thread_list (wakeup_all wh s) = thread_list s"
  "thread_list (wait tm wh nsec f s) = thread_list s"
  by (simp_all add: sched_defs thread_ops cv_add_def wakeup_all_def wait_def Let_def)

lemma op_list [simp]:
  "thread_list (mutex_loop tm m n s) = thread_list s" "thread_list (mutex_enter m s) = thread_list s"
  "thread_list (mutex_enter_nowrap m s) = thread_list s" "thread_list (mutex_exit m s) = thread_list s"
  "thread_list (mutex_destroy m s) = thread_list s" "thread_list (snd (mutex_tryenter mt m s)) = thread_list s"
  "thread_list (mutex_init m fl s) = thread_list s" "thread_list (rw_loop tm lk r n s) = thread_list s"
  "thread_list (rw_enter lk r s) = thread_list s" "thread_list (rw_exit r s) = thread_list s"
  "thread_list (rw_destroy r s) = thread_list s" "thread_list (rw_downgrade r s) = thread_list s"
  "thread_list (rw_tryupgrade r s) = thread_list s" "thread_list (snd (rw_tryenter lk rw r s)) = thread_list s"
  "thread_list (rw_init r s) = thread_list s"
  by (simp_all add: op_defs mutex_init_def rw_init_def Let_def split: option.split)

lemma cv_list [simp]:
  "thread_list (cv_wait c m s) = thread_list s" "thread_list (cv_timedwait c m sec nsec s) = thread_list s"
  "thread_list (cv_unsched tm c m nsec n s) = thread_list s" "thread_list (cv_resched c m n rv s) = thread_list s"
  "thread_list (cv_relock c m rv s) = thread_list s" "thread_list (cv_done c rv s) = thread_list s"
  "thread_list (cv_wait_nowrap tm c m s) = thread_list s" "thread_list (cv_signal c s) = thread_list s"
  "thread_list (cv_broadcast c s) = thread_list s" "thread_list (cv_destroy c s) = thread_list s"
  "thread_list (cv_init c s) = thread_list s"
  by (simp_all add: cv_wait_def cv_timedwait_def cv_wait_nsec_def cv_unsched_def cv_resched_def cv_relock_def
      cv_done_def cv_wait_nowrap_def cv_signal_def cv_broadcast_def cv_destroy_def cv_init_def Let_def
      split: option.split)

lemma thread_list_ops [simp]:
  "thread_list (clock_sleep clk sec nsec s) = thread_list s"
  "thread_list (clock_sleep_unsched tm clk ns n s) = thread_list s"
  "thread_list (join_thread j s) = thread_list s" "thread_list (join_resume j s) = thread_list s"
  "thread_list (wait_resume q s) = thread_list s"
  by (simp_all add: clock_sleep_def clock_sleep_unsched_def nsleep_def absnanosleep_def join_thread_def
      join_resume_def join_loop_def wait_resume_def Let_def)

lemma exit_list: "list_kept s (exit_loop s)"
  by (simp add: list_kept_def exit_loop_def Let_def get_current_def split: option.split)

lemma create_list: "list_kept s (snd (create_thread (Some t) mapped ck ext j s))"
  by (simp add: list_kept_def create_thread_def Let_def)

lemma do_call_list: "list_kept s (do_call tm c s)"
proof (cases c)
  case (CCreate t mapped ck ext j)
  with create_list [of s t mapped ck ext j] show ?thesis by (simp add: split_beta list_kept_def)
next
  case CExit
  with exit_list show ?thesis by (simp add: exit_thread_def)
qed (auto intro!: list_kept_same simp: split_beta split: option.split)

lemma resume_list: "list_kept s (resume tm f v s)"
  by (cases f) (auto intro!: list_kept_same simp: exit_list)

lemma step_list:
  assumes "step s s'" and "ctl s \<noteq> Scheduling"
  shows "list_kept s s'"
  using assms
proof (cases rule: step.cases)
  case (call c tm)
  then show ?thesis by (simp add: do_call_list)
next
  case (return_frame v f fs tm)
  have "list_kept (pop s) s'" using return_frame by (simp add: resume_list)
  then show ?thesis by (simp add: list_kept_def pop_def)
qed (auto intro!: list_kept_same)

lemma list_kept_pos:
  assumes "list_kept s s'" and "t \<in> set (thread_list s)" and "t \<in> set (thread_list s')" and "distinct (thread_list s)"
  shows "pos s' t \<le> pos s t"
  using assms(1) unfolding list_kept_def
proof
  assume "\<exists>ys. thread_list s' = thread_list s @ ys"
  with assms(2) show ?thesis by (auto simp: pos_def pos_append)
next
  assume r: "thread_list s' = remove1 (current_thread s) (thread_list s)"
  with assms(3,4) have "current_thread s \<noteq> t" by auto
  with r pos_remove1 show ?thesis by (auto simp: pos_def)
qed

section \<open>Bounded overtaking\<close>

text \<open>
  \<open>overtaken t k s s'\<close>: a run from \<open>s\<close> to \<open>s'\<close> during which \<open>t\<close> is in the thread
  list and runnable, and in which \<open>k\<close> times another thread is chosen and \<open>t\<close> never.
\<close>

inductive overtaken :: "nat \<Rightarrow> nat \<Rightarrow> st \<Rightarrow> st \<Rightarrow> bool" where
  start: "t \<in> set (thread_list s) \<Longrightarrow> is_runnable s t \<Longrightarrow> overtaken t 0 s s"
| other_step: "overtaken t k s s' \<Longrightarrow> step s' s'' \<Longrightarrow> ctl s' \<noteq> Scheduling \<Longrightarrow>
    t \<in> set (thread_list s'') \<Longrightarrow> is_runnable s'' t \<Longrightarrow> overtaken t k s s''"
| other_chosen: "overtaken t k s s' \<Longrightarrow> step s' s'' \<Longrightarrow> ctl s' = Scheduling \<Longrightarrow> current_thread s'' \<noteq> t \<Longrightarrow>
    t \<in> set (thread_list s'') \<Longrightarrow> is_runnable s'' t \<Longrightarrow> overtaken t (Suc k) s s''"

lemma overtaken_pos:
  assumes "overtaken t k s s'" and "sched_inv s"
  shows "k + pos s' t \<le> pos s t \<and> sched_inv s' \<and> t \<in> set (thread_list s') \<and> is_runnable s' t"
  using assms
proof (induction rule: overtaken.induct)
  case (other_step t k s s' s'')
  then have inv: "sched_inv s'" "t \<in> set (thread_list s')" by auto
  then have "distinct (thread_list s')" by (simp add: sched_inv_def base_def)
  with list_kept_pos [OF step_list] other_step inv have "pos s'' t \<le> pos s' t" by blast
  with other_step step_inv show ?case by auto
next
  case (other_chosen t k s s' s'')
  then have inv: "sched_inv s'" "t \<in> set (thread_list s')" "is_runnable s' t" by auto
  from other_chosen(2,3) obtain env where "schedule env s' = Some s''" by (auto elim: step.cases)
  with schedule_pos [OF inv] other_chosen have "pos s'' t < pos s' t" by blast
  with other_chosen step_inv show ?case by auto
qed simp

end
