(* ===== verification/Sched_Props.thy ===== *)
theory Sched_Props
  imports Sched_Fair
begin

text \<open>
  The properties of the thread library: the consistency of its lists and queues in every
  reachable state, mutexes, the scheduler's choices, wait queues, and what read/write locks and
  timed waits do where the code deviates from their documentation.
\<close>

section \<open>Concrete states\<close>

text \<open>Scripts: one action per step of the machine, at time 0.\<close>

datatype action = ACall lib_call | AHook int | AReturn | ASched "(int \<times> nat list) list"

fun act :: "action \<Rightarrow> st \<Rightarrow> st option" where
  "act (ACall c) s = (if ctl s = User \<and> call_ok c s then Some (do_call 0 c s) else None)"
| "act (AHook n) s =
     (if ctl s = User then
        case stk s (current_thread s) of FHook h # fs \<Rightarrow> Some (ret n (pop s)) | _ \<Rightarrow> None
      else None)"
| "act AReturn s =
     (case ctl s of
        Ret v \<Rightarrow>
          (case stk s (current_thread s) of
             [] \<Rightarrow> Some (s\<lparr>ctl := User\<rparr>)
           | f # fs \<Rightarrow> if is_hook f then Some (s\<lparr>ctl := User\<rparr>) else Some (resume 0 f v (pop s)))
      | _ \<Rightarrow> None)"
| "act (ASched env) s =
     (if ctl s = Scheduling \<and> (\<forall>(tm, w) \<in> set env. \<forall>t \<in> set w. threads s t \<noteq> None) then schedule env s
      else None)"

fun acts :: "action list \<Rightarrow> st \<Rightarrow> st option" where
  "acts [] s = Some s"
| "acts (a # as) s = (case act a s of None \<Rightarrow> None | Some s \<Rightarrow> acts as s)"

lemma act_step: "act a s = Some s' \<Longrightarrow> step s s'"
proof (cases a)
  case (ASched env)
  assume "act a s = Some s'"
  with ASched have "ctl s = Scheduling" "\<forall>(tm, w) \<in> set env. set w \<subseteq> dom (threads s)" "schedule env s = Some s'"
    by (auto split: if_splits)
  then show ?thesis by (rule step.sched)
qed (auto split: if_splits list.splits frame.splits ctl.splits intro: step.intros)

lemma acts_reachable: "acts as s = Some s' \<Longrightarrow> reachable s \<Longrightarrow> reachable s'"
  by (induction as arbitrary: s) (auto split: option.splits, meson reachable.step act_step)

lemmas eval_defs = sched_defs thread_ops init_sched_def create_thread_def mutex_init_def mutex_enter_def
  mutex_tryenter_def mutex_loop_def mutex_exit_def curlwp_def thr_def upd_thread_def schedule_def
  switch_threads_def reap_def is_runnable_def wait_def wakeup_one_def is_hook_def flag_simps
  RUNNABLE_FLAG_def THREAD_TIMEDOUT_def WAIT_NOTIMEOUT_def Let_def

text \<open>
  Thread 1 (lwp 5) creates threads 2 and 3 and a mutex, takes it and yields; the threads 2 (lwp 7)
  and 3 (lwp 8) wait for the mutex; thread 1 is scheduled again and releases it.
\<close>

definition contend :: "action list" where
  "contend =
     [ACall (CSetLwp 5), AReturn, ACall (CCreate 2 True 0 False False), AReturn,
      ACall (CCreate 3 True 0 False False), AReturn, ACall (CMutexInit 9 0), AReturn,
      ACall (CMutexEnter 9), AReturn, ACall CSchedule, ASched [(0, [])], AReturn, AReturn,
      ACall CSchedule, ASched [(0, [])],
      ACall (CSetLwp 7), AReturn, ACall (CMutexEnter 9), AHook 0, AReturn, ASched [(0, [])],
      ACall (CSetLwp 8), AReturn, ACall (CMutexEnter 9), AHook 0, AReturn, ASched [(0, [])],
      AReturn, AReturn, ACall (CMutexExit 9)]"

definition contended :: st where
  "contended = the (acts contend init_sched)"

lemma contended_run: "\<exists>s. acts contend init_sched = Some s \<and> ctl s = Ret 0 \<and>
    mtxs s 9 = Some \<lparr>m_v = 0, m_flags = 0, m_o = 0\<rparr> \<and> wq s (MtxWaiters 9) = [3]"
  by (simp add: contend_def eval_defs)

lemma contended_reachable: "reachable contended"
  and contended_facts: "ctl contended = Ret 0"
    "mtxs contended 9 = Some \<lparr>m_v = 0, m_flags = 0, m_o = 0\<rparr>" "wq contended (MtxWaiters 9) = [3]"
  using contended_run acts_reachable [OF _ reachable.init] by (auto simp: contended_def)

section \<open>Consistency\<close>

text \<open>
  C1: In every reachable state the thread list and the list of exited threads are disjoint and
  without duplicates and hold exactly the allocated threads; every wait queue is without duplicates
  and holds only threads of the thread list whose waiter is marked as queued; the current thread is
  allocated.  No queue ever refers to a freed thread.
\<close>

theorem thread_library_invariant:
  assumes "reachable s"
  shows "distinct (thread_list s @ exited_threads s) \<and>
    dom (threads s) = set (thread_list s) \<union> set (exited_threads s) \<and>
    (\<forall>q. distinct (wq s q) \<and> (\<forall>t \<in> set (wq s q). t \<in> set (thread_list s) \<and> onlist s t)) \<and>
    (ctl s = User \<or> (\<exists>v. ctl s = Ret v) \<longrightarrow> current_thread s \<in> set (thread_list s)) \<and>
    (ctl s = Scheduling \<longrightarrow> current_thread s \<in> dom (threads s))"
proof -
  have inv: "sched_inv s" using assms by (rule reachable_inv)
  then have b: "base s" by (simp add: sched_inv_def)
  with base_wqD [OF b] have "\<forall>q. distinct (wq s q) \<and> (\<forall>t \<in> set (wq s q). t \<in> set (thread_list s) \<and> onlist s t)"
    by (simp add: base_def)
  moreover have "distinct (thread_list s @ exited_threads s)"
    "dom (threads s) = set (thread_list s) \<union> set (exited_threads s)" using b by (simp_all only: base_def)
  moreover have "ctl s = User \<or> (\<exists>v. ctl s = Ret v) \<longrightarrow> current_thread s \<in> set (thread_list s)"
    "ctl s = Scheduling \<longrightarrow> current_thread s \<in> set (thread_list s) \<union> set (exited_threads s)"
    using inv by (auto simp: sched_inv_def)
  ultimately show ?thesis by simp
qed

theorem thread_library_invariant_witness:
  "distinct (thread_list contended @ exited_threads contended) \<and>
    dom (threads contended) = set (thread_list contended) \<union> set (exited_threads contended) \<and>
    (\<forall>q. distinct (wq contended q) \<and> (\<forall>t \<in> set (wq contended q). t \<in> set (thread_list contended) \<and> onlist contended t)) \<and>
    current_thread contended \<in> set (thread_list contended)"
  using thread_library_invariant [OF contended_reachable] contended_facts(1) by simp

section \<open>Mutexes\<close>

text \<open>
  C4: Mutexes do not lose wake-ups.  In every reachable state in which no assertion has failed, if
  a mutex is free while threads wait in its queue, then some thread has been taken off the queue
  and is runnable, so that it will try the mutex again, or the current thread is about to.
\<close>

theorem mutex_no_lost_wakeup:
  assumes "reachable s" and "ctl s \<noteq> Aborted" and "ctl s \<noteq> Fault"
    and "mtxs s m = Some mt" and "m_v mt = 0" and "wq s (MtxWaiters m) \<noteq> []"
  shows "(\<exists>t \<in> set (thread_list s). is_runnable s t \<and> \<not> onlist s t \<and>
            (\<exists>n fs. stk s t = FWait (MtxWaiters m) # FMutexLoop m n # fs)) \<or>
    (\<exists>v n fs. ctl s = Ret v \<and> stk s (current_thread s) = FMutexLoop m n # fs)"
proof -
  from reachable_no_lost [OF assms(1)] have inv: "sched_inv s" and nl: "no_lost s" by simp_all
  have "free_waited s m" using assms(4-6) by (simp add: free_waited_def)
  with nl assms(2,3) consider t where "baton s m t" | "retrying s m" by (auto simp: no_lost_def stopped_def)
  then show ?thesis
  proof cases
    case 1
    then obtain fs where fs: "stk s t = FWait (MtxWaiters m) # fs" by (auto simp: baton_def)
    have "stack_ok (stk s t)" using inv by (simp add: sched_inv_def base_def)
    with fs obtain n fs' where "fs = FMutexLoop m n # fs'" by (auto simp: stack_ok_def)
    with 1 fs show ?thesis by (auto simp: baton_def)
  next
    case 2
    then show ?thesis by (auto simp: retrying_def)
  qed
qed

theorem mutex_no_lost_wakeup_witness:
  "(\<exists>t \<in> set (thread_list contended). is_runnable contended t \<and> \<not> onlist contended t \<and>
      (\<exists>n fs. stk contended t = FWait (MtxWaiters 9) # FMutexLoop 9 n # fs)) \<or>
   (\<exists>v n fs. ctl contended = Ret v \<and> stk contended (current_thread contended) = FMutexLoop 9 n # fs)"
  by (rule mutex_no_lost_wakeup [OF contended_reachable _ _ contended_facts(2)])
    (simp_all add: contended_facts)

lemma tryenter_held:
  assumes "mtxs s m = Some mt" and "0 < m_v mt" and "m_o mt \<noteq> curlwp s" and "mtxs s m' = Some mt'"
  shows "mtxs (snd (mutex_tryenter mt' m' s)) m = Some mt"
  using assms by (auto simp: mutex_tryenter_def Let_def)

lemma nowrap_held:
  assumes "mtxs s m = Some mt" and "0 < m_v mt" and "m_o mt \<noteq> curlwp s"
  shows "mtxs (mutex_enter_nowrap m' s) m = Some mt" "mtxs (mutex_loop tm m' n s) m = Some mt"
    "mtxs (mutex_enter m' s) m = Some mt"
  using assms tryenter_held [OF assms]
  by (auto simp: mutex_enter_nowrap_def mutex_loop_def mutex_enter_def split_beta Let_def split: option.split)

lemma exit_other: "m' \<noteq> m \<Longrightarrow> mtxs (mutex_exit m' s) m = mtxs s m"
  by (simp add: mutex_exit_def split: option.split)

lemma cv_held:
  assumes "mtxs s m = Some mt" and "0 < m_v mt" and "m_o mt \<noteq> curlwp s"
  shows "mtxs (cv_resched c m' n rv s) m = Some mt" "mtxs (cv_relock c m' rv s) m = Some mt"
    "m' \<noteq> m \<Longrightarrow> mtxs (cv_unsched tm c m' nsec n s) m = Some mt"
    "m' \<noteq> m \<Longrightarrow> mtxs (cv_wait_nowrap tm c m' s) m = Some mt"
    "mtxs (cv_wait c m' s) m = Some mt" "mtxs (cv_timedwait c m' sec nsec s) m = Some mt"
    "mtxs (cv_done c rv s) m = Some mt" "mtxs (cv_signal c s) m = Some mt" "mtxs (cv_broadcast c s) m = Some mt"
    "mtxs (cv_destroy c s) m = Some mt"
  using assms nowrap_held(1) [OF assms]
  by (auto simp: cv_resched_def cv_relock_def cv_unsched_def cv_wait_nowrap_def cv_wait_def cv_timedwait_def
      cv_wait_nsec_def cv_done_def cv_signal_def cv_broadcast_def cv_destroy_def exit_other Let_def
      split: option.split)

text \<open>
  C5: Mutual exclusion.  While a mutex is held by one lwp, nothing that a thread of another lwp
  does in the library changes its owner or its count, apart from releasing it (\<open>mutex_exit\<close> and
  the condition variable waits that release it): not an entry attempt, not a destruction, and not
  the scheduler.
\<close>

theorem mutex_held_stable:
  assumes "mtxs s m = Some mt" and "0 < m_v mt" and "m_o mt \<noteq> 0" and "m_o mt \<noteq> curlwp s"
  shows "(call_ok c s \<and> c \<noteq> CMutexExit m \<and> (\<forall>x. c \<noteq> CCvWaitNowrap x m) \<longrightarrow> mtxs (do_call tm c s) m = Some mt) \<and>
    ((\<forall>x nsec. f \<noteq> FCvUnsched x m nsec) \<longrightarrow> mtxs (resume tm f v s) m = Some mt) \<and>
    (schedule env s = Some s' \<longrightarrow> mtxs s' m = Some mt)"
proof (intro conjI impI)
  note held = assms(1,2,4)
  assume c: "call_ok c s \<and> c \<noteq> CMutexExit m \<and> (\<forall>x. c \<noteq> CCvWaitNowrap x m)"
  show "mtxs (do_call tm c s) m = Some mt"
  proof (cases c)
    case (CMutexTryenter m')
    with held tryenter_held [OF held] show ?thesis by (auto simp: split_beta split: option.split)
  next
    case (CMutexDestroy m')
    with held assms(3) show ?thesis by (auto simp: mutex_destroy_def split: option.split)
  next
    case (CMutexInit m' fl)
    with held c show ?thesis by (auto simp: mutex_init_def)
  qed (use held c in \<open>auto simp: nowrap_held cv_held exit_other split_beta split: option.split\<close>)
next
  assume "\<forall>x nsec. f \<noteq> FCvUnsched x m nsec"
  then show "mtxs (resume tm f v s) m = Some mt"
    using assms by (cases f) (auto simp: nowrap_held cv_held)
next
  assume "schedule env s = Some s'"
  with schedule_mtxs assms(1) show "mtxs s' m = Some mt" by simp
qed

definition held_st :: st where
  "held_st = mutex_init 4 0 init_sched\<lparr>mtxs := [4 \<mapsto> \<lparr>m_v = 2, m_flags = 0, m_o = 5\<rparr>]\<rparr>"

theorem mutex_held_stable_witness:
  "mtxs (do_call 0 (CMutexEnter 4) held_st) 4 = Some \<lparr>m_v = 2, m_flags = 0, m_o = 5\<rparr>"
  using mutex_held_stable [of held_st 4 "\<lparr>m_v = 2, m_flags = 0, m_o = 5\<rparr>" "CMutexEnter 4"]
  by (simp add: held_st_def eval_defs)

section \<open>The scheduler\<close>

text \<open>
  C11: Bounded overtaking.  From any reachable state, a thread of the thread list that stays
  runnable is passed over by at most as many scheduling decisions as there are threads before it in
  the list, hence by fewer than there are threads.
\<close>

theorem bounded_overtaking:
  assumes "reachable s" and "overtaken t k s s'"
  shows "k \<le> pos s t \<and> pos s t < length (thread_list s)"
proof -
  have inv: "sched_inv s" using assms(1) by (rule reachable_inv)
  have "t \<in> set (thread_list s)"
    using assms(2) by (induction rule: overtaken.induct)
  then have "takeWhile (\<lambda>x. x \<noteq> t) (thread_list s) \<noteq> thread_list s" by (simp add: takeWhile_eq_all_conv)
  then have "pos s t < length (thread_list s)"
    unfolding pos_def by (metis length_takeWhile_le linorder_le_less_linear takeWhile_eq_take take_all_iff)
  with overtaken_pos [OF assms(2) inv] show ?thesis by simp
qed

text \<open>Scripts in which thread \<open>t\<close> stays runnable and is not chosen; the result counts the choices.\<close>

fun overtake :: "nat \<Rightarrow> action list \<Rightarrow> nat \<Rightarrow> st \<Rightarrow> (nat \<times> st) option" where
  "overtake t [] k s = Some (k, s)"
| "overtake t (a # as) k s =
     (case act a s of
        None \<Rightarrow> None
      | Some s' \<Rightarrow>
          if t \<in> set (thread_list s') \<and> is_runnable s' t then
            if ctl s \<noteq> Scheduling then overtake t as k s'
            else if current_thread s' \<noteq> t then overtake t as (Suc k) s' else None
          else None)"

lemma overtake_overtaken:
  "overtake t as k s' = Some (k', s'') \<Longrightarrow> overtaken t k s s' \<Longrightarrow> overtaken t k' s s''"
proof (induction as arbitrary: k s')
  case (Cons a as)
  then show ?case
    by (auto split: option.splits if_splits dest!: act_step intro: overtaken.other_step overtaken.other_chosen)
qed simp

definition two_created :: st where
  "two_created = the (acts [ACall (CCreate 2 True 0 False False), AReturn,
     ACall (CCreate 3 True 0 False False), AReturn] init_sched)"

lemma two_created_run:
  "\<exists>s s' . acts [ACall (CCreate 2 True 0 False False), AReturn,
      ACall (CCreate 3 True 0 False False), AReturn] init_sched = Some s \<and>
    3 \<in> set (thread_list s) \<and> is_runnable s 3 \<and>
    overtake 3 [ACall CSchedule, ASched [(0, [])], AReturn, AReturn, ACall CSchedule, ASched [(0, [])]] 0 s = Some (2, s')"
  by (simp add: eval_defs)

lemma two_created_overtaken: "reachable two_created" "\<exists>s'. overtaken 3 2 two_created s'"
proof -
  obtain s s' where s: "acts [ACall (CCreate 2 True 0 False False), AReturn,
      ACall (CCreate 3 True 0 False False), AReturn] init_sched = Some s"
    and st: "3 \<in> set (thread_list s)" "is_runnable s 3"
    and o: "overtake 3 [ACall CSchedule, ASched [(0, [])], AReturn, AReturn, ACall CSchedule, ASched [(0, [])]] 0 s = Some (2, s')"
    using two_created_run by blast
  have e: "two_created = s" by (simp only: two_created_def s option.sel)
  show "reachable two_created" unfolding e by (rule acts_reachable [OF s reachable.init])
  show "\<exists>s'. overtaken 3 2 two_created s'"
    unfolding e using overtake_overtaken [OF o overtaken.start [OF st]] by blast
qed

theorem bounded_overtaking_witness:
  "(\<exists>s'. overtaken 3 2 two_created s') \<and> 2 \<le> pos two_created 3 \<and> pos two_created 3 < length (thread_list two_created)"
  using two_created_overtaken(2) bounded_overtaking [OF two_created_overtaken(1)] by blast

text \<open>
  C17: When some thread of the list is runnable or has slept long enough, \<open>schedule\<close> returns in
  its first pass; it chooses the first such thread of the list, moves it to the end, and lets it run.
\<close>

theorem schedule_chooses_first:
  assumes "set (thread_list s) \<subseteq> dom (threads s)" and "t \<in> set (thread_list s)" and "ready s tm t"
  shows "\<exists>n s'. schedule ((tm, woken) # env) s = Some s' \<and> current_thread s' = n \<and>
    List.find (ready s tm) (thread_list s) = Some n \<and> thread_list s' = remove1 n (thread_list s) @ [n]"
proof -
  obtain n s1 where lp: "schedule_loop ((tm, woken) # env) s = Some (n, s1)"
    and f: "List.find (ready s tm) (thread_list s) = Some n"
    using schedule_loop_first [OF assms] by blast
  have "schedule ((tm, woken) # env) s = Some (switch_threads n s1)" by (simp only: schedule_def lp option.case prod.case)
  moreover have "current_thread (switch_threads n s1) = n"
    "thread_list (switch_threads n s1) = remove1 n (thread_list s) @ [n]"
    using moved_sel(12) [OF schedule_loop_moved [OF lp]]
    by (simp_all add: switch_threads_def Let_def sched_defs reap_def)
  ultimately show ?thesis using f by blast
qed

theorem schedule_chooses_first_witness:
  "\<exists>n s'. schedule [(5, [])] init_sched = Some s' \<and> current_thread s' = n \<and>
    List.find (ready init_sched 5) (thread_list init_sched) = Some n \<and>
    thread_list s' = remove1 n (thread_list init_sched) @ [n]"
  by (rule schedule_chooses_first [of _ 1]) (simp_all add: ready_def eval_defs)

text \<open>
  When no thread is ready, the scheduler sleeps for a positive time of at most one millisecond
  that ends no later than the earliest wake-up time of a sleeping thread, and the request it passes
  to the host is a well-formed \<open>timespec\<close>.
\<close>

theorem schedule_sleep_bound:
  assumes "\<forall>t \<in> set (thread_list s). \<not> ready s tm t"
  shows "\<exists>wakeup sec nsec. scan tm (tm + 1000 * 1000) (thread_list s) s = (None, wakeup, s) \<and>
    sleep_request tm wakeup = (sec, nsec) \<and> sec = 0 \<and> 0 < nsec \<and> nsec \<le> 1000000 \<and>
    (\<forall>t \<in> set (thread_list s). 0 \<le> wakeup_time (thr s t) \<longrightarrow> tm + nsec \<le> wakeup_time (thr s t))"
proof -
  let ?w = "earliest s (tm + 1000 * 1000) (thread_list s)"
  have sc: "scan tm (tm + 1000 * 1000) (thread_list s) s = (None, ?w, s)" by (rule scan_none [OF assms])
  have le: "?w \<le> tm + 1000000" using earliest_le [of s "tm + 1000 * 1000" "thread_list s"] by simp
  have gt: "tm < ?w" using assms by (intro earliest_gt) (auto simp: ready_def)
  have "(?w - tm) div 1000000000 = 0" using le gt by simp
  then have "sleep_request tm ?w = (0, ?w - tm)" by (simp add: sleep_request_def)
  moreover have "\<forall>t \<in> set (thread_list s). 0 \<le> wakeup_time (thr s t) \<longrightarrow> tm + (?w - tm) \<le> wakeup_time (thr s t)"
    using earliest_le_wakeup [of _ "thread_list s" s "tm + 1000 * 1000"] by simp
  ultimately show ?thesis using sc le gt by (intro exI [of _ ?w] exI [of _ 0] exI [of _ "?w - tm"]) simp
qed

theorem schedule_sleep_bound_witness:
  "\<exists>wakeup sec nsec. scan 7 (7 + 1000 * 1000) (thread_list (block 1 init_sched)) (block 1 init_sched) =
      (None, wakeup, block 1 init_sched) \<and>
    sleep_request 7 wakeup = (sec, nsec) \<and> sec = 0 \<and> 0 < nsec \<and> nsec \<le> 1000000 \<and>
    (\<forall>t \<in> set (thread_list (block 1 init_sched)). 0 \<le> wakeup_time (thr (block 1 init_sched) t) \<longrightarrow>
       7 + nsec \<le> wakeup_time (thr (block 1 init_sched) t))"
  by (rule schedule_sleep_bound) (simp add: ready_def eval_defs)

section \<open>Wait queues\<close>

lemma runnable_flag_self: "has_flag RUNNABLE_FLAG RUNNABLE_FLAG"
  by (simp add: RUNNABLE_FLAG_def has_flag_def)

text \<open>
  C29: Waiting and waking.  \<open>wait\<close> puts the current thread at the end of the queue, stops it and
  sets its time-out; \<open>wakeup_one\<close> takes the longest waiting thread off the queue and makes it
  runnable, and leaves all other threads and queues as they are; a thread that resumes in
  \<open>wait\<close> gets 0 when it was taken off, and otherwise \<open>ETIMEDOUT\<close>, and then it is no longer
  in the queue.
\<close>

theorem wait_wakeup_contract:
  assumes "who = current_thread s" and "threads s who = Some x" and "nsec \<noteq> 0" and "wq s' q = w # ws"
    and "w \<in> dom (threads s')" and "distinct (wq s q)"
  shows "(let s1 = wait tm q nsec f s in
      ctl s1 = Scheduling \<and> wq s1 q = wq s q @ [who] \<and> onlist s1 who \<and> \<not> is_runnable s1 who \<and>
      wakeup_time (thr s1 who) = (if nsec = WAIT_NOTIMEOUT then -1 else wrap64 (tm + nsec)) \<and>
      stk s1 who = FWait q # f # stk s who) \<and>
    (let s1 = wakeup_one q s' in
      wq s1 = (wq s')(q := ws) \<and> \<not> onlist s1 w \<and> is_runnable s1 w \<and>
      (\<forall>t. t \<noteq> w \<longrightarrow> threads s1 t = threads s' t \<and> onlist s1 t = onlist s' t)) \<and>
    (let s1 = wait_resume q s in
      if onlist s who then ctl s1 = Ret (errno_val ETIMEDOUT) \<and> who \<notin> set (wq s1 q) else s1 = ret 0 s)"
  using assms
  by (auto simp: wait_def wakeup_one_def wait_resume_def sched_defs thread_ops upd_thread_def thr_def
      is_runnable_def flag_simps runnable_flag_self Let_def)

definition queued_st :: st where
  "queued_st = wait 5 (CvWaiters 2) 100 (FReturn 0) init_sched"

theorem wait_wakeup_contract_witness:
  "wq queued_st (CvWaiters 2) = [1] \<and> is_runnable (wakeup_one (CvWaiters 2) queued_st) 1 \<and>
   ctl (wait_resume (CvWaiters 2) init_sched) = Ret 0"
  using wait_wakeup_contract [of 1 init_sched _ 100 queued_st "CvWaiters 2" 1 "[]" 5 "FReturn 0"]
  by (simp add: queued_st_def eval_defs)

section \<open>Deviations\<close>

text \<open>
  C30: \<open>rw_tryenter\<close> for writing looks at the writer only: a read/write lock that is free of
  writers is given to a writer whatever the number of readers, and a run reaches a state in which
  a reader and a writer of different lwps hold the same lock.
\<close>

theorem rw_writer_joins_readers:
  "(\<forall>v. rw_tryenter RW_WRITER \<lparr>rw_v = v, rw_o = 0\<rparr> r s =
      (0, s\<lparr>rws := (rws s)(r \<mapsto> \<lparr>rw_v = v, rw_o = curlwp s\<rparr>)\<rparr>)) \<and>
   (\<exists>s'. reachable s' \<and> rws s' 4 = Some \<lparr>rw_v = 1, rw_o = 7\<rparr>)"
proof
  show "\<forall>v. rw_tryenter RW_WRITER \<lparr>rw_v = v, rw_o = 0\<rparr> r s =
      (0, s\<lparr>rws := (rws s)(r \<mapsto> \<lparr>rw_v = v, rw_o = curlwp s\<rparr>)\<rparr>)"
    by (simp add: rw_tryenter_def)
  have "\<exists>s'. acts [ACall (CSetLwp 5), AReturn, ACall (CRwInit 4), AReturn, ACall (CRwEnter RW_READER 4), AReturn,
      ACall (CCreate 2 True 0 False False), AReturn, ACall CSchedule, ASched [(0, [])], AReturn, AReturn,
      ACall CSchedule, ASched [(0, [])], ACall (CSetLwp 7), AReturn, ACall (CRwEnter RW_WRITER 4)] init_sched = Some s' \<and>
      rws s' 4 = Some \<lparr>rw_v = 1, rw_o = 7\<rparr>"
    by (simp add: eval_defs rw_init_def rw_enter_def rw_tryenter_def RW_WRITER_def RW_READER_def)
  then show "\<exists>s'. reachable s' \<and> rws s' 4 = Some \<lparr>rw_v = 1, rw_o = 7\<rparr>"
    using acts_reachable [OF _ reachable.init] by blast
qed

text \<open>
  A timed wait with a time-out of zero does not time out: after the mutex has been released the
  assertion of \<open>wait\<close> stops the program.
\<close>

theorem cv_timedwait_zero_aborts:
  "\<exists>s'. acts [ACall (CSetLwp 5), AReturn, ACall (CMutexInit 9 0), AReturn, ACall (CMutexEnter 9), AReturn,
      ACall (CCvInit 2), AReturn, ACall (CCvTimedwait 2 9 0 0), AHook 0, AReturn] init_sched = Some s' \<and>
    reachable s' \<and> ctl s' = Aborted"
proof -
  have "\<exists>s'. acts [ACall (CSetLwp 5), AReturn, ACall (CMutexInit 9 0), AReturn, ACall (CMutexEnter 9), AReturn,
      ACall (CCvInit 2), AReturn, ACall (CCvTimedwait 2 9 0 0), AHook 0, AReturn] init_sched = Some s' \<and> ctl s' = Aborted"
    by (simp add: eval_defs cv_init_def cv_timedwait_def cv_wait_nsec_def cv_add_def cv_unsched_def nsecs_def wrap64_def)
  then show ?thesis using acts_reachable [OF _ reachable.init] by blast
qed

end
