(* ===== verification/Calls.thy ===== *)
theory Calls
  imports Libc "HOL-Library.Monad_Syntax"
begin

text \<open>
  Calls that leave the modelled code: system calls, hypercalls and functions of the kernel.  A
  call is the C name of the function with the arguments that matter; what it returns is given by a
  parameter, from the calls made before it.  Runs record their calls in order.
\<close>

datatype arg = AI int | AS string

datatype ext = Ext string "arg list"

type_synonym answers = "ext list \<Rightarrow> ext \<Rightarrow> int"

fun ext_name :: "ext \<Rightarrow> string" where
  "ext_name (Ext f as) = f"

text \<open>The string in a buffer.\<close>

definition cstr :: "string \<Rightarrow> string" where
  "cstr b = takeWhile (\<lambda>c. c \<noteq> NUL) b"

lemma nul_free_append [simp]: "nul_free (s @ t) \<longleftrightarrow> nul_free s \<and> nul_free t"
  by (auto simp: nul_free_def)

lemma nul_free_Cons [simp]: "nul_free (c # s) \<longleftrightarrow> c \<noteq> NUL \<and> nul_free s"
  by (auto simp: nul_free_def)

lemma nul_free_Nil [simp]: "nul_free []"
  by (simp add: nul_free_def)

lemma cstr_cstring [simp]: "nul_free s \<Longrightarrow> cstr (cstring s @ r) = s"
  by (induction s) (auto simp: cstr_def cstring_def nul_free_def)

lemma cstr_cstring_plain [simp]: "nul_free s \<Longrightarrow> cstr (cstring s) = s"
  using cstr_cstring [of s "[]"] by simp

end
