(* ===== verification/Fdtable.thy ===== *)
theory Fdtable
  imports Calls
begin

text \<open>
  The table of file descriptors that the host passes in, franken/init/fdinit.c, and the order of
  start-up in franken/init/start_main.c.  \<open>__franken_fdinit\<close> fills \<open>__franken_fd\<close> from the
  three standard descriptors and from the environment entries that rexec wrote;
  \<open>__franken_fdinit_create\<close> later registers the descriptors with the kernel and mounts the
  file systems.  The kernel and the host are parameters: \<open>h_fstat\<close> and \<open>h_getfl\<close> are what
  the host reports of a descriptor, \<open>h_ans\<close> answers a call from the calls made before, and a
  run records its calls.  \<open>musl\<close> tells the two builds apart (\<open>MUSL_LIBC\<close>).  An access
  outside the table or outside a string, and \<open>abort\<close>, are \<open>None\<close>; messages are left out.
\<close>

section \<open>Data\<close>

definition MAXFD :: nat where
  "MAXFD = 64"

record stat =
  st_mode :: "32 word"
  st_size :: int
  st_hwaddr :: "8 word list"

text \<open>A \<open>struct stat\<close> cleared by \<open>memset\<close>.\<close>

definition stat0 :: stat where
  "stat0 = \<lparr>st_mode = 0, st_size = 0, st_hwaddr = replicate 6 0\<rparr>"

definition S_IFMT :: "32 word" where "S_IFMT = 0xF000"
definition S_IFIFO :: "32 word" where "S_IFIFO = 0x1000"
definition S_IFCHR :: "32 word" where "S_IFCHR = 0x2000"
definition S_IFDIR :: "32 word" where "S_IFDIR = 0x4000"
definition S_IFBLK :: "32 word" where "S_IFBLK = 0x6000"
definition S_IFREG :: "32 word" where "S_IFREG = 0x8000"
definition S_IFLNK :: "32 word" where "S_IFLNK = 0xA000"
definition S_IFSOCK :: "32 word" where "S_IFSOCK = 0xC000"

definition O_RDONLY :: "32 word" where "O_RDONLY = 0"
definition O_WRONLY :: "32 word" where "O_WRONLY = 1"
definition O_RDWR :: "32 word" where "O_RDWR = 2"
definition O_ACCMODE :: "32 word" where "O_ACCMODE = 3"

definition MNT_RDONLY :: "32 word" where "MNT_RDONLY = 1"
definition MNT_LOG :: "32 word" where "MNT_LOG = 0x02000000"
definition MNT_FORCE :: "32 word" where "MNT_FORCE = 0x00080000"

definition AF_UNSPEC :: int where "AF_UNSPEC = 0"
definition AF_INET :: int where "AF_INET = 2"
definition AF_INET6 :: int where "AF_INET6 = 24"

text \<open>The fields of \<open>struct __fdtable\<close> that the repository uses.\<close>

record fdtable =
  fd_valid :: int
  fd_flags :: "32 word"
  fd_seek :: int
  fd_st :: stat
  fd_wake :: nat
  fd_mounted :: int

definition fd0 :: fdtable where
  "fd0 = \<lparr>fd_valid = 0, fd_flags = 0, fd_seek = 0, fd_st = stat0, fd_wake = 0, fd_mounted = 0\<rparr>"

text \<open>\<open>enum rump_etfs_type\<close>\<close>

definition RUMP_ETFS_REG :: int where "RUMP_ETFS_REG = 0"
definition RUMP_ETFS_BLK :: int where "RUMP_ETFS_BLK = 1"
definition RUMP_ETFS_CHR :: int where "RUMP_ETFS_CHR = 2"

datatype exit_fn = Unmount_atexit | Finifn

record host =
  h_fstat :: "int \<Rightarrow> stat option"
  h_getfl :: "int \<Rightarrow> 32 word"
  h_ans :: answers
  h_mnt :: "ext list \<Rightarrow> string"

record init_st =
  fdt :: "fdtable list"
  disk_id :: int
  json_cfg :: bool
  exit_fns :: "exit_fn list"
  ext_calls :: "ext list"

definition init0 :: init_st where
  "init0 = \<lparr>fdt = replicate MAXFD fd0, disk_id = 0, json_cfg = False, exit_fns = [], ext_calls = []\<rparr>"

definition ext_call :: "host \<Rightarrow> ext \<Rightarrow> init_st \<Rightarrow> int \<times> init_st" where
  "ext_call h c s = (h_ans h (ext_calls s) c, s\<lparr>ext_calls := ext_calls s @ [c]\<rparr>)"

definition ext_do :: "host \<Rightarrow> ext \<Rightarrow> init_st \<Rightarrow> init_st" where
  "ext_do h c s = snd (ext_call h c s)"

definition get_fd :: "int \<Rightarrow> init_st \<Rightarrow> fdtable option" where
  "get_fd fd s = (if 0 \<le> fd \<and> fd < int MAXFD then Some (fdt s ! nat fd) else None)"

definition upd_fd :: "int \<Rightarrow> (fdtable \<Rightarrow> fdtable) \<Rightarrow> init_st \<Rightarrow> init_st option" where
  "upd_fd fd f s =
     (if 0 \<le> fd \<and> fd < int MAXFD then Some (s\<lparr>fdt := (fdt s)[nat fd := f (fdt s ! nat fd)]\<rparr>) else None)"

section \<open>Device names\<close>

text \<open>Bytes written from the start of an object.\<close>

definition put :: "string \<Rightarrow> string \<Rightarrow> string option" where
  "put bs d = (if length bs \<le> length d then Some (bs @ drop (length bs) d) else None)"

text \<open>A number as \<open>mkkey\<close> prints it.\<close>

definition mkkey_num :: "int \<Rightarrow> string" where
  "mkkey_num n =
     (let (out, n) = (if 9 < n then ([char_of (n div 10 + 48)], n div 10) else ([], n))
      in out @ [char_of (n + 48), NUL])"

definition mkkey :: "string \<Rightarrow> string \<Rightarrow> string \<Rightarrow> int \<Rightarrow> int \<Rightarrow> (string \<times> string) option" where
  "mkkey k n pre dev fd =
     do {
       len \<leftarrow> strlen pre;
       if 99 < fd \<or> 99 < dev then None
       else do {
         k \<leftarrow> put (take len pre @ mkkey_num dev) k;
         n \<leftarrow> put (mkkey_num fd) n;
         Some (k, n)
       }
     }"

definition buf16 :: string where
  "buf16 = replicate 16 NUL"

section \<open>Filling the table\<close>

text \<open>\<open>franken_lkl_load_json_config\<close>\<close>

definition load_json_config :: "host \<Rightarrow> int \<Rightarrow> init_st \<Rightarrow> init_st" where
  "load_json_config h fd s =
     (let (p, s) = ext_call h (Ext ''malloc'' []) s
      in if p = 0 then s\<lparr>json_cfg := False\<rparr>
         else
           let s = s\<lparr>json_cfg := True\<rparr>;
               s = ext_do h (Ext ''read'' [AI fd, AI 4096]) s
           in ext_do h (Ext ''lkl_load_config_json'' []) s)"

text \<open>The first loop of \<open>__franken_fdinit\<close>.\<close>

definition fdinit_std :: "host \<Rightarrow> int \<Rightarrow> init_st \<Rightarrow> init_st option" where
  "fdinit_std h n s =
     (case h_fstat h n of
        None \<Rightarrow> upd_fd n (fd_valid_update (\<lambda>_. 0)) s
      | Some st \<Rightarrow>
          upd_fd n (\<lambda>e. e\<lparr>fd_valid := 1, fd_flags := h_getfl h n, fd_st := st, fd_seek := 0\<rparr>) s)"

text \<open>The search for the equals sign.\<close>

fun var_loop :: "nat \<Rightarrow> string \<Rightarrow> string option" where
  "var_loop (Suc n) (c # s) = (if c = CHR ''='' then Some (c # s) else var_loop n s)"
| "var_loop n s = None"

definition env_is :: "string \<Rightarrow> string \<Rightarrow> nat \<Rightarrow> bool option" where
  "env_is env name n = map_option (\<lambda>d. d = 0) (strncmp env (cstring name) n)"

text \<open>The branches of the second loop, for the entry \<open>env\<close> with number \<open>fd\<close> and counter \<open>n\<close>.\<close>

definition fdinit_info :: "host \<Rightarrow> int \<Rightarrow> int \<Rightarrow> init_st \<Rightarrow> init_st option" where
  "fdinit_info h n fd s =
     do {
       s \<leftarrow> upd_fd fd (\<lambda>e. e\<lparr>fd_valid := 1, fd_flags := h_getfl h fd\<rparr>) s;
       s \<leftarrow> (if h_fstat h fd = None then upd_fd n (fd_valid_update (\<lambda>_. 0)) s else Some s);
       upd_fd fd (fd_st_update (\<lambda>_. case h_fstat h fd of None \<Rightarrow> stat0 | Some st \<Rightarrow> st)) s
     }"

definition fdinit_disk :: "host \<Rightarrow> int \<Rightarrow> init_st \<Rightarrow> init_st option" where
  "fdinit_disk h fd s =
     do {
       s \<leftarrow> upd_fd fd (fd_seek_update (\<lambda>_. 1)) s;
       let (r, s) = ext_call h (Ext ''lkl_disk_add'' [AI fd]) s;
       Some (s\<lparr>disk_id := r\<rparr>)
     }"

definition fdinit_net :: "host \<Rightarrow> int \<Rightarrow> init_st \<Rightarrow> init_st option" where
  "fdinit_net h fd s =
     do {
       s \<leftarrow> upd_fd fd (fd_seek_update (\<lambda>_. 0)) s;
       Some (ext_do h (Ext ''lkl_netdev_rumpfd_create'' [AI fd]) s)
     }"

definition fdinit_9pfs :: "host \<Rightarrow> string list \<Rightarrow> int \<Rightarrow> init_st \<Rightarrow> init_st option" where
  "fdinit_9pfs h environ fd s =
     do {
       s \<leftarrow> upd_fd fd (fd_seek_update (\<lambda>_. 0)) s;
       tmpfd \<leftarrow> getenv environ (cstring ''9PFS_FD'');
       (case tmpfd of
          Inr (Some v) \<Rightarrow> do { f \<leftarrow> atoi v; Some (ext_do h (Ext ''lkl_9pfs_add'' [AI f]) s) }
        | _ \<Rightarrow> None)
     }"

definition fdinit_env :: "host \<Rightarrow> string list \<Rightarrow> int \<Rightarrow> string \<Rightarrow> init_st \<Rightarrow> init_st option" where
  "fdinit_env h environ n env s =
     do {
       len \<leftarrow> strlen env;
       (case var_loop len env of
          None \<Rightarrow> Some s
        | Some var \<Rightarrow>
            do {
              fd \<leftarrow> atoi (tl var);
              info \<leftarrow> env_is env ''__RUMP_FDINFO_'' 14;
              p9 \<leftarrow> env_is env ''9PFS_FD'' 7;
              s \<leftarrow> (if info \<or> p9 then fdinit_info h n fd s else Some s);
              json \<leftarrow> env_is env ''__RUMP_FDINFO_CONFIGJSON'' 24;
              let s = (if json then load_json_config h fd s else s);
              root \<leftarrow> env_is env ''__RUMP_FDINFO_ROOT'' 18;
              disk \<leftarrow> env_is env ''__RUMP_FDINFO_DISK_'' 18;
              s \<leftarrow> (if root \<or> disk then fdinit_disk h fd s else Some s);
              net \<leftarrow> env_is env ''__RUMP_FDINFO_NET_'' 18;
              s \<leftarrow> (if net then fdinit_net h fd s else Some s);
              if p9 then fdinit_9pfs h environ fd s else Some s
            })
     }"

text \<open>
  The second loop: \<open>n\<close> is incremented by the expression that fetches the next entry, so that
  the entry handled with counter \<open>n > 0\<close> is \<open>environ[n - 1]\<close>.
\<close>

fun fdinit_loop :: "host \<Rightarrow> string list \<Rightarrow> int \<Rightarrow> string list \<Rightarrow> init_st \<Rightarrow> init_st option" where
  "fdinit_loop h environ n [] s = Some s"
| "fdinit_loop h environ n (env # es) s =
     do { s \<leftarrow> fdinit_env h environ n env s; fdinit_loop h environ (n + 1) es s }"

definition franken_fdinit :: "host \<Rightarrow> string list \<Rightarrow> init_st \<Rightarrow> init_st option" where
  "franken_fdinit h environ s =
     do {
       s \<leftarrow> fdinit_std h 0 s;
       s \<leftarrow> fdinit_std h 1 s;
       s \<leftarrow> fdinit_std h 2 s;
       (case environ of
          [] \<Rightarrow> Some s
        | env # _ \<Rightarrow> do { s \<leftarrow> fdinit_env h environ 0 env s; fdinit_loop h environ 1 environ s })
     }"

section \<open>Registering the descriptors\<close>

definition mount_tmpfs :: "host \<Rightarrow> init_st \<Rightarrow> init_st" where
  "mount_tmpfs h s =
     (let s = ext_do h (Ext ''mkdir'' [AS ''/tmp'', AI 511]) s
      in ext_do h (Ext ''mount'' [AS ''tmpfs'', AS ''/tmp'', AI 0]) s)"

definition unmount_atexit :: "host \<Rightarrow> init_st \<Rightarrow> init_st" where
  "unmount_atexit h s = ext_do h (Ext ''unmount'' [AS ''/'', AI (uint MNT_FORCE)]) s"

definition add_exit_fn :: "exit_fn \<Rightarrow> init_st \<Rightarrow> init_st" where
  "add_exit_fn f s = (case atexit (exit_fns s) f of Inl _ \<Rightarrow> s | Inr fs \<Rightarrow> s\<lparr>exit_fns := fs\<rparr>)"

definition register_reg :: "host \<Rightarrow> bool \<Rightarrow> int \<Rightarrow> int \<Rightarrow> 32 word \<Rightarrow> init_st \<Rightarrow> (int \<times> init_st) option" where
  "register_reg h musl dev fd flags s =
     do {
       e \<leftarrow> get_fd fd s;
       if musl \<and> st_mode (fd_st e) AND S_IFMT = S_IFREG then Some (fd, s)
       else do {
         (key, num) \<leftarrow> (if \<not> musl then mkkey buf16 buf16 (cstring ''/dev/vfile'') dev fd
                       else Some (cstring ''/dev/console'', buf16));
         let s = ext_do h (Ext ''etfs_register'' [AS (cstr key), AS (cstr num), AI RUMP_ETFS_REG]) s;
         Some (ext_call h (Ext ''open'' [AS (cstr key), AI (uint flags)]) s)
       }
     }"

text \<open>\<open>register_net\<close>, which does nothing in the musl build: the IPv6 part, the IPv4 part, the capabilities.\<close>

definition register_net_ipv6 :: "host \<Rightarrow> string \<Rightarrow> init_st \<Rightarrow> int \<times> init_st" where
  "register_net_ipv6 h key s =
     (let (sock, s) = ext_call h (Ext ''socket'' [AI AF_INET6]) s
      in if sock \<noteq> -1 then
           let s = ext_do h (Ext ''netconfig_auto_ipv6'' [AS key]) s;
               s = ext_do h (Ext ''close'' [AI sock]) s
           in (AF_INET6, s)
         else (AF_UNSPEC, s))"

definition getenv_str :: "string list \<Rightarrow> string \<Rightarrow> string option option" where
  "getenv_str environ name =
     map_option (\<lambda>r. case r of Inr (Some v) \<Rightarrow> Some v | _ \<Rightarrow> None) (getenv environ (cstring name))"

definition register_net_ipv4 :: "host \<Rightarrow> string list \<Rightarrow> string \<Rightarrow> int \<Rightarrow> init_st \<Rightarrow> (int \<times> init_st) option" where
  "register_net_ipv4 h environ key af s =
     (let (sock, s) = ext_call h (Ext ''socket'' [AI AF_INET]) s
      in if sock \<noteq> -1 then
           do {
             addr \<leftarrow> getenv_str environ ''FIXED_ADDRESS'';
             netmask \<leftarrow> getenv_str environ ''FIXED_MASK'';
             gw \<leftarrow> getenv_str environ ''FIXED_GATEWAY'';
             s \<leftarrow> (case (addr, netmask, gw) of
                    (Some addr, Some netmask, Some gw) \<Rightarrow>
                      do {
                        let s = ext_do h (Ext ''netconfig_ifup'' [AS key]) s;
                        m \<leftarrow> atoi netmask;
                        let s = ext_do h (Ext ''netconfig_ipv4_ifaddr_cidr'' [AS key, AS (cstr addr), AI m]) s;
                        Some (ext_do h (Ext ''netconfig_ipv4_gw'' [AS (cstr gw)]) s)
                      }
                  | _ \<Rightarrow> Some (ext_do h (Ext ''netconfig_dhcp_ipv4_oneshot'' [AS key]) s));
             let s = ext_do h (Ext ''close'' [AI sock]) s;
             Some (AF_INET, s)
           }
         else Some (af, s))"

definition register_net_cap :: "host \<Rightarrow> string \<Rightarrow> int \<Rightarrow> init_st \<Rightarrow> init_st" where
  "register_net_cap h key af s =
     (let (sock, s) = ext_call h (Ext ''socket'' [AI af]) s
      in if sock \<noteq> -1 then
           let (ret, s) = ext_call h (Ext ''ioctl'' [AI sock, AS ''SIOCGIFCAP'', AS key]) s;
               s = (if ret \<noteq> -1 then ext_do h (Ext ''ioctl'' [AI sock, AS ''SIOCSIFCAP'', AS key]) s else s)
           in ext_do h (Ext ''close'' [AI sock]) s
         else s)"

definition register_net :: "host \<Rightarrow> bool \<Rightarrow> string list \<Rightarrow> int \<Rightarrow> init_st \<Rightarrow> init_st option" where
  "register_net h musl environ fd s =
     (if musl then Some s
      else do {
        (key, num) \<leftarrow> mkkey buf16 buf16 (cstring ''virt'') fd fd;
        let (ret, s) = ext_call h (Ext ''netconfig_ifcreate'' [AS (cstr key)]) s;
        if ret = 0 then do {
          let (af, s) = register_net_ipv6 h (cstr key) s;
          (af, s) \<leftarrow> register_net_ipv4 h environ (cstr key) af s;
          Some (register_net_cap h (cstr key) af s)
        } else Some s
      })"

definition register_block_musl :: "host \<Rightarrow> init_st \<Rightarrow> int \<times> init_st" where
  "register_block_musl h s =
     (let (ret, s) = ext_call h (Ext ''lkl_mount_dev'' [AI (disk_id s), AS ''ext4'', AI 0]) s;
          s = (if ret < 0 then ext_do h (Ext ''lkl_mount_dev'' [AI (disk_id s), AS ''iso9660'', AI 1]) s else s);
          mnt_point = h_mnt h (ext_calls s);
          s = ext_do h (Ext ''chroot'' [AS mnt_point]) s;
          s = ext_do h (Ext ''chdir'' [AS ''/'']) s;
          s = ext_do h (Ext ''mkdir'' [AS ''/dev/'', AI 448]) s;
          s = ext_do h (Ext ''mknod'' [AS ''/dev/null'', AI 1, AI 3]) s;
          (ret, s) = ext_call h (Ext ''mknod'' [AS ''/dev/urandom'', AI 1, AI 9]) s
      in (ret, add_exit_fn Unmount_atexit s))"

definition register_block_netbsd ::
  "host \<Rightarrow> int \<Rightarrow> int \<Rightarrow> 32 word \<Rightarrow> int \<Rightarrow> bool \<Rightarrow> init_st \<Rightarrow> (int \<times> init_st) option" where
  "register_block_netbsd h dev fd flags sz root s =
     do {
       (key, num) \<leftarrow> mkkey buf16 buf16 (cstring ''/dev/block'') dev fd;
       (rkey, num) \<leftarrow> mkkey buf16 num (cstring ''/dev/rblock'') dev fd;
       let s = ext_do h (Ext ''etfs_register_withsize'' [AS (cstr key), AS (cstr num), AI RUMP_ETFS_BLK, AI 0, AI sz]) s;
       let s = ext_do h (Ext ''etfs_register_withsize'' [AS (cstr rkey), AS (cstr num), AI RUMP_ETFS_CHR, AI 0, AI sz]) s;
       if \<not> root then Some (0, s)
       else do {
         let flags = (if flags = O_RDWR then MNT_LOG else MNT_RDONLY);
         let (ret, s) = ext_call h (Ext ''mount'' [AS ''ffs'', AS ''/'', AI (uint flags), AS (cstr key)]) s;
         let (ret, s) =
           (if ret = -1 then
              let flags = (if flags = MNT_LOG then 0 else flags)
              in ext_call h (Ext ''mount'' [AS ''ext2fs'', AS ''/'', AI (uint flags), AS (cstr key)]) s
            else (ret, s));
         Some (ret, if ret = 0 then add_exit_fn Unmount_atexit s else s)
       }
     }"

definition register_block ::
  "host \<Rightarrow> bool \<Rightarrow> int \<Rightarrow> int \<Rightarrow> 32 word \<Rightarrow> int \<Rightarrow> bool \<Rightarrow> init_st \<Rightarrow> (int \<times> init_st) option" where
  "register_block h musl dev fd flags sz root s =
     (if musl then Some (register_block_musl h s) else register_block_netbsd h dev fd flags sz root s)"

text \<open>One of the three standard descriptors in \<open>__franken_fdinit_create\<close>.\<close>

definition create_std :: "host \<Rightarrow> bool \<Rightarrow> int \<Rightarrow> 32 word \<Rightarrow> int \<Rightarrow> init_st \<Rightarrow> (int \<times> init_st) option" where
  "create_std h musl n flags n_reg s =
     do {
       e \<leftarrow> get_fd n s;
       if fd_valid e \<noteq> 0 then do {
         (fd, s) \<leftarrow> register_reg h musl n_reg n flags s;
         if fd \<noteq> -1 then
           let s = ext_do h (Ext ''dup2'' [AI fd, AI n]) s
           in Some (n_reg + 1, ext_do h (Ext ''close'' [AI fd]) s)
         else Some (n_reg + 1, s)
       } else Some (n_reg, s)
     }"

definition create_root :: "host \<Rightarrow> bool \<Rightarrow> string list \<Rightarrow> init_st \<Rightarrow> (int \<times> init_st) option" where
  "create_root h musl environ s =
     do {
       env \<leftarrow> getenv_str environ ''__RUMP_FDINFO_ROOT'';
       (case env of
          None \<Rightarrow> Some (0, s)
        | Some v \<Rightarrow>
            do {
              fd \<leftarrow> atoi v;
              e \<leftarrow> get_fd fd s;
              if fd_valid e \<noteq> 0 then do {
                (ret, s) \<leftarrow> register_block h musl 0 fd (fd_flags e AND O_ACCMODE) (st_size (fd_st e)) True s;
                s \<leftarrow> (if ret = 0 then upd_fd fd (fd_mounted_update (\<lambda>_. 1)) s else Some s);
                Some (1, s)
              } else Some (0, s)
            })
     }"

text \<open>
  The loop over the other descriptors, with as many rounds as \<open>n\<close>; \<open>register_reg\<close> assigns
  the loop variable.
\<close>

fun create_loop ::
  "host \<Rightarrow> bool \<Rightarrow> string list \<Rightarrow> nat \<Rightarrow> int \<Rightarrow> int \<Rightarrow> int \<Rightarrow> init_st \<Rightarrow> init_st option" where
  "create_loop h musl environ n fd n_reg n_block s =
     (if int MAXFD \<le> fd then Some s
      else case n of
        0 \<Rightarrow> None
      | Suc n \<Rightarrow>
          do {
            e \<leftarrow> get_fd fd s;
            if fd_valid e = 0 then Some s
            else if st_mode (fd_st e) AND S_IFMT = S_IFREG then do {
              (fd, s) \<leftarrow> register_reg h musl n_reg fd (fd_flags e AND O_ACCMODE) s;
              create_loop h musl environ n (fd + 1) (n_reg + 1) n_block s
            }
            else if st_mode (fd_st e) AND S_IFMT = S_IFBLK then do {
              (ret, s) \<leftarrow> register_block h musl n_block fd (fd_flags e AND O_ACCMODE) (st_size (fd_st e)) False s;
              create_loop h musl environ n (fd + 1) n_reg (n_block + 1) s
            }
            else if st_mode (fd_st e) AND S_IFMT = S_IFSOCK then do {
              s \<leftarrow> register_net h musl environ fd s;
              create_loop h musl environ n (fd + 1) n_reg n_block s
            }
            else create_loop h musl environ n (fd + 1) n_reg n_block s
          })"

declare create_loop.simps [simp del]

definition create_9pfs :: "host \<Rightarrow> bool \<Rightarrow> string list \<Rightarrow> init_st \<Rightarrow> init_st option" where
  "create_9pfs h musl environ s =
     (if \<not> musl then Some s
      else do {
        mnt \<leftarrow> getenv_str environ ''9PFS_MNT'';
        (case mnt of
           None \<Rightarrow> Some s
         | Some mnt_point \<Rightarrow>
             do {
               d \<leftarrow> strcmp mnt_point (cstring ''/'');
               if d = 0 then
                 let s = ext_do h (Ext ''mkdir'' [AS ''/mnt'', AI 448]) s;
                     s = ext_do h (Ext ''lkl_mount'' [AS '''', AS ''/mnt'', AS ''9p'', AS ''trans=virtio,cache=mmap'']) s;
                     s = ext_do h (Ext ''chroot'' [AS ''/mnt'']) s
                 in Some (ext_do h (Ext ''chdir'' [AS ''/'']) s)
               else
                 let s = ext_do h (Ext ''mkdir'' [AS (cstr mnt_point), AI 448]) s
                 in Some (ext_do h (Ext ''lkl_mount'' [AS '''', AS (cstr mnt_point), AS ''9p'', AS ''trans=virtio,cache=mmap'']) s)
             })
      })"

definition create_mounts :: "host \<Rightarrow> init_st \<Rightarrow> init_st" where
  "create_mounts h s =
     (let s = mount_tmpfs h s;
          s = ext_do h (Ext ''mkdir'' [AS ''/proc'', AI 511]) s;
          s = ext_do h (Ext ''mount'' [AS ''proc'', AS ''/proc'', AI 0]) s;
          s = ext_do h (Ext ''mkdir'' [AS ''/sys'', AI 511]) s
      in ext_do h (Ext ''mount'' [AS ''sysfs'', AS ''/sys'', AI 0]) s)"

definition franken_fdinit_create :: "host \<Rightarrow> bool \<Rightarrow> string list \<Rightarrow> nat \<Rightarrow> init_st \<Rightarrow> init_st option" where
  "franken_fdinit_create h musl environ n s =
     do {
       (n_reg, s) \<leftarrow> create_std h musl 0 O_RDONLY 0 s;
       (n_reg, s) \<leftarrow> create_std h musl 1 O_WRONLY n_reg s;
       (n_reg, s) \<leftarrow> create_std h musl 2 O_WRONLY n_reg s;
       (n_block, s) \<leftarrow> create_root h musl environ s;
       s \<leftarrow> create_loop h musl environ n 5 n_reg n_block s;
       s \<leftarrow> create_9pfs h musl environ s;
       Some (create_mounts h s)
     }"

definition franken_recv_thread :: "int \<Rightarrow> nat \<Rightarrow> init_st \<Rightarrow> init_st option" where
  "franken_recv_thread fd thrid s = upd_fd fd (fd_wake_update (\<lambda>_. thrid)) s"

section \<open>Start-up\<close>

text \<open>The loop of \<open>__franken_start_main\<close> over \<open>argv[0]\<close>; \<open>pn\<close> is \<open>__progname\<close>.\<close>

fun progname_loop :: "string \<Rightarrow> string \<Rightarrow> string option" where
  "progname_loop pn [] = None"
| "progname_loop pn (c # s) =
     (if c = NUL then Some pn else if c = CHR ''/'' then progname_loop s s else progname_loop pn s)"

definition progname :: "string \<Rightarrow> string option" where
  "progname argv0 = progname_loop argv0 argv0"

text \<open>\<open>finifn\<close> over the function array from the end, with NULL as 0.\<close>

fun fini_loop :: "host \<Rightarrow> nat list \<Rightarrow> init_st \<Rightarrow> init_st" where
  "fini_loop h [] s = s"
| "fini_loop h (f # fs) s =
     fini_loop h fs (if f = 0 then s else ext_do h (Ext ''fini'' [AI (int f)]) s)"

definition finifn :: "host \<Rightarrow> nat list \<Rightarrow> init_st \<Rightarrow> init_st" where
  "finifn h fini_array s = ext_do h (Ext ''_fini'' []) (fini_loop h (rev fini_array) s)"

fun init_loop :: "host \<Rightarrow> nat list \<Rightarrow> init_st \<Rightarrow> init_st" where
  "init_loop h [] s = s"
| "init_loop h (f # fs) s = init_loop h fs (ext_do h (Ext ''init'' [AI (int f)]) s)"

text \<open>An exit handler, with the functions of the table left.\<close>

fun run_exit_fn :: "host \<Rightarrow> nat list \<Rightarrow> exit_fn \<Rightarrow> exit_fn list \<Rightarrow> init_st \<Rightarrow> exit_fn list \<times> init_st" where
  "run_exit_fn h fini_array Unmount_atexit fs s = (fs, unmount_atexit h s)"
| "run_exit_fn h fini_array Finifn fs s = (fs, finifn h fini_array s)"

text \<open>The call of \<open>__franken_start_main\<close>, up to the end of the exit handlers.\<close>

definition start_main :: "host \<Rightarrow> bool \<Rightarrow> nat \<Rightarrow> nat list \<Rightarrow> nat list \<Rightarrow> string list \<Rightarrow> init_st option" where
  "start_main h musl n init_array fini_array environ =
     do {
       s \<leftarrow> franken_fdinit h environ init0;
       let s = (if musl then ext_do h (Ext ''lkl_load_config_pre'' []) s else s);
       let s = ext_do h (Ext ''rump_boot_setsigmodel'' [AI 1]) s;
       let s = ext_do h (Ext ''rump_init'' []) s;
       let s = ext_do h (Ext ''lwproc_rfork'' [AI 0]) s;
       let s = (if \<not> musl then
                  let s = ext_do h (Ext ''_libc_init'' []) s;
                      s = ext_do h (Ext ''_init'' []) s
                  in init_loop h init_array s
                else
                  let s = ext_do h (Ext ''__init_libc'' []) s
                  in ext_do h (Ext ''__libc_start_init'' []) s);
       s \<leftarrow> franken_fdinit_create h musl environ n s;
       let s = (if musl then
                  let s = ext_do h (Ext ''lkl_if_up'' [AI 1]) s
                  in ext_do h (Ext ''lkl_load_config_post'' []) s
                else s);
       let s = add_exit_fn Finifn s;
       sysproxy \<leftarrow> getenv_str environ ''RUMPRUN_SYSPROXY'';
       let s = (case sysproxy of
                  Some url \<Rightarrow> if musl then ext_do h (Ext ''rump_init_server'' [AS (cstr url)]) s else s
                | None \<Rightarrow> s);
       let s = ext_do h (Ext ''main'' []) s;
       exit_handlers (run_exit_fn h fini_array) (length (exit_fns s)) (exit_fns s) s
     }"

end
