(* ===== verification/Fdtable_Props.thy ===== *)
theory Fdtable_Props
  imports Fdtable
begin

text \<open>
  Properties of start-up: what \<open>__franken_fdinit\<close> records of the descriptors that the
  environment names and which devices it attaches, that \<open>__franken_fdinit_create\<close> ends, the
  device names of \<open>mkkey\<close> and the program name.
\<close>

section \<open>Environment entries\<close>

lemma nul_free_dropWhile: "nul_free s \<Longrightarrow> nul_free (tl (dropWhile P s))"
  by (induction s) (auto simp: nul_free_def)

lemma env_is_cstring:
  assumes "nul_free e" and "nul_free name" and "0 < n"
  shows "env_is (cstring e) name n = Some (take n e = take n name)"
  using strncmp_prefix [OF assms(3,1,2), of "[]" "[]"] by (auto simp: env_is_def cstring_def)

lemma var_loop_cstring:
  "var_loop (length e) (e @ r) =
     (if CHR ''='' \<in> set e then Some (dropWhile (\<lambda>c. c \<noteq> CHR ''='') e @ r) else None)"
  by (induction e) auto

lemma skip_space_total: "\<exists>s'. skip_space (s @ NUL # r) = s' @ NUL # r"
proof (induction s)
  case (Cons c s)
  then show ?case by (cases "isspace c") (auto intro: exI [of _ "c # s"])
qed (simp add: isspace_def)

lemma atoi_digits_total: "\<exists>v. atoi_digits pos ret (s @ NUL # r) = Some v"
  by (induction s arbitrary: ret) (auto simp: isdigit_def)

lemma atoi_total: "\<exists>v. atoi (s @ NUL # r) = Some v"
proof -
  obtain s' where sk: "skip_space (s @ NUL # r) = s' @ NUL # r" using skip_space_total [of s r] by blast
  obtain c t where e: "c # t = s' @ NUL # r" by (cases s') auto
  have "\<exists>v. atoi_digits 1 0 (c # t) = Some v" unfolding e by (rule atoi_digits_total)
  moreover have "\<exists>v. atoi_digits (-1) 0 t = Some v" if "c = CHR ''-''"
  proof (cases s')
    case Nil
    with e that show ?thesis by simp
  next
    case (Cons x s'')
    with e have "t = s'' @ NUL # r" by simp
    then show ?thesis using atoi_digits_total [of "-1" 0 s'' r] by simp
  qed
  ultimately show ?thesis using sk by (auto simp: atoi_def e [symmetric])
qed

text \<open>The number of an entry, and the entries that describe a descriptor.\<close>

definition fd_of :: "string \<Rightarrow> int" where
  "fd_of e = the (atoi (cstring (tl (dropWhile (\<lambda>c. c \<noteq> CHR ''='') e))))"

definition is_info :: "string \<Rightarrow> bool" where
  "is_info e \<longleftrightarrow> CHR ''='' \<in> set e \<and> (take 14 e = ''__RUMP_FDINFO_'' \<or> take 7 e = ''9PFS_FD'')"

text \<open>
  The entries as rexec writes them: a described descriptor is inside the table and known to the
  host, and a 9pfs entry is called \<open>9PFS_FD\<close>.
\<close>

definition entry_ok :: "host \<Rightarrow> string \<Rightarrow> bool" where
  "entry_ok h e \<longleftrightarrow> nul_free e \<and>
     (is_info e \<longrightarrow> 0 \<le> fd_of e \<and> fd_of e < int MAXFD \<and> h_fstat h (fd_of e) \<noteq> None) \<and>
     (take 7 e = ''9PFS_FD'' \<and> CHR ''='' \<in> set e \<longrightarrow> take 8 e = ''9PFS_FD='')"

text \<open>The devices that an entry attaches.\<close>

definition attach_call :: "ext \<Rightarrow> bool" where
  "attach_call c \<longleftrightarrow> ext_name c = ''lkl_disk_add'' \<or> ext_name c = ''lkl_netdev_rumpfd_create'' \<or>
     ext_name c = ''lkl_9pfs_add''"

definition attach_of :: "string list \<Rightarrow> string \<Rightarrow> ext list" where
  "attach_of es e =
     (if CHR ''='' \<notin> set e then []
      else (if take 18 e = ''__RUMP_FDINFO_ROOT'' \<or> take 18 e = ''__RUMP_FDINFO_DISK''
            then [Ext ''lkl_disk_add'' [AI (fd_of e)]] else []) @
        (if take 18 e = ''__RUMP_FDINFO_NET_'' then [Ext ''lkl_netdev_rumpfd_create'' [AI (fd_of e)]] else []) @
        (if take 7 e = ''9PFS_FD''
         then [Ext ''lkl_9pfs_add'' [AI (the (atoi (cstring (the (env_lookup es ''9PFS_FD'')))))]] else []))"

lemma take18: "take 18 e = x \<Longrightarrow> take 14 e = take 14 x"
proof -
  assume "take 18 e = x"
  then have "take 14 (take 18 e) = take 14 x" by simp
  then show ?thesis by simp
qed

lemma env_lookup_found:
  "e \<in> set es \<Longrightarrow> take (Suc (length name)) e = name @ ''='' \<Longrightarrow> \<exists>v. env_lookup es name = Some v"
  by (induction es) auto

lemma env_lookup_nul_free:
  "env_lookup es name = Some v \<Longrightarrow> \<forall>e \<in> set es. nul_free e \<Longrightarrow> nul_free v"
  by (induction es) (auto split: if_splits simp: nul_free_def dest: in_set_dropD)

lemma getenv_lookup:
  assumes "name \<noteq> []" and "nul_free name" and "CHR ''='' \<notin> set name" and "\<forall>e \<in> set es. nul_free e"
  shows "getenv (map cstring es) (cstring name) = Some (Inr (map_option cstring (env_lookup es name)))"
proof -
  have "strchr (cstring name) (CHR ''='') = Some None"
    using strchr_nul_free [of name "CHR ''=''" "[]"] assms by (simp add: cstring_def)
  moreover have "strlen (cstring name) = Some (length name)"
    using strlen_cstring [of name "[]"] assms by (simp add: cstring_def)
  ultimately show ?thesis using getenv_loop_lookup assms by (simp add: getenv_def)
qed

section \<open>The table after \<open>__franken_fdinit\<close>\<close>

lemma upd_fd_in:
  "0 \<le> fd \<Longrightarrow> fd < int MAXFD \<Longrightarrow> upd_fd fd f s = Some (s\<lparr>fdt := (fdt s)[nat fd := f (fdt s ! nat fd)]\<rparr>)"
  by (simp add: upd_fd_def)

lemma ext_do_simps [simp]:
  "fdt (ext_do h c s) = fdt s" "ext_calls (ext_do h c s) = ext_calls s @ [c]"
  "exit_fns (ext_do h c s) = exit_fns s" "disk_id (ext_do h c s) = disk_id s"
  by (simp_all add: ext_do_def ext_call_def)

lemma ext_call_simps [simp]:
  "fst (ext_call h c s) = h_ans h (ext_calls s) c" "snd (ext_call h c s) = ext_do h c s"
  by (simp_all add: ext_do_def ext_call_def)

lemma fdinit_info_in:
  assumes "0 \<le> fd" and "fd < int MAXFD" and "h_fstat h fd = Some x" and "length (fdt s) = MAXFD"
  shows "fdinit_info h n fd s =
    Some (s\<lparr>fdt := (fdt s)[nat fd := (fdt s ! nat fd)\<lparr>fd_valid := 1, fd_flags := h_getfl h fd, fd_st := x\<rparr>]\<rparr>)"
  using assms by (simp add: fdinit_info_def upd_fd_in)

text \<open>
  A described descriptor that the host does not know stays valid; the entry that is marked as not
  valid is the one whose number is the loop counter.
\<close>

lemma fdinit_info_unknown:
  assumes "0 \<le> fd" and "fd < int MAXFD" and "0 \<le> n" and "n < int MAXFD" and "n \<noteq> fd" and "h_fstat h fd = None"
    and "length (fdt s) = MAXFD"
  shows "\<exists>s'. fdinit_info h n fd s = Some s' \<and> fd_valid (fdt s' ! nat fd) = 1 \<and> fd_st (fdt s' ! nat fd) = stat0 \<and>
    fd_valid (fdt s' ! nat n) = 0"
  using assms by (simp add: fdinit_info_def upd_fd_in nth_list_update eq_nat_nat_iff)

lemma load_json_simps [simp]:
  "fdt (load_json_config h fd s) = fdt s"
  "filter attach_call (ext_calls (load_json_config h fd s)) = filter attach_call (ext_calls s)"
  by (simp_all add: load_json_config_def split_beta Let_def attach_call_def)

lemma fdinit_disk_in:
  assumes "0 \<le> fd" and "fd < int MAXFD"
  shows "\<exists>s'. fdinit_disk h fd s = Some s' \<and>
    fdt s' = (fdt s)[nat fd := (fdt s ! nat fd)\<lparr>fd_seek := 1\<rparr>] \<and>
    filter attach_call (ext_calls s') = filter attach_call (ext_calls s) @ [Ext ''lkl_disk_add'' [AI fd]]"
  using assms by (simp add: fdinit_disk_def upd_fd_in split_beta Let_def attach_call_def)

lemma fdinit_net_in:
  assumes "0 \<le> fd" and "fd < int MAXFD"
  shows "\<exists>s'. fdinit_net h fd s = Some s' \<and>
    fdt s' = (fdt s)[nat fd := (fdt s ! nat fd)\<lparr>fd_seek := 0\<rparr>] \<and>
    filter attach_call (ext_calls s') = filter attach_call (ext_calls s) @ [Ext ''lkl_netdev_rumpfd_create'' [AI fd]]"
  using assms by (simp add: fdinit_net_def upd_fd_in attach_call_def)

lemma fdinit_9pfs_in:
  assumes "0 \<le> fd" and "fd < int MAXFD" and "env_lookup es ''9PFS_FD'' = Some v" and "\<forall>e \<in> set es. nul_free e"
  shows "\<exists>s'. fdinit_9pfs h (map cstring es) fd s = Some s' \<and>
    fdt s' = (fdt s)[nat fd := (fdt s ! nat fd)\<lparr>fd_seek := 0\<rparr>] \<and>
    filter attach_call (ext_calls s') =
      filter attach_call (ext_calls s) @ [Ext ''lkl_9pfs_add'' [AI (the (atoi (cstring v)))]]"
proof -
  obtain f where "atoi (cstring v) = Some f" using atoi_total [of v "[]"] by (auto simp: cstring_def)
  then show ?thesis
    using assms getenv_lookup [OF _ _ _ assms(4), of "''9PFS_FD''"]
    by (simp add: fdinit_9pfs_def upd_fd_in attach_call_def)
qed

text \<open>What an entry does to the table: \<open>seek\<close> is the new value of that field.\<close>

definition described :: "host \<Rightarrow> int \<Rightarrow> int \<Rightarrow> fdtable \<Rightarrow> fdtable" where
  "described h fd seek e =
     e\<lparr>fd_valid := 1, fd_flags := h_getfl h fd, fd_st := the (h_fstat h fd), fd_seek := seek\<rparr>"

definition only_fd :: "host \<Rightarrow> int \<Rightarrow> init_st \<Rightarrow> init_st \<Rightarrow> bool" where
  "only_fd h fd s s' \<longleftrightarrow> (\<exists>seek. fdt s' = (fdt s)[nat fd := described h fd seek (fdt s ! nat fd)])"

definition entry_done :: "host \<Rightarrow> string list \<Rightarrow> string \<Rightarrow> init_st \<Rightarrow> init_st \<Rightarrow> bool" where
  "entry_done h es e s s' \<longleftrightarrow>
     (if is_info e then only_fd h (fd_of e) s s' else fdt s' = fdt s) \<and>
     filter attach_call (ext_calls s') = filter attach_call (ext_calls s) @ attach_of es e"

lemma fdinit_env_unfold:
  assumes "nul_free e"
  shows "fdinit_env h environ n (cstring e) s =
    (if CHR ''='' \<notin> set e then Some s
     else do {
       let fd = fd_of e;
       s \<leftarrow> (if is_info e then fdinit_info h n fd s else Some s);
       let s = (if take 24 e = ''__RUMP_FDINFO_CONFIGJSON'' then load_json_config h fd s else s);
       s \<leftarrow> (if take 18 e = ''__RUMP_FDINFO_ROOT'' \<or> take 18 e = ''__RUMP_FDINFO_DISK'' then fdinit_disk h fd s
             else Some s);
       s \<leftarrow> (if take 18 e = ''__RUMP_FDINFO_NET_'' then fdinit_net h fd s else Some s);
       if take 7 e = ''9PFS_FD'' then fdinit_9pfs h environ fd s else Some s
     })"
proof -
  let ?v = "tl (dropWhile (\<lambda>c. c \<noteq> CHR ''='') e)"
  have ne: "dropWhile (\<lambda>c. c \<noteq> CHR ''='') e \<noteq> []" if "CHR ''='' \<in> set e" using that by auto
  obtain fd where fd: "atoi (?v @ [NUL]) = Some fd" using atoi_total [of ?v "[]"] by blast
  then have "fd_of e = fd" by (simp add: fd_of_def cstring_def)
  have var: "var_loop (length e) (cstring e) =
      (if CHR ''='' \<in> set e then Some (dropWhile (\<lambda>c. c \<noteq> CHR ''='') e @ [NUL]) else None)"
    unfolding cstring_def by (rule var_loop_cstring)
  have len: "strlen (cstring e) = Some (length e)" using assms by (simp add: cstring_def)
  note env = env_is_cstring [OF assms]
  show ?thesis
  proof (cases "CHR ''='' \<in> set e")
    case True
    with fd ne have "atoi (tl (dropWhile (\<lambda>c. c \<noteq> CHR ''='') e @ [NUL])) = Some fd" by simp
    with True \<open>fd_of e = fd\<close> show ?thesis
      by (simp add: fdinit_env_def var len env is_info_def Let_def cong: if_cong del: disj_not1)
  qed (simp add: fdinit_env_def var len)
qed

lemma described_seek:
  "h_fstat h fd = Some x \<Longrightarrow>
   e\<lparr>fd_valid := 1, fd_flags := h_getfl h fd, fd_st := x\<rparr> = described h fd (fd_seek e) e"
  by (cases e) (simp add: described_def)

lemma seek_step:
  assumes "only_fd h fd s0 s" and "nat fd < length (fdt s0)"
    and "fdt s' = (fdt s)[nat fd := (fdt s ! nat fd)\<lparr>fd_seek := b\<rparr>]"
  shows "only_fd h fd s0 s'"
  using assms unfolding only_fd_def by (auto simp: described_def)

lemma fdinit_env_done:
  assumes ok: "\<forall>e \<in> set es. entry_ok h e" and e: "e \<in> set es" and len: "length (fdt s) = MAXFD"
  shows "\<exists>s'. fdinit_env h (map cstring es) n (cstring e) s = Some s' \<and> entry_done h es e s s'"
proof (cases "is_info e")
  case False
  then have "CHR ''='' \<notin> set e \<or> take 14 e \<noteq> ''__RUMP_FDINFO_'' \<and> take 7 e \<noteq> ''9PFS_FD''"
    by (simp add: is_info_def)
  moreover have "take 24 e = ''__RUMP_FDINFO_CONFIGJSON'' \<Longrightarrow> take 14 e = ''__RUMP_FDINFO_''"
    by (drule arg_cong [of _ _ "take 14"]) simp
  moreover have "nul_free e" using ok e by (simp add: entry_ok_def)
  ultimately show ?thesis
    using False take18 [of e "''__RUMP_FDINFO_ROOT''"] take18 [of e "''__RUMP_FDINFO_DISK''"]
      take18 [of e "''__RUMP_FDINFO_NET_''"]
    by (auto simp: fdinit_env_unfold entry_done_def attach_of_def Let_def)
next
  case True
  let ?fd = "fd_of e"
  let ?k = "nat ?fd"
  have nf: "nul_free e" "\<forall>e \<in> set es. nul_free e" using ok e by (auto simp: entry_ok_def)
  obtain x where fd: "0 \<le> ?fd" "?fd < int MAXFD" "h_fstat h ?fd = Some x"
    using ok e True by (auto simp: entry_ok_def)
  have k: "?k < length (fdt s)" using fd len by simp
  obtain s1 where s1: "fdinit_info h n ?fd s = Some s1" "only_fd h ?fd s s1" "ext_calls s1 = ext_calls s"
    using that fdinit_info_in [OF fd len, of n] by (simp add: described_seek [OF fd(3)] only_fd_def) blast
  define s2 where "s2 = (if take 24 e = ''__RUMP_FDINFO_CONFIGJSON'' then load_json_config h ?fd s1 else s1)"
  have s2: "only_fd h ?fd s s2" "filter attach_call (ext_calls s2) = filter attach_call (ext_calls s)"
    using s1(2,3) by (simp_all add: s2_def only_fd_def)
  let ?disk = "take 18 e = ''__RUMP_FDINFO_ROOT'' \<or> take 18 e = ''__RUMP_FDINFO_DISK''"
  obtain s3 where s3: "(if ?disk then fdinit_disk h ?fd s2 else Some s2) = Some s3" "only_fd h ?fd s s3"
    "filter attach_call (ext_calls s3) = filter attach_call (ext_calls s) @ (if ?disk then [Ext ''lkl_disk_add'' [AI ?fd]] else [])"
  proof (cases ?disk)
    case True
    obtain s3 where "fdinit_disk h ?fd s2 = Some s3" "fdt s3 = (fdt s2)[?k := (fdt s2 ! ?k)\<lparr>fd_seek := 1\<rparr>]"
      "filter attach_call (ext_calls s3) = filter attach_call (ext_calls s2) @ [Ext ''lkl_disk_add'' [AI ?fd]]"
      using fdinit_disk_in [OF fd(1,2), of h s2] by blast
    with True s2 show ?thesis by (intro that [of s3] seek_step [OF s2(1) k]) simp_all
  qed (use that s2 in simp)
  let ?net = "take 18 e = ''__RUMP_FDINFO_NET_''"
  obtain s4 where s4: "(if ?net then fdinit_net h ?fd s3 else Some s3) = Some s4" "only_fd h ?fd s s4"
    "filter attach_call (ext_calls s4) = filter attach_call (ext_calls s3) @ (if ?net then [Ext ''lkl_netdev_rumpfd_create'' [AI ?fd]] else [])"
  proof (cases ?net)
    case True
    obtain s4 where "fdinit_net h ?fd s3 = Some s4" "fdt s4 = (fdt s3)[?k := (fdt s3 ! ?k)\<lparr>fd_seek := 0\<rparr>]"
      "filter attach_call (ext_calls s4) = filter attach_call (ext_calls s3) @ [Ext ''lkl_netdev_rumpfd_create'' [AI ?fd]]"
      using fdinit_net_in [OF fd(1,2), of h s3] by blast
    with True show ?thesis by (intro that [of s4] seek_step [OF s3(2) k]) simp_all
  qed (use that s3 in simp)
  let ?p9 = "take 7 e = ''9PFS_FD''"
  have look: "\<exists>v. env_lookup es ''9PFS_FD'' = Some v" if ?p9
    using that ok e True by (intro env_lookup_found [OF e]) (auto simp: entry_ok_def is_info_def numeral_eq_Suc)
  obtain s5 where s5: "(if ?p9 then fdinit_9pfs h (map cstring es) ?fd s4 else Some s4) = Some s5" "only_fd h ?fd s s5"
    "filter attach_call (ext_calls s5) = filter attach_call (ext_calls s4) @
      (if ?p9 then [Ext ''lkl_9pfs_add'' [AI (the (atoi (cstring (the (env_lookup es ''9PFS_FD'')))))]] else [])"
  proof (cases ?p9)
    case True
    with look obtain v where v: "env_lookup es ''9PFS_FD'' = Some v" by blast
    obtain s5 where "fdinit_9pfs h (map cstring es) ?fd s4 = Some s5" "fdt s5 = (fdt s4)[?k := (fdt s4 ! ?k)\<lparr>fd_seek := 0\<rparr>]"
      "filter attach_call (ext_calls s5) = filter attach_call (ext_calls s4) @ [Ext ''lkl_9pfs_add'' [AI (the (atoi (cstring v)))]]"
      using fdinit_9pfs_in [OF fd(1,2) v nf(2), of h s4] by blast
    with True v show ?thesis by (intro that [of s5] seek_step [OF s4(2) k]) simp_all
  qed (use that s4 in simp)
  have "CHR ''='' \<in> set e" using True by (simp add: is_info_def)
  then have "fdinit_env h (map cstring es) n (cstring e) s = Some s5"
    unfolding fdinit_env_unfold [OF nf(1)] Let_def
    by (simp only: True s1(1) s2_def [symmetric] s3(1) s4(1) s5(1) if_True if_False not_True_eq_False bind.bind_lunit)
  moreover have "entry_done h es e s s5"
    using True \<open>CHR ''='' \<in> set e\<close> s3(3) s4(3) s5(2,3) by (simp add: entry_done_def attach_of_def)
  ultimately show ?thesis by blast
qed

text \<open>The descriptors known after the entries \<open>D\<close>, and what the table then holds.\<close>

definition known :: "host \<Rightarrow> string set \<Rightarrow> nat \<Rightarrow> bool" where
  "known h D k \<longleftrightarrow> k < 3 \<and> h_fstat h (int k) \<noteq> None \<or> (\<exists>e \<in> D. is_info e \<and> fd_of e = int k)"

definition entry_inv :: "host \<Rightarrow> string set \<Rightarrow> nat \<Rightarrow> fdtable \<Rightarrow> bool" where
  "entry_inv h D k e \<longleftrightarrow>
     (if known h D k then fd_valid e = 1 \<and> fd_flags e = h_getfl h (int k) \<and> h_fstat h (int k) = Some (fd_st e)
      else fd_valid e = 0)"

definition tab_inv :: "host \<Rightarrow> string set \<Rightarrow> init_st \<Rightarrow> bool" where
  "tab_inv h D s \<longleftrightarrow> length (fdt s) = MAXFD \<and> (\<forall>k < MAXFD. entry_inv h D k (fdt s ! k))"

lemma entry_done_inv:
  assumes "entry_done h es e s s'" and "tab_inv h D s" and "entry_ok h e"
  shows "tab_inv h (insert e D) s'"
proof (cases "is_info e")
  case True
  with assms obtain a where s': "fdt s' = (fdt s)[nat (fd_of e) := described h (fd_of e) a (fdt s ! nat (fd_of e))]"
    by (auto simp: entry_done_def only_fd_def)
  have len: "length (fdt s) = MAXFD" using assms(2) by (simp add: tab_inv_def)
  have fd: "0 \<le> fd_of e" "fd_of e < int MAXFD" "h_fstat h (fd_of e) \<noteq> None"
    using assms(3) True by (simp_all add: entry_ok_def)
  have "entry_inv h (insert e D) k (fdt s' ! k)" if k: "k < MAXFD" for k
  proof (cases "int k = fd_of e")
    case eq: True
    then have "k = nat (fd_of e)" by simp
    then have "fdt s' ! k = described h (fd_of e) a (fdt s ! k)" using k len s' by simp
    with fd(3) True eq show ?thesis by (auto simp: entry_inv_def known_def described_def)
  next
    case False
    then have "fdt s' ! k = fdt s ! k" using s' fd(1) by auto
    moreover have "known h (insert e D) k = known h D k" using False by (auto simp: known_def)
    ultimately show ?thesis using assms(2) k by (simp add: tab_inv_def entry_inv_def)
  qed
  with s' len show ?thesis by (simp add: tab_inv_def)
next
  case False
  then have "known h (insert e D) k = known h D k" for k by (auto simp: known_def)
  with False assms(1,2) show ?thesis by (simp add: entry_done_def tab_inv_def entry_inv_def)
qed

lemma fdinit_loop_inv:
  assumes "\<forall>e \<in> set es. entry_ok h e" and "set fs \<subseteq> set es" and "tab_inv h D s"
  shows "\<exists>s'. fdinit_loop h (map cstring es) n (map cstring fs) s = Some s' \<and> tab_inv h (D \<union> set fs) s' \<and>
    filter attach_call (ext_calls s') = filter attach_call (ext_calls s) @ concat (map (attach_of es) fs)"
  using assms(2,3)
proof (induction fs arbitrary: n s D)
  case (Cons e fs)
  then obtain s1 where s1: "fdinit_env h (map cstring es) n (cstring e) s = Some s1" "entry_done h es e s s1"
    using fdinit_env_done [OF assms(1), of e s n] by (auto simp: tab_inv_def)
  then have "tab_inv h (insert e D) s1" using entry_done_inv Cons.prems assms(1) by auto
  then show ?case using Cons.IH [of "insert e D" s1 "n + 1"] Cons.prems s1 by (auto simp: entry_done_def)
qed simp

text \<open>After the first \<open>n\<close> standard descriptors.\<close>

definition std_inv :: "host \<Rightarrow> nat \<Rightarrow> init_st \<Rightarrow> bool" where
  "std_inv h n s \<longleftrightarrow> length (fdt s) = MAXFD \<and> ext_calls s = [] \<and>
     (\<forall>k < MAXFD. if k < n then entry_inv h {} k (fdt s ! k) else fd_valid (fdt s ! k) = 0)"

lemma fdinit_std_inv:
  assumes "std_inv h n s" and "n < 3"
  shows "\<exists>s'. fdinit_std h (int n) s = Some s' \<and> std_inv h (Suc n) s'"
proof -
  define f :: "fdtable \<Rightarrow> fdtable" where "f = (\<lambda>e. case h_fstat h (int n) of None \<Rightarrow> e\<lparr>fd_valid := 0\<rparr>
    | Some x \<Rightarrow> e\<lparr>fd_valid := 1, fd_flags := h_getfl h (int n), fd_st := x, fd_seek := 0\<rparr>)"
  let ?s' = "s\<lparr>fdt := (fdt s)[n := f (fdt s ! n)]\<rparr>"
  have "fdinit_std h (int n) s = Some ?s'"
    using assms(2) by (cases "h_fstat h (int n)") (simp_all add: fdinit_std_def upd_fd_def MAXFD_def f_def)
  moreover have "entry_inv h {} n (f e)" for e
    using assms(2) by (cases "h_fstat h (int n)") (simp_all add: entry_inv_def known_def f_def)
  then have "std_inv h (Suc n) ?s'"
    using assms by (auto simp: std_inv_def nth_list_update less_Suc_eq)
  ultimately show ?thesis by blast
qed

lemma fdinit_stds:
  "\<exists>a b s. fdinit_std h 0 init0 = Some a \<and> fdinit_std h 1 a = Some b \<and> fdinit_std h 2 b = Some s \<and>
    tab_inv h {} s \<and> ext_calls s = []"
proof -
  have "std_inv h 0 init0" by (simp add: std_inv_def init0_def fd0_def)
  then obtain a where a: "fdinit_std h 0 init0 = Some a" "std_inv h (Suc 0) a" using fdinit_std_inv [of h 0] by auto
  then obtain b where b: "fdinit_std h 1 a = Some b" "std_inv h (Suc (Suc 0)) b" using fdinit_std_inv [of h 1] by auto
  then obtain s where s: "fdinit_std h 2 b = Some s" "std_inv h (Suc (Suc (Suc 0))) s"
    using fdinit_std_inv [of h 2] by (auto simp: numeral_2_eq_2)
  have "entry_inv h {} k (fdt s ! k)" if "k < MAXFD" for k
    using s(2) that by (cases "k < Suc (Suc (Suc 0))") (auto simp: std_inv_def entry_inv_def known_def)
  then have "tab_inv h {} s" "ext_calls s = []" using s(2) by (auto simp: tab_inv_def std_inv_def)
  then show ?thesis using a(1) b(1) s(1) by blast
qed

lemma franken_fdinit_all:
  assumes "\<forall>e \<in> set es. entry_ok h e"
  shows "\<exists>s. franken_fdinit h (map cstring es) init0 = Some s \<and> tab_inv h (set es) s \<and>
    filter attach_call (ext_calls s) = concat (map (attach_of es) (take 1 es @ es))"
proof -
  obtain a b s where std: "fdinit_std h 0 init0 = Some a" "fdinit_std h 1 a = Some b" "fdinit_std h 2 b = Some s"
    and inv: "tab_inv h {} s" "ext_calls s = []"
    using fdinit_stds [of h] by blast
  show ?thesis
  proof (cases es)
    case Nil
    with std inv show ?thesis by (simp add: franken_fdinit_def)
  next
    case (Cons e fs)
    then obtain s1 where s1: "fdinit_env h (map cstring es) 0 (cstring e) s = Some s1" "entry_done h es e s s1"
      using fdinit_env_done [OF assms, of e s 0] inv by (auto simp: tab_inv_def)
    then have "tab_inv h {e} s1" using entry_done_inv inv assms Cons by auto
    then obtain s2 where s2: "fdinit_loop h (map cstring es) 1 (map cstring es) s1 = Some s2" "tab_inv h ({e} \<union> set es) s2"
      "filter attach_call (ext_calls s2) = filter attach_call (ext_calls s1) @ concat (map (attach_of es) es)"
      using fdinit_loop_inv [OF assms order_refl] by blast
    have "{e} \<union> set es = set es" using Cons by auto
    with s1 s2 std inv Cons show ?thesis by (simp add: franken_fdinit_def entry_done_def)
  qed
qed

section \<open>Registering\<close>

lemma add_exit_fn_fdt [simp]: "fdt (add_exit_fn f s) = fdt s" "ext_calls (add_exit_fn f s) = ext_calls s"
  by (simp_all add: add_exit_fn_def split: sum.split)

lemma register_block_musl_fdt [simp]: "fdt (snd (register_block_musl h s)) = fdt s"
  by (simp add: register_block_musl_def split_beta Let_def)

lemma get_fd_in: "0 \<le> fd \<Longrightarrow> fd < int MAXFD \<Longrightarrow> get_fd fd s = Some (fdt s ! nat fd)"
  by (simp add: get_fd_def)

lemma register_reg_musl:
  assumes "0 \<le> fd" and "fd < int MAXFD"
  shows "\<exists>r s'. register_reg h True dev fd fl s = Some (r, s') \<and> fdt s' = fdt s \<and>
    (st_mode (fd_st (fdt s ! nat fd)) AND S_IFMT = S_IFREG \<longrightarrow> r = fd)"
  using assms by (simp add: register_reg_def get_fd_in Let_def ext_call_def)

lemma create_std_musl:
  assumes "0 \<le> fd" and "fd < int MAXFD"
  shows "\<exists>r s'. create_std h True fd fl n_reg s = Some (r, s') \<and> fdt s' = fdt s"
  using register_reg_musl [OF assms, of h n_reg fl s] by (auto simp: create_std_def get_fd_in [OF assms] Let_def)

lemma getenv_str_lookup:
  assumes "name \<noteq> []" and "nul_free name" and "CHR ''='' \<notin> set name" and "\<forall>e \<in> set es. nul_free e"
  shows "getenv_str (map cstring es) name = Some (map_option cstring (env_lookup es name))"
  by (simp add: getenv_str_def getenv_lookup [OF assms] split: option.split)

lemma create_root_musl:
  assumes "\<forall>e \<in> set es. nul_free e" and "length (fdt s) = MAXFD"
    and "\<forall>v. env_lookup es ''__RUMP_FDINFO_ROOT'' = Some v \<longrightarrow>
      0 \<le> the (atoi (cstring v)) \<and> the (atoi (cstring v)) < int MAXFD"
  shows "\<exists>r s'. create_root h True (map cstring es) s = Some (r, s') \<and> length (fdt s') = MAXFD"
proof (cases "env_lookup es ''__RUMP_FDINFO_ROOT''")
  case None
  then show ?thesis using assms(1,2) getenv_str_lookup [of "''__RUMP_FDINFO_ROOT''" es] by (simp add: create_root_def)
next
  case (Some v)
  obtain fd where fd: "atoi (cstring v) = Some fd" using atoi_total [of v "[]"] by (auto simp: cstring_def)
  then have "0 \<le> fd" "fd < int MAXFD" using assms(3) Some by auto
  then show ?thesis
    using fd Some assms(1,2) getenv_str_lookup [of "''__RUMP_FDINFO_ROOT''" es]
    by (simp add: create_root_def get_fd_in upd_fd_in register_block_def register_block_musl_fdt split_beta
        bind_eq_Some_conv Let_def prod_eq_iff)
qed

lemma create_loop_musl:
  "0 \<le> fd \<Longrightarrow> int MAXFD - fd \<le> int n \<Longrightarrow>
   \<exists>s'. create_loop h True environ n fd n_reg n_block s = Some s' \<and> fdt s' = fdt s"
proof (induction n arbitrary: fd n_reg n_block s)
  case 0
  then show ?case by (simp add: create_loop.simps)
next
  case (Suc n)
  show ?case
  proof (cases "int MAXFD \<le> fd")
    case False
    with Suc.prems have fd: "0 \<le> fd" "fd < int MAXFD" by simp_all
    obtain r s' where r: "register_reg h True n_reg fd (fd_flags (fdt s ! nat fd) AND O_ACCMODE) s = Some (r, s')"
      "fdt s' = fdt s" "st_mode (fd_st (fdt s ! nat fd)) AND S_IFMT = S_IFREG \<longrightarrow> r = fd"
      using register_reg_musl [OF fd] by blast
    have IH: "\<exists>s''. create_loop h True environ n (fd + 1) a b t = Some s'' \<and> fdt s'' = fdt s" if "fdt t = fdt s" for a b t
      using Suc.prems Suc.IH [of "fd + 1" a b t] that by simp
    show ?thesis
      using fd r by (subst create_loop.simps)
        (auto simp: get_fd_in register_block_def register_net_def split_beta bind_eq_Some_conv intro!: IH)
  qed (simp add: create_loop.simps)
qed

lemma create_9pfs_total:
  assumes "\<forall>e \<in> set es. nul_free e"
  shows "\<exists>s'. create_9pfs h True (map cstring es) s = Some s' \<and> fdt s' = fdt s"
proof (cases "env_lookup es ''9PFS_MNT''")
  case None
  then show ?thesis using assms getenv_str_lookup [of "''9PFS_MNT''" es] by (simp add: create_9pfs_def)
next
  case (Some v)
  then have "nul_free v" using assms env_lookup_nul_free by blast
  then obtain d where "strcmp (cstring v) (cstring ''/'') = Some d"
    using strcmp_cmp [of v "''/''" "[]" "[]"] by (auto simp: cstring_def)
  then show ?thesis
    using Some assms getenv_str_lookup [of "''9PFS_MNT''" es] by (simp add: create_9pfs_def Let_def)
qed

section \<open>Properties\<close>

text \<open>
  C31: After \<open>__franken_fdinit\<close> the table describes the descriptors of the host.  The environment is
  such as rexec writes it (\<open>entry_ok\<close>): every descriptor named by an entry is below 64 and known to the host.
  Then exactly the open standard descriptors and those named by the entries are valid, and a valid
  entry has the status and the flags that the host reports.  Where the host does not know a described
  descriptor, \<open>fdinit_info_unknown\<close> says what happens instead.
\<close>

theorem fdinit_table:
  assumes "\<forall>e \<in> set es. entry_ok h e"
  shows "\<exists>s. franken_fdinit h (map cstring es) init0 = Some s \<and> length (fdt s) = MAXFD \<and>
    (\<forall>k < MAXFD. if k < 3 \<and> h_fstat h (int k) \<noteq> None \<or> (\<exists>e \<in> set es. is_info e \<and> fd_of e = int k)
      then fd_valid (fdt s ! k) = 1 \<and> fd_flags (fdt s ! k) = h_getfl h (int k) \<and>
        h_fstat h (int k) = Some (fd_st (fdt s ! k))
      else fd_valid (fdt s ! k) = 0)"
proof -
  obtain s where "franken_fdinit h (map cstring es) init0 = Some s" "tab_inv h (set es) s"
    using franken_fdinit_all [OF assms] by blast
  then show ?thesis unfolding tab_inv_def entry_inv_def known_def by blast
qed

text \<open>A host on which every descriptor is a block device of one sector, and an environment for it.\<close>

definition blk_host :: host where
  "blk_host = \<lparr>h_fstat = \<lambda>_. Some \<lparr>st_mode = S_IFBLK, st_size = 512, st_hwaddr = []\<rparr>, h_getfl = \<lambda>_. O_RDWR,
     h_ans = \<lambda>_ _. 0, h_mnt = \<lambda>_. ''/mnt''\<rparr>"

definition blk_env :: "string list" where
  "blk_env = [''__RUMP_FDINFO_DISK_a=5'', ''HOME=/'']"

lemma blk_env_ok: "\<forall>e \<in> set blk_env. entry_ok blk_host e"
  by (simp add: blk_env_def entry_ok_def is_info_def fd_of_def blk_host_def cstring_def atoi_def isspace_def
      isdigit_def wrap32_def nul_free_def MAXFD_def)

theorem fdinit_table_witness:
  "\<exists>s. franken_fdinit blk_host (map cstring blk_env) init0 = Some s \<and> fd_valid (fdt s ! 2) = 1 \<and>
    fd_valid (fdt s ! 7) = 0"
proof -
  obtain s where s: "franken_fdinit blk_host (map cstring blk_env) init0 = Some s"
    "\<forall>k < MAXFD. if k < 3 \<and> h_fstat blk_host (int k) \<noteq> None \<or> (\<exists>e \<in> set blk_env. is_info e \<and> fd_of e = int k)
      then fd_valid (fdt s ! k) = 1 \<and> fd_flags (fdt s ! k) = h_getfl blk_host (int k) \<and>
        h_fstat blk_host (int k) = Some (fd_st (fdt s ! k))
      else fd_valid (fdt s ! k) = 0"
    using fdinit_table [OF blk_env_ok] by blast
  have "fd_valid (fdt s ! 2) = 1" using s(2) [rule_format, of 2] by (simp add: MAXFD_def blk_host_def)
  moreover have "fd_valid (fdt s ! 7) = 0"
    using s(2) [rule_format, of 7]
    by (simp add: MAXFD_def blk_env_def is_info_def fd_of_def cstring_def atoi_def isspace_def isdigit_def wrap32_def)
  ultimately show ?thesis using s(1) by blast
qed

text \<open>
  C32: \<open>__franken_fdinit\<close> attaches, in the order of the environment, one device for each entry
  that describes a disk, a network interface or the 9pfs socket, except that the first entry of the
  environment is handled twice, so that its device is attached twice.
\<close>

theorem fdinit_attaches:
  assumes "\<forall>e \<in> set es. entry_ok h e"
  shows "\<exists>s. franken_fdinit h (map cstring es) init0 = Some s \<and>
    filter attach_call (ext_calls s) = concat (map (attach_of es) (take 1 es @ es))"
  using franken_fdinit_all [OF assms] by blast

theorem fdinit_attaches_witness:
  "\<exists>s. franken_fdinit blk_host (map cstring blk_env) init0 = Some s \<and>
    filter attach_call (ext_calls s) = [Ext ''lkl_disk_add'' [AI 5], Ext ''lkl_disk_add'' [AI 5]]"
  using fdinit_attaches [OF blk_env_ok]
  by (simp add: blk_env_def attach_of_def fd_of_def cstring_def atoi_def isspace_def isdigit_def wrap32_def)

text \<open>
  C34: \<open>__franken_fdinit_create\<close> ends, in the musl build: the loop over the descriptors takes at
  most 59 rounds whatever the kernel answers, and the last calls mount the generic file systems.
\<close>

theorem fdinit_create_returns:
  assumes "\<forall>e \<in> set es. nul_free e" and "length (fdt s) = MAXFD"
    and "\<forall>v. env_lookup es ''__RUMP_FDINFO_ROOT'' = Some v \<longrightarrow>
      0 \<le> the (atoi (cstring v)) \<and> the (atoi (cstring v)) < int MAXFD"
  shows "\<exists>s' cs. franken_fdinit_create h True (map cstring es) 59 s = Some s' \<and>
    ext_calls s' = cs @ [Ext ''mkdir'' [AS ''/tmp'', AI 511], Ext ''mount'' [AS ''tmpfs'', AS ''/tmp'', AI 0],
      Ext ''mkdir'' [AS ''/proc'', AI 511], Ext ''mount'' [AS ''proc'', AS ''/proc'', AI 0],
      Ext ''mkdir'' [AS ''/sys'', AI 511], Ext ''mount'' [AS ''sysfs'', AS ''/sys'', AI 0]]"
proof -
  obtain r0 s0 where s0: "create_std h True 0 O_RDONLY 0 s = Some (r0, s0)" "fdt s0 = fdt s"
    using create_std_musl [of 0 h O_RDONLY 0 s] by (auto simp: MAXFD_def)
  obtain r1 s1 where s1: "create_std h True 1 O_WRONLY r0 s0 = Some (r1, s1)" "fdt s1 = fdt s0"
    using create_std_musl [of 1 h O_WRONLY r0 s0] by (auto simp: MAXFD_def)
  obtain r2 s2 where s2: "create_std h True 2 O_WRONLY r1 s1 = Some (r2, s2)" "fdt s2 = fdt s1"
    using create_std_musl [of 2 h O_WRONLY r1 s1] by (auto simp: MAXFD_def)
  obtain r3 s3 where s3: "create_root h True (map cstring es) s2 = Some (r3, s3)"
    using create_root_musl [OF assms(1) _ assms(3)] assms(2) s0(2) s1(2) s2(2) by metis
  obtain s4 where s4: "create_loop h True (map cstring es) 59 5 r2 r3 s3 = Some s4"
    using create_loop_musl [of 5 59 h "map cstring es" r2 r3 s3] by (auto simp: MAXFD_def)
  obtain s5 where s5: "create_9pfs h True (map cstring es) s4 = Some s5"
    using create_9pfs_total [OF assms(1)] by blast
  show ?thesis
    using s0(1) s1(1) s2(1) s3 s4 s5
    by (simp add: franken_fdinit_create_def create_mounts_def mount_tmpfs_def Let_def)
qed

theorem fdinit_create_returns_witness:
  "\<exists>s' cs. franken_fdinit_create blk_host True (map cstring blk_env) 59 init0 = Some s' \<and>
    ext_calls s' = cs @ [Ext ''mkdir'' [AS ''/tmp'', AI 511], Ext ''mount'' [AS ''tmpfs'', AS ''/tmp'', AI 0],
      Ext ''mkdir'' [AS ''/proc'', AI 511], Ext ''mount'' [AS ''proc'', AS ''/proc'', AI 0],
      Ext ''mkdir'' [AS ''/sys'', AI 511], Ext ''mount'' [AS ''sysfs'', AS ''/sys'', AI 0]]"
  by (rule fdinit_create_returns) (simp_all add: blk_env_def nul_free_def init0_def)

text \<open>
  \<open>mkkey\<close> stays inside its buffers and appends the device number to the prefix; for a number
  below 10 the digits read back as the number, but from 10 on the tens digit is written twice, so
  that ten devices share a name.
\<close>

theorem mkkey_digits:
  assumes "nul_free pre" and "0 \<le> dev" and "dev \<le> 99" and "0 \<le> fd" and "fd \<le> 99"
    and "length pre + 3 \<le> length k" and "3 \<le> length n"
  shows "\<exists>k' n'. mkkey k n (cstring pre) dev fd = Some (k', n') \<and> length k' = length k \<and>
    take (length pre) k' = pre \<and>
    atoi (drop (length pre) k') = Some (if dev < 10 then dev else 11 * (dev div 10)) \<and>
    atoi n' = Some (if fd < 10 then fd else 11 * (fd div 10))"
proof -
  have num: "atoi (mkkey_num x @ r) = Some (if x < 10 then x else 11 * (x div 10))" "length (mkkey_num x) \<le> 3"
    if "0 \<le> x" "x \<le> 99" for x r
  proof -
    have "isdigit (char_of (d + 48 :: int)) \<and> uchar (char_of (d + 48 :: int)) = d + 48 \<and>
        \<not> isspace (char_of (d + 48 :: int)) \<and> char_of (d + 48 :: int) \<noteq> CHR ''-''" if "0 \<le> d" "d \<le> 9" for d
    proof -
      have u: "uchar (char_of (d + 48 :: int)) = d + 48" using that by (simp add: of_char_of)
      then have "isdigit (char_of (d + 48 :: int))" using that by (simp add: isdigit_def)
      with u show ?thesis using isdigit_not_space by blast
    qed
    note digit = this [of x] this [of "x div 10"]
    have "x div 10 \<le> 9" "0 \<le> x div 10" "x < 10 \<longrightarrow> x \<le> 9" using that by linarith+
    with digit that show "atoi (mkkey_num x @ r) = Some (if x < 10 then x else 11 * (x div 10))" "length (mkkey_num x) \<le> 3"
      by (auto simp: mkkey_num_def atoi_def isdigit_def [of NUL] wrap32_id)
  qed
  have "strlen (cstring pre) = Some (length pre)" using assms(1) by (simp add: cstring_def)
  moreover have "take (length pre) (cstring pre) = pre" by (simp add: cstring_def)
  ultimately show ?thesis
    using assms num [of dev] num [of fd] by (simp add: mkkey_def put_def)
qed

theorem mkkey_digits_witness:
  "\<exists>k' n'. mkkey buf16 buf16 (cstring ''/dev/vfile'') 17 5 = Some (k', n') \<and>
    atoi (drop 10 k') = Some 11 \<and> atoi n' = Some 5"
  using mkkey_digits [of "''/dev/vfile''" 17 5 buf16 buf16] by (auto simp: nul_free_def buf16_def numeral_eq_Suc)

text \<open>
  C35: The program name is what follows the last slash of \<open>argv[0]\<close>, as a pointer into it.
\<close>

theorem progname_basename:
  assumes "nul_free a"
  shows "progname (cstring a) = Some (cstring (rev (takeWhile (\<lambda>c. c \<noteq> CHR ''/'') (rev a))))"
proof -
  have "progname_loop pn (cstring s) =
      Some (if CHR ''/'' \<in> set s then cstring (rev (takeWhile (\<lambda>c. c \<noteq> CHR ''/'') (rev s))) else pn)"
    if "nul_free s" for pn s
    using that
  proof (induction s arbitrary: pn)
    case (Cons c s)
    have tw: "takeWhile (\<lambda>c. c \<noteq> CHR ''/'') (rev s) = rev s" if "CHR ''/'' \<notin> set s"
      using that by (auto simp: takeWhile_eq_all_conv)
    show ?case
      using Cons tw by (auto simp: cstring_def takeWhile_append)
  qed (simp add: cstring_def)
  moreover have "CHR ''/'' \<notin> set a \<Longrightarrow> rev (takeWhile (\<lambda>c. c \<noteq> CHR ''/'') (rev a)) = a"
    by (subst takeWhile_eq_all_conv [THEN iffD2]) auto
  ultimately show ?thesis using assms by (auto simp: progname_def)
qed

theorem progname_basename_witness: "progname (cstring ''/usr/bin/cat'') = Some (cstring ''cat'')"
  using progname_basename [of "''/usr/bin/cat''"] by (simp add: nul_free_def)

end
