(* ===== verification/Platform_Linux.thy ===== *)
theory Platform_Linux
  imports Fdtable
begin

text \<open>
  The Linux host layer, platform/linux: the system call return convention, file and memory calls,
  \<open>fstat\<close>, clocks and sleeping, random numbers, the scan of the inherited descriptors at start
  and the symbol lookup in the vDSO.  The kernel is a parameter: \<open>k_sys\<close> is the raw result of
  a system call from the calls made before, the other fields are what the kernel writes through
  pointers.  The image of the vDSO is given as typed tables.
\<close>

section \<open>System calls\<close>

record linux_stat =
  lst_mode :: "32 word"
  lst_size :: int
  lst_rdev :: "64 word"

record kern =
  k_sys :: "ext list \<Rightarrow> ext \<Rightarrow> 64 word"
  k_stat :: "int \<Rightarrow> linux_stat"
  k_family :: "int \<Rightarrow> int"
  k_hwaddr :: "int \<Rightarrow> 8 word list"
  k_blksize :: "int \<Rightarrow> int"
  k_ifflags :: "int \<Rightarrow> 32 word"
  k_time :: "ext list \<Rightarrow> int \<times> int"
  k_revents :: "ext list \<Rightarrow> int \<Rightarrow> int"

text \<open>The globals of the layer; \<open>__platform_pollfd\<close> with \<open>__platform_npoll\<close> as a list of descriptor and events.\<close>

record os =
  os_fdt :: "fdtable list"
  os_errno :: int
  os_calls :: "ext list"
  os_pollfd :: "(int \<times> int) list"
  os_random_fd :: int
  os_socket_fd :: int
  os_pagesize :: int
  os_random :: "8 word list option"
  os_randsrc :: int

definition set_errno :: "errno \<Rightarrow> os \<Rightarrow> os" where
  "set_errno e s = s\<lparr>os_errno := errno_val e\<rparr>"

text \<open>\<open>__syscall_ret\<close>\<close>

definition syscall_ret :: "64 word \<Rightarrow> os \<Rightarrow> int \<times> os" where
  "syscall_ret r s = (if - 4096 < r then (-1, s\<lparr>os_errno := sint (- r)\<rparr>) else (sint r, s))"

definition raw_syscall :: "kern \<Rightarrow> ext \<Rightarrow> os \<Rightarrow> 64 word \<times> os" where
  "raw_syscall k c s = (k_sys k (os_calls s) c, s\<lparr>os_calls := os_calls s @ [c]\<rparr>)"

definition syscall :: "kern \<Rightarrow> ext \<Rightarrow> os \<Rightarrow> int \<times> os" where
  "syscall k c s = (let (r, s) = raw_syscall k c s in syscall_ret r s)"

section \<open>Files\<close>

definition LINUX_EAGAIN :: int where "LINUX_EAGAIN = 11"
definition LINUX_ESPIPE :: int where "LINUX_ESPIPE = 29"
definition ESPIPE_val :: int where "ESPIPE_val = 29"

text \<open>The error translation of \<open>read\<close>, \<open>write\<close>, \<open>readv\<close> and \<open>writev\<close>, with their \<open>int\<close> result.\<close>

definition rw_result :: "int \<times> os \<Rightarrow> int \<times> os" where
  "rw_result r =
     (let (ret, s) = r; ret = wrap32 ret
      in if ret = -1 then
           (ret, set_errno (if os_errno s = LINUX_EAGAIN then EAGAIN else EBADF) s)
         else (ret, s))"

definition read :: "kern \<Rightarrow> int \<Rightarrow> int \<Rightarrow> os \<Rightarrow> int \<times> os" where
  "read k fd count s = rw_result (syscall k (Ext ''read'' [AI fd, AI count]) s)"

definition write_fd :: "kern \<Rightarrow> int \<Rightarrow> int \<Rightarrow> os \<Rightarrow> int \<times> os" where
  "write_fd k fd count s = rw_result (syscall k (Ext ''write'' [AI fd, AI count]) s)"

definition readv :: "kern \<Rightarrow> int \<Rightarrow> int \<Rightarrow> os \<Rightarrow> int \<times> os" where
  "readv k fd iovcnt s = rw_result (syscall k (Ext ''readv'' [AI fd, AI iovcnt]) s)"

definition writev :: "kern \<Rightarrow> int \<Rightarrow> int \<Rightarrow> os \<Rightarrow> int \<times> os" where
  "writev k fd iovcnt s = rw_result (syscall k (Ext ''writev'' [AI fd, AI iovcnt]) s)"

text \<open>The same for \<open>preadv\<close> and \<open>pwritev\<close>.\<close>

definition prw_result :: "int \<times> os \<Rightarrow> int \<times> os" where
  "prw_result r =
     (let (ret, s) = r; ret = wrap32 ret
      in if ret = -1 then
           (ret, if os_errno s = LINUX_EAGAIN then set_errno EAGAIN s
                 else if os_errno s = LINUX_ESPIPE then s\<lparr>os_errno := ESPIPE_val\<rparr>
                 else set_errno EBADF s)
         else (ret, s))"

definition preadv :: "kern \<Rightarrow> int \<Rightarrow> int \<Rightarrow> int \<Rightarrow> os \<Rightarrow> int \<times> os" where
  "preadv k fd iovcnt off s = prw_result (syscall k (Ext ''preadv'' [AI fd, AI iovcnt, AI off, AI (drop_bit 32 off)]) s)"

definition pwritev :: "kern \<Rightarrow> int \<Rightarrow> int \<Rightarrow> int \<Rightarrow> os \<Rightarrow> int \<times> os" where
  "pwritev k fd iovcnt off s = prw_result (syscall k (Ext ''pwritev'' [AI fd, AI iovcnt, AI off, AI (drop_bit 32 off)]) s)"

definition pread :: "kern \<Rightarrow> int \<Rightarrow> int \<Rightarrow> int \<Rightarrow> os \<Rightarrow> int \<times> os" where
  "pread k fd count offset s = syscall k (Ext ''pread'' [AI fd, AI count, AI offset]) s"

text \<open>The table entry of a descriptor.\<close>

definition os_fd :: "int \<Rightarrow> os \<Rightarrow> fdtable option" where
  "os_fd fd s = (if 0 \<le> fd \<and> fd < int MAXFD then Some (os_fdt s ! nat fd) else None)"

definition pwrite :: "kern \<Rightarrow> int \<Rightarrow> int \<Rightarrow> int \<Rightarrow> os \<Rightarrow> (int \<times> os) option" where
  "pwrite k fd count offset s =
     do {
       e \<leftarrow> os_fd fd s;
       if fd_flags e AND O_ACCMODE = O_RDONLY then Some (errno_val EBADF, s)
       else Some (syscall k (Ext ''pwrite'' [AI fd, AI count, AI offset]) s)
     }"

definition fsync :: "kern \<Rightarrow> int \<Rightarrow> os \<Rightarrow> int \<times> os" where
  "fsync k fd s = (let (r, s) = syscall k (Ext ''fsync'' [AI fd]) s in (wrap32 r, s))"

definition close :: "kern \<Rightarrow> int \<Rightarrow> os \<Rightarrow> int \<times> os" where
  "close k fd s =
     (let (r, s) = raw_syscall k (Ext ''close'' [AI fd]) s;
          r = wrap32 (sint r);
          r = (if r = - errno_val EINTR then 0 else r);
          (r, s) = syscall_ret (word_of_int r) s
      in (wrap32 r, s))"

section \<open>Memory\<close>

definition munmap :: "kern \<Rightarrow> int \<Rightarrow> nat \<Rightarrow> os \<Rightarrow> int \<times> os" where
  "munmap k addr len s =
     (let (ret, s) = syscall k (Ext ''munmap'' [AI addr, AI (int len)]) s; ret = wrap32 ret
      in (ret, if ret = -1 then set_errno EINVAL s else s))"

definition mprotect :: "kern \<Rightarrow> nat \<Rightarrow> nat \<Rightarrow> int \<Rightarrow> os \<Rightarrow> int \<times> os" where
  "mprotect k addr len prot s =
     (let (ret, s) = syscall k (Ext ''mprotect'' [AI (int addr), AI (int len), AI prot]) s; ret = wrap32 ret
      in (ret, if ret = -1 then set_errno EINVAL s else s))"

text \<open>\<open>__mmap\<close>; \<open>None\<close> is \<open>MAP_FAILED\<close>.\<close>

definition mmap_sys :: "kern \<Rightarrow> int \<Rightarrow> nat \<Rightarrow> int \<Rightarrow> 32 word \<Rightarrow> int \<Rightarrow> int \<Rightarrow> os \<Rightarrow> int option \<times> os" where
  "mmap_sys k addr len prot nflags fd offset s =
     (let (r, s) = syscall k (Ext ''mmap'' [AI addr, AI (int len), AI prot, AI (sint nflags), AI fd, AI offset]) s
      in (if r = -1 then None else Some r, s))"

abbreviation "MAP_SHARED \<equiv> 0x01 :: 32 word"
abbreviation "MAP_PRIVATE \<equiv> 0x02 :: 32 word"
abbreviation "MAP_FIXED \<equiv> 0x10 :: 32 word"
abbreviation "MAP_ANON \<equiv> 0x20 :: 32 word"
abbreviation "MAP_STACK \<equiv> 0x2000 :: 32 word"
abbreviation "MAP_ALIGNMENT_MASK \<equiv> 0xFF000000 :: 32 word"
abbreviation "LINUX_MAP_SHARED \<equiv> 0x01 :: 32 word"
abbreviation "LINUX_MAP_PRIVATE \<equiv> 0x02 :: 32 word"
abbreviation "LINUX_MAP_FIXED \<equiv> 0x10 :: 32 word"
abbreviation "LINUX_MAP_ANON \<equiv> 0x20 :: 32 word"
abbreviation "LINUX_MAP_STACK \<equiv> 0x20000 :: 32 word"

text \<open>The variables \<open>align\<close> and \<open>flags\<close>; the mask is negative as an \<open>int\<close>, and so is the field for 128 and more.\<close>

definition mmap_args :: "32 word \<Rightarrow> int \<times> 32 word" where
  "mmap_args nflags =
     (sint (nflags AND MAP_ALIGNMENT_MASK) div 2 ^ 24,
      (if nflags AND MAP_SHARED \<noteq> 0 then LINUX_MAP_SHARED else 0) OR
      (if nflags AND MAP_PRIVATE \<noteq> 0 then LINUX_MAP_PRIVATE else 0) OR
      (if nflags AND MAP_FIXED \<noteq> 0 then LINUX_MAP_FIXED else 0) OR
      (if nflags AND MAP_ANON \<noteq> 0 then LINUX_MAP_ANON else 0) OR
      (if nflags AND MAP_STACK \<noteq> 0 then LINUX_MAP_STACK else 0))"

text \<open>\<open>mmap\<close> without huge pages; \<open>None\<close> is the shift by an alignment that \<open>long\<close> has no room for.\<close>

definition mmap :: "kern \<Rightarrow> int \<Rightarrow> nat \<Rightarrow> int \<Rightarrow> 32 word \<Rightarrow> int \<Rightarrow> int \<Rightarrow> os \<Rightarrow> (int option \<times> os) option" where
  "mmap k addr len prot nflags fd offset s =
     (let (al, flags) = mmap_args nflags; align = nat al
      in if al < 0 \<or> 63 \<le> al then None
         else Some
           (if align = 0 \<or> 2 ^ align \<le> os_pagesize s then mmap_sys k addr len prot flags fd offset s
            else if fd \<noteq> -1 \<or> offset \<noteq> 0 then (None, set_errno EINVAL s)
            else
              let (mem, s) = mmap_sys k addr (len * 2 mod 2 ^ 64) prot flags (-1) 0 s
              in case mem of
                   None \<Rightarrow> (None, set_errno ENOMEM s)
                 | Some mem \<Rightarrow>
                     let off = mem mod 2 ^ align
                     in if off = 0 then
                          let (r, s) = munmap k (wrap64 (mem + int len)) len s
                          in if r = -1 then (None, set_errno ENOMEM s) else (Some mem, s)
                        else
                          let (r, s) = munmap k mem (len * 2 mod 2 ^ 64) s
                          in if r = -1 then (None, set_errno ENOMEM s)
                             else mmap_sys k (wrap64 (mem + int len - off)) len prot (flags OR MAP_FIXED) (-1) 0 s))"

section \<open>Status\<close>

definition LINUX_S_IFMT :: "32 word" where "LINUX_S_IFMT = 0xF000"
definition LINUX_S_IFDIR :: "32 word" where "LINUX_S_IFDIR = 0x4000"
definition LINUX_S_IFCHR :: "32 word" where "LINUX_S_IFCHR = 0x2000"
definition LINUX_S_IFBLK :: "32 word" where "LINUX_S_IFBLK = 0x6000"
definition LINUX_S_IFREG :: "32 word" where "LINUX_S_IFREG = 0x8000"
definition LINUX_S_IFIFO :: "32 word" where "LINUX_S_IFIFO = 0x1000"
definition LINUX_S_IFLNK :: "32 word" where "LINUX_S_IFLNK = 0xA000"
definition LINUX_S_IFSOCK :: "32 word" where "LINUX_S_IFSOCK = 0xC000"
definition AF_PACKET :: int where "AF_PACKET = 17"

definition makedev :: "64 word \<Rightarrow> 64 word \<Rightarrow> 64 word" where
  "makedev x y =
     push_bit 32 (x AND 0xfffff000) OR push_bit 8 (x AND 0xfff) OR push_bit 12 (y AND 0xffffff00) OR (y AND 0xff)"

definition major :: "64 word \<Rightarrow> 64 word" where
  "major x = (drop_bit 32 x AND 0xfffff000) OR (drop_bit 8 x AND 0xfff)"

text \<open>Neither a tun/tap nor a macvtap device.\<close>

definition not_tap :: "64 word \<Rightarrow> bool" where
  "not_tap rdev \<longleftrightarrow> rdev \<noteq> makedev 10 200 \<and> major rdev < 138"

text \<open>The mode bits of the type in \<open>st_mode\<close> at the end of \<open>fstat\<close>.\<close>

definition conv_mode :: "32 word \<Rightarrow> 32 word" where
  "conv_mode m =
     (let t = m AND LINUX_S_IFMT
      in (if t = LINUX_S_IFDIR then S_IFDIR else 0) OR (if t = LINUX_S_IFCHR then S_IFCHR else 0) OR
         (if t = LINUX_S_IFBLK then S_IFBLK else 0) OR (if t = LINUX_S_IFREG then S_IFREG else 0) OR
         (if t = LINUX_S_IFIFO then S_IFIFO else 0) OR (if t = LINUX_S_IFLNK then S_IFLNK else 0) OR
         (if t = LINUX_S_IFSOCK then S_IFSOCK else 0))"

definition hwaddr_ioctl :: "kern \<Rightarrow> int \<Rightarrow> os \<Rightarrow> int \<times> os" where
  "hwaddr_ioctl k fd s = (let (r, s) = syscall k (Ext ''ioctl'' [AI fd, AS ''SIOCGIFHWADDR'']) s in (wrap32 r, s))"

definition fstat_sock :: "kern \<Rightarrow> int \<Rightarrow> stat \<Rightarrow> os \<Rightarrow> 32 word \<times> stat \<times> os" where
  "fstat_sock k fd st s =
     (let (r, s) = syscall k (Ext ''getsockname'' [AI fd]) s
      in if wrap32 r = 0 \<and> k_family k fd = AF_PACKET then
           let (r, s) = syscall k (Ext ''ioctl'' [AI fd, AS ''SIOCGIFNAME'']) s;
               (r, s) = hwaddr_ioctl k fd s
           in (lst_mode (k_stat k fd), if r = 0 then st\<lparr>st_hwaddr := k_hwaddr k fd\<rparr> else st, s)
         else (0, st, s))"

definition fstat_chr :: "kern \<Rightarrow> int \<Rightarrow> stat \<Rightarrow> os \<Rightarrow> 32 word \<times> stat \<times> os" where
  "fstat_chr k fd st s =
     (if not_tap (lst_rdev (k_stat k fd)) then (lst_mode (k_stat k fd), st, s)
      else
        let (r, s) = syscall k (Ext ''ioctl'' [AI fd, AS ''TUNGETIFF'']) s
        in if wrap32 r = 0 then
             let (r, s) = hwaddr_ioctl k fd s;
                 (r, s) = (if r = -1 \<and> os_socket_fd s \<noteq> -1 then hwaddr_ioctl k (os_socket_fd s) s else (r, s))
             in (LINUX_S_IFSOCK, if r = 0 then st\<lparr>st_hwaddr := k_hwaddr k fd\<rparr> else st, s)
           else (lst_mode (k_stat k fd), st, s))"

text \<open>\<open>fstat\<close>: the result, the structure written and the state.\<close>

definition fstat :: "kern \<Rightarrow> int \<Rightarrow> stat \<Rightarrow> os \<Rightarrow> (int \<times> stat \<times> os) option" where
  "fstat k fd st s =
     (let (r, s) = syscall k (Ext ''fstat'' [AI fd]) s
      in if wrap32 r = -1 then Some (-1, st, set_errno EBADF s)
         else
           let lst = k_stat k fd;
               t = lst_mode lst AND LINUX_S_IFMT;
               st = st\<lparr>st_size := lst_size lst\<rparr>
           in do {
                (mode, st, s) \<leftarrow>
                  (if t = LINUX_S_IFSOCK then Some (fstat_sock k fd st s)
                   else if t = LINUX_S_IFBLK then
                     let (r, s) = syscall k (Ext ''ioctl'' [AI fd, AS ''BLKGETSIZE64'']) s
                     in Some (lst_mode lst, if r = -1 then st else st\<lparr>st_size := k_blksize k fd\<rparr>, s)
                   else if t = LINUX_S_IFCHR then Some (fstat_chr k fd st s)
                   else if t = LINUX_S_IFREG then
                     do {
                       e \<leftarrow> os_fd fd s;
                       Some (if fd_mounted e = 1 then (lst_mode lst AND NOT LINUX_S_IFMT) OR LINUX_S_IFBLK
                             else lst_mode lst, st, s)
                     }
                   else Some (lst_mode lst, st, s));
                Some (0, st\<lparr>st_mode := conv_mode mode\<rparr>, s)
              })"

section \<open>Clocks and sleeping\<close>

definition LINUX_CLOCK_REALTIME :: int where "LINUX_CLOCK_REALTIME = 0"
definition LINUX_CLOCK_MONOTONIC :: int where "LINUX_CLOCK_MONOTONIC = 1"
definition NSEC_PER_SEC :: int where "NSEC_PER_SEC = 1000000000"
definition MIN_SLEEP_INTERVAL_NSEC :: int where "MIN_SLEEP_INTERVAL_NSEC = 60 * 1000"

text \<open>The switch over the clock.\<close>

definition linux_clock :: "int \<Rightarrow> int option" where
  "linux_clock clk =
     (if clk = 0 then Some LINUX_CLOCK_REALTIME else if clk = 3 then Some LINUX_CLOCK_MONOTONIC else None)"

text \<open>\<open>clock_gettime\<close> over the system call, and \<open>clock_getres\<close>.\<close>

definition clock_gettime :: "kern \<Rightarrow> int \<Rightarrow> os \<Rightarrow> (int \<times> int) option \<times> os" where
  "clock_gettime k clk s =
     (case linux_clock clk of
        None \<Rightarrow> (None, set_errno EINVAL s)
      | Some lid \<Rightarrow>
          let t = k_time k (os_calls s);
              (ret, s) = syscall k (Ext ''clock_gettime'' [AI lid]) s
          in if wrap32 ret \<noteq> 0 then (None, set_errno EINVAL s) else (Some t, s))"

definition clock_getres :: "kern \<Rightarrow> int \<Rightarrow> os \<Rightarrow> (int \<times> int) option \<times> os" where
  "clock_getres k clk s =
     (case linux_clock clk of
        None \<Rightarrow> (None, set_errno EINVAL s)
      | Some lid \<Rightarrow>
          let t = k_time k (os_calls s);
              (ret, s) = syscall k (Ext ''clock_getres'' [AI lid]) s
          in if wrap32 ret \<noteq> 0 then (None, set_errno EINVAL s) else (Some t, s))"

definition timespec_diff_ns :: "int \<times> int \<Rightarrow> int \<times> int \<Rightarrow> int" where
  "timespec_diff_ns start end' =
     (let (ssec, snsec) = start; (esec, ensec) = end';
          (sec, nsec) = (if ensec - snsec < 0 then (esec - ssec - 1, NSEC_PER_SEC + ensec - snsec)
                         else (esec - ssec, ensec - snsec))
      in sec * NSEC_PER_SEC + nsec)"

text \<open>The busy loop, with at most \<open>n\<close> readings of the clock; the outer \<open>None\<close>: more are needed.\<close>

fun fast_path_loop :: "kern \<Rightarrow> int \<times> int \<Rightarrow> int \<Rightarrow> nat \<Rightarrow> os \<Rightarrow> (int \<times> os) option" where
  "fast_path_loop k start dur 0 s = None"
| "fast_path_loop k start dur (Suc n) s =
     (let (now, s) = clock_gettime k 3 s
      in case now of
           None \<Rightarrow> Some (-1, set_errno EINVAL s)
         | Some now \<Rightarrow> if timespec_diff_ns start now > dur then Some (0, s) else fast_path_loop k start dur n s)"

definition sleep_fast_path :: "kern \<Rightarrow> int \<times> int \<Rightarrow> nat \<Rightarrow> os \<Rightarrow> (int \<times> os) option" where
  "sleep_fast_path k ltp n s =
     (let (start, s) = clock_gettime k 3 s
      in case start of
           None \<Rightarrow> Some (-1, set_errno EINVAL s)
         | Some start \<Rightarrow> fast_path_loop k start (fst ltp * NSEC_PER_SEC + snd ltp) n s)"

text \<open>The threads woken behind \<open>ppoll\<close>: the receivers of the descriptors with events; \<open>None\<close>: outside the table.\<close>

fun poll_woken :: "(int \<times> int) list \<Rightarrow> os \<Rightarrow> nat list option" where
  "poll_woken [] s = Some []"
| "poll_woken ((fd, revents) # ps) s =
     (if revents = 0 then poll_woken ps s
      else do {
        e \<leftarrow> os_fd fd s;
        ws \<leftarrow> poll_woken ps s;
        Some (if fd_wake e = 0 then ws else fd_wake e # ws)
      })"

text \<open>\<open>clock_nanosleep\<close> with flags 0 and no remainder: the result, the threads to wake and the state.\<close>

definition clock_nanosleep ::
  "kern \<Rightarrow> int \<Rightarrow> int \<Rightarrow> bool \<Rightarrow> int \<times> int \<Rightarrow> nat \<Rightarrow> os \<Rightarrow> (int \<times> nat list \<times> os) option" where
  "clock_nanosleep k clk flags remain request n s =
     (if flags \<noteq> 0 \<or> remain then Some (-1, [], set_errno EINVAL s)
      else case linux_clock clk of
        None \<Rightarrow> Some (-1, [], set_errno EINVAL s)
      | Some lid \<Rightarrow>
          if os_pollfd s = [] then
            if fst request * NSEC_PER_SEC + snd request < MIN_SLEEP_INTERVAL_NSEC then
              do { (r, s) \<leftarrow> sleep_fast_path k request n s; Some (r, [], s) }
            else
              let (ret, s) = syscall k (Ext ''clock_nanosleep'' [AI lid, AI (fst request), AI (snd request)]) s
              in if wrap32 ret \<noteq> 0 then Some (-1, [], set_errno EINVAL s) else Some (0, [], s)
          else
            let rev = k_revents k (os_calls s);
                (ret, s) = syscall k (Ext ''ppoll'' [AI (int (length (os_pollfd s))), AI (fst request), AI (snd request)]) s;
                s = s\<lparr>os_pollfd := map (\<lambda>(fd, _). (fd, rev fd)) (os_pollfd s)\<rparr>
            in if wrap32 ret = -1 then Some (-1, [], set_errno EINVAL s)
               else if wrap32 ret = 0 then Some (0, [], s)
               else do { ws \<leftarrow> poll_woken (os_pollfd s) s; Some (0, ws, s) })"

text \<open>\<open>poll\<close>: the time it sleeps, and how the events of the last sleep are handed out.\<close>

definition poll_timeout :: "int \<Rightarrow> int \<times> int" where
  "poll_timeout timeout = (if 0 < timeout then (timeout div 1000, timeout mod 1000 * 1000000) else (10, 0))"

fun poll_fds :: "int \<times> int \<Rightarrow> (int \<times> int) list \<Rightarrow> int \<Rightarrow> (int \<times> int) list \<times> int" where
  "poll_fds p [] ret = ([], ret)"
| "poll_fds p ((fd, re) # fds) ret =
     (let (re, ret) = (if fst p = fd then (snd p, ret + 1) else (re, ret));
          (fds, ret) = poll_fds p fds ret
      in ((fd, re) # fds, ret))"

fun poll_collect :: "(int \<times> int) list \<Rightarrow> (int \<times> int) list \<Rightarrow> int \<Rightarrow> (int \<times> int) list \<times> int" where
  "poll_collect [] fds ret = (fds, ret)"
| "poll_collect (p # ps) fds ret =
     (let (fds, ret) = (if snd p \<noteq> 0 then poll_fds p fds ret else (fds, ret))
      in poll_collect ps fds ret)"

section \<open>Random numbers\<close>

definition PLATFORM_RND_AT :: int where "PLATFORM_RND_AT = 0"
definition PLATFORM_RND_GR :: int where "PLATFORM_RND_GR = 1"
definition PLATFORM_RND_FD :: int where "PLATFORM_RND_FD = 2"

text \<open>\<open>getrandom\<close>: the result and the bytes copied from the auxiliary vector.\<close>

definition getrandom :: "kern \<Rightarrow> nat \<Rightarrow> os \<Rightarrow> int \<times> 8 word list \<times> os" where
  "getrandom k sz s =
     (let sys = (\<lambda>s. let (r, s) = syscall k (Ext ''getrandom'' [AI (int sz)]) s in (wrap32 r, [], s))
      in if os_randsrc s = PLATFORM_RND_AT then
           let s = s\<lparr>os_randsrc := PLATFORM_RND_FD\<rparr>
           in case os_random s of
                None \<Rightarrow> (0, [], s)
              | Some bs \<Rightarrow> let n = (if 16 < sz then 16 else sz) in (int n, take n bs, s)
         else if os_randsrc s = PLATFORM_RND_FD then
           if os_random_fd s \<noteq> -1 then
             let (r, s) = read k (os_random_fd s) (int sz) s in (wrap32 r, [], s)
           else sys (s\<lparr>os_randsrc := PLATFORM_RND_GR\<rparr>)
         else if os_randsrc s = PLATFORM_RND_GR then sys s
         else (-1, [], set_errno ENOSYS s))"

section \<open>Program entry\<close>

definition AUX_CNT :: nat where "AUX_CNT = 64"
definition IFF_VNET_HDR :: "32 word" where "IFF_VNET_HDR = 0x4000"

text \<open>The copy of the auxiliary vector, up to the entry 0; \<open>None\<close>: the vector is not terminated.\<close>

fun aux_loop :: "(nat \<times> nat) list \<Rightarrow> nat list \<Rightarrow> nat list option" where
  "aux_loop [] aux = None"
| "aux_loop ((t, v) # av) aux =
     (if t = 0 then Some aux else aux_loop av (if t < AUX_CNT then aux[t := v] else aux))"

definition add_pollfd :: "int \<Rightarrow> os \<Rightarrow> os" where
  "add_pollfd fd s = s\<lparr>os_pollfd := os_pollfd s @ [(fd, 0)]\<rparr>"

text \<open>One descriptor in the loop of \<open>__libc_start_main\<close>.\<close>

definition scan_fd :: "kern \<Rightarrow> int \<Rightarrow> os \<Rightarrow> os" where
  "scan_fd k fd s =
     (let lst = k_stat k fd; t = lst_mode lst AND LINUX_S_IFMT
      in if t = LINUX_S_IFSOCK then
           let s = s\<lparr>os_socket_fd := fd\<rparr>;
               (r, s) = syscall k (Ext ''getsockname'' [AI fd]) s
           in if wrap32 r = 0 \<and> k_family k fd = AF_PACKET then add_pollfd fd s else s
         else if t = LINUX_S_IFCHR then
           if lst_rdev lst = makedev 1 9 then s\<lparr>os_random_fd := fd\<rparr>
           else if not_tap (lst_rdev lst) then s
           else
             let (r, s) = syscall k (Ext ''ioctl'' [AI fd, AS ''TUNGETIFF'']) s
             in if wrap32 r = 0 then
                  let s = (if has_flag (k_ifflags k fd) IFF_VNET_HDR
                           then snd (syscall k (Ext ''ioctl'' [AI fd, AS ''TUNSETIFF'']) s) else s)
                  in add_pollfd fd s
                else s
         else s)"

fun scan_loop :: "kern \<Rightarrow> nat \<Rightarrow> int \<Rightarrow> os \<Rightarrow> os" where
  "scan_loop k 0 fd s = s"
| "scan_loop k (Suc n) fd s =
     (let (r, s) = syscall k (Ext ''fstat'' [AI fd]) s
      in if r = -1 then s else scan_loop k n (fd + 1) (scan_fd k fd s))"

definition os0 :: os where
  "os0 = \<lparr>os_fdt = replicate MAXFD fd0, os_errno = 0, os_calls = [], os_pollfd = [], os_random_fd = -1,
     os_socket_fd = -1, os_pagesize = 0, os_random = None, os_randsrc = PLATFORM_RND_AT\<rparr>"

definition AT_PAGESZ :: nat where "AT_PAGESZ = 6"
definition AT_RANDOM :: nat where "AT_RANDOM = 25"

text \<open>
  \<open>__libc_start_main\<close> for a process that is not a forked child, up to the call of
  \<open>__franken_start_main\<close>; \<open>rnd\<close> gives the 16 bytes at an address.
\<close>

definition libc_start_main :: "kern \<Rightarrow> (nat \<times> nat) list \<Rightarrow> (nat \<Rightarrow> 8 word list) \<Rightarrow> os option" where
  "libc_start_main k auxv rnd =
     do {
       aux \<leftarrow> aux_loop auxv (replicate AUX_CNT 0);
       let s = os0\<lparr>os_pagesize := int (aux ! AT_PAGESZ),
                   os_random := (if aux ! AT_RANDOM = 0 then None else Some (rnd (aux ! AT_RANDOM)))\<rparr>;
       let s = snd (syscall k (Ext ''set_thread_area'' []) s);
       Some (scan_loop k MAXFD 0 s)
     }"

end
