(* ===== verification/Vdso.thy ===== *)
theory Vdso
  imports Platform_Linux
begin

text \<open>
  The lookup of a symbol in the vDSO, platform/linux/vdso.c.  The image is given by what its
  structures hold at an address: program headers, the dynamic section, strings, the symbol table,
  the hash table and the versions.  Addresses are 64-bit words.  \<open>None\<close> is an access outside a
  table, \<open>Some 0\<close> is NULL.  The lookup finds the first acceptable symbol of the table.
\<close>

record phdr =
  p_type :: nat
  p_offset :: "64 word"
  p_vaddr :: "64 word"

record sym =
  st_name :: "64 word"
  st_info :: nat
  st_shndx :: nat
  st_value :: "64 word"

record verdef =
  vd_flags :: nat
  vd_ndx :: nat
  vda_name :: "64 word"

record vdso =
  v_phdr :: "64 word \<Rightarrow> phdr list"
  v_dyn :: "64 word \<Rightarrow> (nat \<times> 64 word) list"
  v_str :: "64 word \<Rightarrow> string"
  v_sym :: "64 word \<Rightarrow> nat \<Rightarrow> sym"
  v_nchain :: "64 word \<Rightarrow> nat"
  v_versym :: "64 word \<Rightarrow> nat \<Rightarrow> nat"
  v_verdef :: "64 word \<Rightarrow> verdef list"

text \<open>\<open>checkver\<close>: the list of definitions ends with \<open>vd_next = 0\<close>.\<close>

fun checkver :: "vdso \<Rightarrow> verdef list \<Rightarrow> nat \<Rightarrow> string \<Rightarrow> 64 word \<Rightarrow> bool option" where
  "checkver m [] vsym vername strings = Some False"
| "checkver m (d # ds) vsym vername strings =
     (if \<not> odd (vd_flags d) \<and> vd_ndx d mod 0x8000 = vsym mod 0x8000
      then map_option (\<lambda>r. r = 0) (strcmp vername (v_str m (strings + vda_name d)))
      else checkver m ds vsym vername strings)"

definition OK_TYPES :: "nat set" where
  "OK_TYPES = {0, 1, 2, 5}"

definition OK_BINDS :: "nat set" where
  "OK_BINDS = {1, 2, 10}"

fun find_ehdr :: "(nat \<times> 64 word) list \<Rightarrow> 64 word option option" where
  "find_ehdr [] = None"
| "find_ehdr ((t, v) # av) = (if t = 33 then Some (Some v) else if t = 0 then Some None else find_ehdr av)"

text \<open>The loop over the program headers: \<open>base\<close> and \<open>dynv\<close>.\<close>

fun phdr_loop :: "64 word \<Rightarrow> phdr list \<Rightarrow> 64 word \<Rightarrow> 64 word \<Rightarrow> 64 word \<times> 64 word" where
  "phdr_loop eh [] base dynv = (base, dynv)"
| "phdr_loop eh (ph # phs) base dynv =
     (if p_type ph = 1 then phdr_loop eh phs (eh + p_offset ph - p_vaddr ph) dynv
      else if p_type ph = 2 then phdr_loop eh phs base (eh + p_offset ph)
      else phdr_loop eh phs base dynv)"

record dyn_tab =
  d_strings :: "64 word"
  d_syms :: "64 word"
  d_hashtab :: "64 word"
  d_versym :: "64 word"
  d_verdef :: "64 word"

fun dyn_loop :: "64 word \<Rightarrow> (nat \<times> 64 word) list \<Rightarrow> dyn_tab \<Rightarrow> dyn_tab option" where
  "dyn_loop base [] d = None"
| "dyn_loop base ((t, v) # dv) d =
     (if t = 0 then Some d
      else dyn_loop base dv
        (if t = 5 then d\<lparr>d_strings := base + v\<rparr>
         else if t = 6 then d\<lparr>d_syms := base + v\<rparr>
         else if t = 4 then d\<lparr>d_hashtab := base + v\<rparr>
         else if t = 0x6ffffff0 then d\<lparr>d_versym := base + v\<rparr>
         else if t = 0x6ffffffc then d\<lparr>d_verdef := base + v\<rparr>
         else d))"

text \<open>The body of the loop over the symbols: whether symbol \<open>i\<close> is the one.\<close>

definition sym_ok :: "vdso \<Rightarrow> dyn_tab \<Rightarrow> string \<Rightarrow> string \<Rightarrow> nat \<Rightarrow> bool option" where
  "sym_ok m d vername name i =
     (let y = v_sym m (d_syms d) i
      in if st_info y mod 16 \<notin> OK_TYPES \<or> st_info y div 16 \<notin> OK_BINDS \<or> st_shndx y = 0 then Some False
         else do {
           r \<leftarrow> strcmp name (v_str m (d_strings d + st_name y));
           if r \<noteq> 0 then Some False
           else if d_versym d \<noteq> 0 then
             checkver m (v_verdef m (d_verdef d)) (v_versym m (d_versym d) i) vername (d_strings d)
           else Some True
         })"

text \<open>The loop, for the \<open>n\<close> symbols from \<open>i\<close> on.\<close>

fun sym_loop :: "vdso \<Rightarrow> dyn_tab \<Rightarrow> string \<Rightarrow> string \<Rightarrow> 64 word \<Rightarrow> nat \<Rightarrow> nat \<Rightarrow> 64 word option" where
  "sym_loop m d vername name base i 0 = Some 0"
| "sym_loop m d vername name base i (Suc n) =
     do {
       ok \<leftarrow> sym_ok m d vername name i;
       if ok then Some (base + st_value (v_sym m (d_syms d) i)) else sym_loop m d vername name base (Suc i) n
     }"

definition vdsosym :: "vdso \<Rightarrow> (nat \<times> 64 word) list \<Rightarrow> string \<Rightarrow> string \<Rightarrow> 64 word option" where
  "vdsosym m auxv vername name =
     do {
       eh \<leftarrow> find_ehdr auxv;
       (case eh of
          None \<Rightarrow> Some 0
        | Some eh \<Rightarrow>
            let (base, dynv) = phdr_loop eh (v_phdr m eh) (-1) 0
            in if dynv = 0 \<or> base = -1 then Some 0
               else do {
                 d \<leftarrow> dyn_loop base (v_dyn m dynv)
                   \<lparr>d_strings = 0, d_syms = 0, d_hashtab = 0, d_versym = 0, d_verdef = 0\<rparr>;
                 if d_strings d = 0 \<or> d_syms d = 0 \<or> d_hashtab d = 0 then Some 0
                 else
                   let d = (if d_verdef d = 0 then d\<lparr>d_versym := 0\<rparr> else d)
                   in sym_loop m d vername name base 0 (v_nchain m (d_hashtab d))
               })
     }"

text \<open>
  The loop finds the first acceptable symbol: on terminated strings it reads nothing outside them,
  the result is NULL exactly when no symbol of the table is acceptable or the address is 0.
\<close>

lemma sym_loop_first:
  assumes "\<forall>j. i \<le> j \<and> j < i + n \<longrightarrow> sym_ok m d vername name j \<noteq> None"
  shows "sym_loop m d vername name base i n =
    Some (case List.find (\<lambda>j. sym_ok m d vername name j = Some True) [i ..< i + n] of
      None \<Rightarrow> 0 | Some j \<Rightarrow> base + st_value (v_sym m (d_syms d) j))"
  using assms
proof (induction n arbitrary: i)
  case (Suc n)
  then obtain b where b: "sym_ok m d vername name i = Some b" by fastforce
  have "[i ..< i + Suc n] = i # [Suc i ..< Suc i + n]" by (simp add: upt_rec)
  then show ?case using b Suc.IH [of "Suc i"] Suc.prems by (cases b) auto
qed simp

lemma sym_ok_total:
  assumes "nul_free name" and "nul_free vername" and "\<And>a. \<exists>t. v_str m a = cstring t \<and> nul_free t"
  shows "sym_ok m d (cstring vername) (cstring name) i \<noteq> None"
proof -
  have cmp: "\<exists>r. strcmp (cstring t) (v_str m a) = Some r" if "nul_free t" for t a
  proof -
    obtain u where "v_str m a = cstring u" "nul_free u" using assms(3) by blast
    then show ?thesis using strcmp_cmp [OF that, of u "[]" "[]"] by (auto simp: cstring_def)
  qed
  have "checkver m ds vsym (cstring vername) st \<noteq> None" for ds vsym st
    by (induction ds) (use cmp [OF assms(2)] in auto)
  moreover obtain r where "strcmp (cstring name) (v_str m (d_strings d + st_name (v_sym m (d_syms d) i))) = Some r"
    using cmp [OF assms(1)] by blast
  ultimately show ?thesis by (simp add: sym_ok_def Let_def del: not_None_eq)
qed

end
