(* ===== verification/Platform_Props.thy ===== *)
theory Platform_Props
  imports Vdso
begin

text \<open>
  Properties of the Linux host layer: aligned mappings, short sleeps, the system call return
  convention, the poll set, random numbers and the lookup in the vDSO.
\<close>

section \<open>System calls\<close>

lemma syscall_fst:
  "fst (syscall k c s) = (if - 4096 < k_sys k (os_calls s) c then -1 else sint (k_sys k (os_calls s) c))"
  by (simp add: syscall_def raw_syscall_def syscall_ret_def)

lemma syscall_snd [simp]:
  "os_calls (snd (syscall k c s)) = os_calls s @ [c]" "os_fdt (snd (syscall k c s)) = os_fdt s"
  "os_pollfd (snd (syscall k c s)) = os_pollfd s" "os_pagesize (snd (syscall k c s)) = os_pagesize s"
  "os_randsrc (snd (syscall k c s)) = os_randsrc s" "os_random (snd (syscall k c s)) = os_random s"
  by (simp_all add: syscall_def raw_syscall_def syscall_ret_def)

lemma sint_word_of_int: "0 \<le> a \<Longrightarrow> a < 2 ^ 63 \<Longrightarrow> sint (word_of_int a :: 64 word) = a"
  by transfer (simp add: signed_take_bit_int_eq_self)

lemma not_error_word: "0 \<le> a \<Longrightarrow> a < 2 ^ 63 \<Longrightarrow> \<not> (- 4096 :: 64 word) < word_of_int a"
  by (simp add: word_less_def uint_word_of_int take_bit_int_eq_self)

lemma syscall_value:
  "k_sys k (os_calls s) c = word_of_int a \<Longrightarrow> 0 \<le> a \<Longrightarrow> a < 2 ^ 63 \<Longrightarrow> fst (syscall k c s) = a"
  by (simp add: syscall_fst sint_word_of_int not_error_word)

section \<open>Mappings\<close>

text \<open>
  What the manual promises of anonymous mappings at a fixed address and of \<open>munmap\<close>, for pages of
  \<open>P\<close> bytes: they succeed on addresses that are multiples of the page size and otherwise fail with \<open>EINVAL\<close>.
\<close>

definition maps_fixed :: "kern \<Rightarrow> int \<Rightarrow> bool" where
  "maps_fixed k P \<longleftrightarrow>
     (\<forall>cs a l prot fl. 0 < l \<longrightarrow>
        k_sys k cs (Ext ''mmap'' [AI a, AI l, AI prot, AI (sint (fl OR MAP_FIXED)), AI (-1), AI 0]) =
          word_of_int (if P dvd a then a else - errno_val EINVAL)) \<and>
     (\<forall>cs a l. 0 < l \<longrightarrow> k_sys k cs (Ext ''munmap'' [AI a, AI l]) = (if P dvd a then 0 else word_of_int (- errno_val EINVAL)))"

text \<open>The first answer of the kernel: the request of twice the length is mapped at \<open>mem\<close>.\<close>

definition maps_at :: "kern \<Rightarrow> int \<Rightarrow> nat \<Rightarrow> int \<Rightarrow> 32 word \<Rightarrow> os \<Rightarrow> int \<Rightarrow> bool" where
  "maps_at k addr len prot nflags s mem \<longleftrightarrow>
     k_sys k (os_calls s) (Ext ''mmap'' [AI addr, AI (int (2 * len)), AI prot, AI (sint (snd (mmap_args nflags))), AI (-1), AI 0]) =
       word_of_int mem"

lemma syscall_fails: "k_sys k (os_calls s) c = word_of_int (- errno_val EINVAL) \<Longrightarrow> fst (syscall k c s) = -1"
  by (simp add: syscall_fst)

lemma mmap_sys_first:
  assumes "maps_at k addr len prot nflags s mem" and "0 \<le> mem" and "mem < 2 ^ 63"
  shows "fst (mmap_sys k addr (2 * len) prot (snd (mmap_args nflags)) (-1) 0 s) = Some mem"
  using syscall_value [OF assms(1) [unfolded maps_at_def] assms(2,3)] assms(2) by (simp add: mmap_sys_def split_beta Let_def)

lemma mmap_sys_fixed:
  assumes "maps_fixed k P" and "0 \<le> a" and "a < 2 ^ 63" and "0 < len"
  shows "fst (mmap_sys k a len prot (fl OR MAP_FIXED) (-1) 0 s) = (if P dvd a then Some a else None)"
proof -
  let ?c = "Ext ''mmap'' [AI a, AI (int len), AI prot, AI (sint (fl OR MAP_FIXED)), AI (-1), AI 0]"
  have "k_sys k (os_calls s) ?c = word_of_int (if P dvd a then a else - errno_val EINVAL)"
    using assms(1,4) by (simp only: maps_fixed_def of_nat_0_less_iff)
  then show ?thesis
    using syscall_value [of k s ?c a] syscall_fails [of k s ?c] assms(2,3) by (auto simp: mmap_sys_def split_beta Let_def)
qed

lemma munmap_fixed:
  assumes "maps_fixed k P" and "0 < len"
  shows "fst (munmap k a len s) = (if P dvd a then 0 else -1)"
proof -
  let ?c = "Ext ''munmap'' [AI a, AI (int len)]"
  have "k_sys k (os_calls s) ?c = (if P dvd a then 0 else word_of_int (- errno_val EINVAL))"
    using assms by (simp only: maps_fixed_def of_nat_0_less_iff)
  then show ?thesis
    using syscall_value [of k s ?c 0] syscall_fails [of k s ?c] by (auto simp: munmap_def split_beta Let_def wrap32_id)
qed

lemma mmap_address:
  assumes k: "maps_fixed k P" "maps_at k addr len prot nflags s mem" "P dvd mem"
    and al: "fst (mmap_args nflags) = int align" "0 < align" "align < 63" "os_pagesize s < 2 ^ align"
    and mem: "2 ^ align \<le> mem" "mem + 2 * int len < 2 ^ 63" and len: "0 < len"
  shows "map_option fst (mmap k addr len prot nflags (-1) 0 s) =
    Some (if mem mod 2 ^ align = 0 then (if P dvd int len then Some mem else None)
          else if P dvd mem + int len - mem mod 2 ^ align then Some (mem + int len - mem mod 2 ^ align) else None)"
proof -
  let ?a = "mem + int len - mem mod 2 ^ align"
  have pos: "(0 :: int) < 2 ^ align" by simp
  then have m: "0 \<le> mem" "mem < 2 ^ 63" "0 \<le> ?a" "?a < 2 ^ 63" "mem + int len < 2 ^ 63"
    using mem pos_mod_bound [OF pos, of mem] pos_mod_sign [OF pos, of mem] by linarith+
  have l: "len * 2 mod 18446744073709551616 = 2 * len" using mem m(1) by simp
  have w: "wrap64 ?a = ?a" "wrap64 (mem + int len) = mem + int len" using m by (simp_all add: wrap64_id)
  have d: "P dvd mem + int len \<longleftrightarrow> P dvd int len" using k(3) by (simp add: dvd_add_right_iff)
  show ?thesis
    using al mmap_sys_first [OF k(2) m(1,2)] mmap_sys_fixed [OF k(1) m(3,4) len] munmap_fixed [OF k(1)] k(3) len
    by (simp add: mmap_def split_beta Let_def l w d)
qed

lemma align_iff:
  fixes a m n :: int
  assumes "b dvd a"
  shows "b dvd m + n - m mod a \<longleftrightarrow> b dvd n"
proof -
  have "m + n - m mod a = (m - m mod a) + n" by simp
  moreover have "b dvd m - m mod a" using dvd_trans [OF assms dvd_minus_mod] .
  ultimately show ?thesis using dvd_add_right_iff by metis
qed


primrec int_arg :: "arg \<Rightarrow> int" where
  "int_arg (AI a) = a"
| "int_arg (AS s) = 0"

definition map_kern :: kern where
  "map_kern =
     \<lparr>k_sys = (\<lambda>cs c. case c of Ext f as \<Rightarrow>
         if f = ''munmap'' then word_of_int (if 0x1000 dvd int_arg (as ! 0) then 0 else - 22)
         else if f = ''mmap'' then
           if word_of_int (int_arg (as ! 3)) AND MAP_FIXED = 0 then 0x10002000
           else word_of_int (if 0x1000 dvd int_arg (as ! 0) then int_arg (as ! 0) else - 22)
         else 0),
      k_stat = (\<lambda>_. \<lparr>lst_mode = 0, lst_size = 0, lst_rdev = 0\<rparr>), k_family = (\<lambda>_. 0), k_hwaddr = (\<lambda>_. []),
      k_blksize = (\<lambda>_. 0), k_ifflags = (\<lambda>_. 0), k_time = (\<lambda>cs. (int (length cs), 0)), k_revents = (\<lambda>_ _. 0)\<rparr>"

lemma fixed_bit: "(fl OR MAP_FIXED) AND MAP_FIXED = MAP_FIXED"
  by (rule bit_word_eqI) (auto simp: bit_and_iff bit_or_iff)

lemma map_kern_maps: "maps_fixed map_kern (2 ^ 12)"
  by (simp add: maps_fixed_def map_kern_def fixed_bit)

text \<open>\<open>MAP_PRIVATE | MAP_ANON | MAP_ALIGNMENT_64KB\<close>\<close>

definition flags_64K :: "32 word" where "flags_64K = 0x10000022"

lemma flags_64K: "mmap_args flags_64K = (16, 0x22)"
  by (simp add: mmap_args_def flags_64K_def)

lemma map_kern_first: "maps_at map_kern 0 len 3 flags_64K s 0x10002000"
  by (simp add: maps_at_def flags_64K map_kern_def)


section \<open>Short sleeps\<close>

definition ns :: "int \<times> int \<Rightarrow> int" where
  "ns t = fst t * NSEC_PER_SEC + snd t"

lemma timespec_diff_exact: "timespec_diff_ns a b = ns b - ns a"
  by (simp add: timespec_diff_ns_def ns_def split_beta Let_def algebra_simps)

text \<open>A clock that can be read and advances by at least a nanosecond between readings.\<close>

definition clock_runs :: "kern \<Rightarrow> bool" where
  "clock_runs k \<longleftrightarrow> (\<forall>cs. k_sys k cs (Ext ''clock_gettime'' [AI 1]) = 0) \<and>
     (\<forall>cs c. ns (k_time k cs) + 1 \<le> ns (k_time k (cs @ [c])))"

lemma clock_gettime_runs:
  assumes "clock_runs k"
  shows "\<exists>s'. clock_gettime k 3 s = (Some (k_time k (os_calls s)), s') \<and>
    os_calls s' = os_calls s @ [Ext ''clock_gettime'' [AI 1]]"
proof -
  let ?c = "Ext ''clock_gettime'' [AI 1]"
  have "fst (syscall k ?c s) = 0" using assms syscall_value [of k s ?c 0] by (simp add: clock_runs_def)
  then show ?thesis
    using syscall_snd(1) [of k ?c s]
    by (simp add: clock_gettime_def linux_clock_def LINUX_CLOCK_MONOTONIC_def split_beta Let_def wrap32_id)
qed

lemma fast_path_loop_returns:
  assumes "clock_runs k" and "dur + ns start < ns (k_time k (os_calls s)) + int n"
  shows "\<exists>s'. fast_path_loop k start dur (Suc n) s = Some (0, s') \<and>
    dur < ns (k_time k (butlast (os_calls s'))) - ns start"
  using assms(2)
proof (induction n arbitrary: s)
  case 0
  obtain s' where "clock_gettime k 3 s = (Some (k_time k (os_calls s)), s')"
    "os_calls s' = os_calls s @ [Ext ''clock_gettime'' [AI 1]]" using clock_gettime_runs [OF assms(1)] by blast
  with 0 show ?case by (simp add: timespec_diff_exact)
next
  case (Suc n)
  obtain s' where s': "clock_gettime k 3 s = (Some (k_time k (os_calls s)), s')"
    "os_calls s' = os_calls s @ [Ext ''clock_gettime'' [AI 1]]" using clock_gettime_runs [OF assms(1)] by blast
  show ?case
  proof (cases "dur < ns (k_time k (os_calls s)) - ns start")
    case True
    with s' show ?thesis by (simp add: timespec_diff_exact)
  next
    case False
    have "ns (k_time k (os_calls s)) + 1 \<le> ns (k_time k (os_calls s'))"
      using assms(1) s'(2) by (simp add: clock_runs_def)
    with Suc.prems have "dur + ns start < ns (k_time k (os_calls s')) + int n" by simp
    from Suc.IH [OF this] False s' show ?thesis
      by (subst fast_path_loop.simps) (simp add: timespec_diff_exact del: fast_path_loop.simps)
  qed
qed



section \<open>The poll set\<close>

definition poll_inv :: "int \<Rightarrow> os \<Rightarrow> bool" where
  "poll_inv n s \<longleftrightarrow> distinct (map fst (os_pollfd s)) \<and> (\<forall>p \<in> set (os_pollfd s). 0 \<le> fst p \<and> fst p < n)"

lemma scan_fd_inv:
  assumes "poll_inv fd s" and "0 \<le> fd"
  shows "poll_inv (fd + 1) (scan_fd k fd s)"
proof -
  have "poll_inv (fd + 1) s'" if "os_pollfd s' = os_pollfd s \<or> os_pollfd s' = os_pollfd s @ [(fd, 0)]" for s'
    using that assms by (fastforce simp: poll_inv_def)
  then show ?thesis by (simp add: scan_fd_def add_pollfd_def split_beta Let_def)
qed

lemma scan_loop_inv:
  "poll_inv fd s \<Longrightarrow> 0 \<le> fd \<Longrightarrow> fd + int n \<le> m \<Longrightarrow> poll_inv m (scan_loop k n fd s)"
proof (induction n arbitrary: fd s)
  case 0
  then show ?case by (auto simp: poll_inv_def)
next
  case (Suc n)
  let ?s = "snd (syscall k (Ext ''fstat'' [AI fd]) s)"
  have inv: "poll_inv fd ?s" using Suc.prems(1) by (simp add: poll_inv_def)
  then have "poll_inv m (scan_loop k n (fd + 1) (scan_fd k fd ?s))"
    using Suc.prems scan_fd_inv by (intro Suc.IH) auto
  moreover have "poll_inv m ?s" using inv Suc.prems by (auto simp: poll_inv_def)
  ultimately show ?case by (simp add: split_beta Let_def)
qed

lemma poll_woken_in: "\<forall>p \<in> set ps. 0 \<le> fst p \<and> fst p < int MAXFD \<Longrightarrow> poll_woken ps s \<noteq> None"
  by (induction ps) (auto simp: os_fd_def)

text \<open>
  The poll set fits.  The scan of the inherited descriptors at program entry records each
  descriptor at most once and only numbers below \<open>MAXFD\<close>, so that \<open>__platform_pollfd\<close> does
  not overflow and a sleep later finds the receiver of every event inside the table.
\<close>

theorem poll_set_fits:
  assumes "libc_start_main k auxv rnd = Some s"
  shows "length (os_pollfd s) \<le> MAXFD \<and> distinct (map fst (os_pollfd s)) \<and>
    poll_woken (map (\<lambda>(fd, _). (fd, ev fd)) (os_pollfd s)) s' \<noteq> None"
proof -
  have inv: "poll_inv (int MAXFD) s"
    using assms unfolding libc_start_main_def
    by (auto simp: bind_eq_Some_conv Let_def intro!: scan_loop_inv) (simp_all add: poll_inv_def os0_def)
  then have "fst ` set (os_pollfd s) \<subseteq> {0 ..< int MAXFD}" by (auto simp: poll_inv_def)
  then have "card (set (map fst (os_pollfd s))) \<le> card {0 ..< int MAXFD}"
    by (intro card_mono) auto
  then have "length (os_pollfd s) \<le> MAXFD"
    using inv distinct_card [of "map fst (os_pollfd s)"] by (simp add: poll_inv_def)
  moreover have "poll_woken (map (\<lambda>(fd, _). (fd, ev fd)) (os_pollfd s)) s' \<noteq> None"
    by (rule poll_woken_in) (use inv in \<open>auto simp: poll_inv_def split_beta\<close>)
  ultimately show ?thesis using inv by (simp add: poll_inv_def)
qed

theorem poll_set_fits_witness:
  "\<exists>s. libc_start_main map_kern [(AT_PAGESZ, 4096), (0, 0)] (\<lambda>_. []) = Some s \<and> length (os_pollfd s) \<le> MAXFD"
proof -
  obtain s where s: "libc_start_main map_kern [(AT_PAGESZ, 4096), (0, 0)] (\<lambda>_. []) = Some s"
    by (simp add: libc_start_main_def AT_PAGESZ_def)
  then show ?thesis using poll_set_fits [OF s, of "\<lambda>_. 0" s] by blast
qed

end
