(* ===== verification/Rumpuser.thy ===== *)
theory Rumpuser
  imports Sched_Props Platform_Linux Malloc
begin

text \<open>
  The hypercall interface that the kernel calls, librumpuser: initialisation, threads, locks and
  the current lwp (rumpuser.c, over the thread library), parameters, memory (rumpuser_mem.c, over
  the allocator), files and block I/O (rumpuser_file.c, over the Linux layer and the descriptor
  table) and random numbers.  A hypercall on the thread library is a transition of its machine; the
  other hypercalls return their result with the new state.
\<close>

section \<open>Threads, locks and clocks\<close>

definition RUMPUSER_VERSION :: int where "RUMPUSER_VERSION = 17"

text \<open>\<open>rumpuser_init\<close>: \<open>None\<close> is \<open>abort\<close>.\<close>

definition rumpuser_init :: "int \<Rightarrow> st option" where
  "rumpuser_init version = (if version \<noteq> RUMPUSER_VERSION then None else Some (ret 0 init_sched))"

definition rumpuser_clock :: "int \<Rightarrow> int option" where
  "rumpuser_clock rclk = (if rclk = 0 then Some CLOCK_REALTIME else if rclk = 1 then Some CLOCK_MONOTONIC else None)"

definition rumpuser_clock_gettime :: "kern \<Rightarrow> int \<Rightarrow> os \<Rightarrow> (int + int \<times> int) \<times> os" where
  "rumpuser_clock_gettime k rclk s =
     (case rumpuser_clock rclk of
        None \<Rightarrow> (Inl (errno_val EINVAL), s)
      | Some clk \<Rightarrow>
          let (t, s) = clock_gettime k clk s
          in (case t of None \<Rightarrow> Inl (os_errno s) | Some t \<Rightarrow> Inr t, s))"

definition rumpuser_clock_sleep :: "int \<Rightarrow> int \<Rightarrow> int \<Rightarrow> st \<Rightarrow> st" where
  "rumpuser_clock_sleep rclk sec nsec s =
     (case rumpuser_clock rclk of
        None \<Rightarrow> ret (errno_val EINVAL) s
      | Some clk \<Rightarrow> clock_sleep clk sec nsec s)"

text \<open>\<open>alloc\<close> and \<open>mapped\<close> as for \<open>create_thread\<close>; the second component is \<open>*tptr\<close> when written.\<close>

definition rumpuser_thread_create :: "nat option \<Rightarrow> bool \<Rightarrow> bool \<Rightarrow> st \<Rightarrow> nat option \<times> st" where
  "rumpuser_thread_create alloc mapped joinable s =
     (let (thr, s) = create_thread alloc mapped 0 False joinable s
      in if thr = 0 then (None, ret (errno_val EINVAL) s) else (Some thr, ret 0 s))"

definition rumpuser_thread_exit :: "st \<Rightarrow> st" where
  "rumpuser_thread_exit s = exit_thread s"

definition rumpuser_thread_join :: "nat \<Rightarrow> st \<Rightarrow> st" where
  "rumpuser_thread_join p s = join_thread p s"

definition rumpuser_thread_self :: "st \<Rightarrow> nat" where
  "rumpuser_thread_self s = get_current s"

definition rumpuser_mutex_init :: "nat \<Rightarrow> 32 word \<Rightarrow> st \<Rightarrow> st" where
  "rumpuser_mutex_init m fl s = ret 0 (mutex_init m fl s)"

definition rumpuser_mutex_enter :: "nat \<Rightarrow> st \<Rightarrow> st" where
  "rumpuser_mutex_enter m s = mutex_enter m s"

definition rumpuser_mutex_enter_nowrap :: "nat \<Rightarrow> st \<Rightarrow> st" where
  "rumpuser_mutex_enter_nowrap m s = mutex_enter_nowrap m s"

definition rumpuser_mutex_tryenter :: "nat \<Rightarrow> st \<Rightarrow> st" where
  "rumpuser_mutex_tryenter m s =
     (case mtxs s m of None \<Rightarrow> fault s | Some mt \<Rightarrow> let (rv, s) = mutex_tryenter mt m s in ret rv s)"

definition rumpuser_mutex_exit :: "nat \<Rightarrow> st \<Rightarrow> st" where
  "rumpuser_mutex_exit m s = mutex_exit m s"

definition rumpuser_mutex_destroy :: "nat \<Rightarrow> st \<Rightarrow> st" where
  "rumpuser_mutex_destroy m s = mutex_destroy m s"

definition rumpuser_rw_init :: "nat \<Rightarrow> st \<Rightarrow> st" where
  "rumpuser_rw_init r s = ret 0 (rw_init r s)"

definition rumpuser_rw_enter :: "int \<Rightarrow> nat \<Rightarrow> st \<Rightarrow> st" where
  "rumpuser_rw_enter lk r s = rw_enter lk r s"

definition rumpuser_rw_tryenter :: "int \<Rightarrow> nat \<Rightarrow> st \<Rightarrow> st" where
  "rumpuser_rw_tryenter lk r s =
     (case rws s r of None \<Rightarrow> fault s | Some rw \<Rightarrow> let (rv, s) = rw_tryenter lk rw r s in ret rv s)"

definition rumpuser_rw_exit :: "nat \<Rightarrow> st \<Rightarrow> st" where
  "rumpuser_rw_exit r s = rw_exit r s"

definition rumpuser_rw_destroy :: "nat \<Rightarrow> st \<Rightarrow> st" where
  "rumpuser_rw_destroy r s = rw_destroy r s"

definition rumpuser_rw_downgrade :: "nat \<Rightarrow> st \<Rightarrow> st" where
  "rumpuser_rw_downgrade r s = rw_downgrade r s"

definition rumpuser_rw_tryupgrade :: "nat \<Rightarrow> st \<Rightarrow> st" where
  "rumpuser_rw_tryupgrade r s = rw_tryupgrade r s"

definition rumpuser_cv_init :: "nat \<Rightarrow> st \<Rightarrow> st" where
  "rumpuser_cv_init c s = ret 0 (cv_init c s)"

definition rumpuser_cv_destroy :: "nat \<Rightarrow> st \<Rightarrow> st" where
  "rumpuser_cv_destroy c s = cv_destroy c s"

definition rumpuser_cv_wait :: "nat \<Rightarrow> nat \<Rightarrow> st \<Rightarrow> st" where
  "rumpuser_cv_wait c m s = cv_wait c m s"

definition rumpuser_cv_wait_nowrap :: "int \<Rightarrow> nat \<Rightarrow> nat \<Rightarrow> st \<Rightarrow> st" where
  "rumpuser_cv_wait_nowrap tm c m s = cv_wait_nowrap tm c m s"

definition rumpuser_cv_timedwait :: "nat \<Rightarrow> nat \<Rightarrow> int \<Rightarrow> int \<Rightarrow> st \<Rightarrow> st" where
  "rumpuser_cv_timedwait c m sec nsec s = cv_timedwait c m sec nsec s"

definition rumpuser_cv_signal :: "nat \<Rightarrow> st \<Rightarrow> st" where
  "rumpuser_cv_signal c s = cv_signal c s"

definition rumpuser_cv_broadcast :: "nat \<Rightarrow> st \<Rightarrow> st" where
  "rumpuser_cv_broadcast c s = cv_broadcast c s"

text \<open>\<open>RUMPUSER_LWP_CREATE\<close>, \<open>DESTROY\<close>, \<open>SET\<close> and \<open>CLEAR\<close> are 0 to 3.\<close>

definition rumpuser_curlwpop :: "int \<Rightarrow> nat \<Rightarrow> st \<Rightarrow> st" where
  "rumpuser_curlwpop op l s =
     (if op = 2 then ret 0 (set_curlwp l s)
      else if op = 3 then (if curlwp s = l then ret 0 (set_curlwp 0 s) else abort_st s)
      else ret 0 s)"

definition rumpuser_curlwp :: "st \<Rightarrow> nat" where
  "rumpuser_curlwp s = curlwp s"

text \<open>The queries: \<open>None\<close> is a use of an object that is not allocated, or nothing written.\<close>

definition rumpuser_mutex_owner :: "nat \<Rightarrow> st \<Rightarrow> nat" where
  "rumpuser_mutex_owner m s = mutex_owner m s"

definition rumpuser_rw_held :: "int \<Rightarrow> nat \<Rightarrow> st \<Rightarrow> bool option" where
  "rumpuser_rw_held lk r s = do { rw \<leftarrow> rws s r; rw_held lk rw s }"

definition rumpuser_cv_has_waiters :: "nat \<Rightarrow> st \<Rightarrow> bool" where
  "rumpuser_cv_has_waiters c s = cv_has_waiters c s"

text \<open>The hypercalls on the thread library, as one type.\<close>

datatype hypercall =
    HClockSleep int int int | HThreadCreate nat bool | HThreadExit | HThreadJoin nat
  | HMutexInit nat "32 word" | HMutexEnter nat | HMutexEnterNowrap nat | HMutexTryenter nat
  | HMutexExit nat | HMutexDestroy nat
  | HRwInit nat | HRwEnter int nat | HRwTryenter int nat | HRwExit nat | HRwDestroy nat
  | HRwDowngrade nat | HRwTryupgrade nat
  | HCvInit nat | HCvDestroy nat | HCvWait nat nat | HCvWaitNowrap nat nat
  | HCvTimedwait nat nat int int | HCvSignal nat | HCvBroadcast nat | HCurlwpop int nat

fun hypercall_run :: "int \<Rightarrow> hypercall \<Rightarrow> st \<Rightarrow> st" where
  "hypercall_run tm (HClockSleep c sec nsec) s = rumpuser_clock_sleep c sec nsec s"
| "hypercall_run tm (HThreadCreate t j) s = snd (rumpuser_thread_create (Some t) True j s)"
| "hypercall_run tm HThreadExit s = rumpuser_thread_exit s"
| "hypercall_run tm (HThreadJoin t) s = rumpuser_thread_join t s"
| "hypercall_run tm (HMutexInit m fl) s = rumpuser_mutex_init m fl s"
| "hypercall_run tm (HMutexEnter m) s = rumpuser_mutex_enter m s"
| "hypercall_run tm (HMutexEnterNowrap m) s = rumpuser_mutex_enter_nowrap m s"
| "hypercall_run tm (HMutexTryenter m) s = rumpuser_mutex_tryenter m s"
| "hypercall_run tm (HMutexExit m) s = rumpuser_mutex_exit m s"
| "hypercall_run tm (HMutexDestroy m) s = rumpuser_mutex_destroy m s"
| "hypercall_run tm (HRwInit r) s = rumpuser_rw_init r s"
| "hypercall_run tm (HRwEnter lk r) s = rumpuser_rw_enter lk r s"
| "hypercall_run tm (HRwTryenter lk r) s = rumpuser_rw_tryenter lk r s"
| "hypercall_run tm (HRwExit r) s = rumpuser_rw_exit r s"
| "hypercall_run tm (HRwDestroy r) s = rumpuser_rw_destroy r s"
| "hypercall_run tm (HRwDowngrade r) s = rumpuser_rw_downgrade r s"
| "hypercall_run tm (HRwTryupgrade r) s = rumpuser_rw_tryupgrade r s"
| "hypercall_run tm (HCvInit c) s = rumpuser_cv_init c s"
| "hypercall_run tm (HCvDestroy c) s = rumpuser_cv_destroy c s"
| "hypercall_run tm (HCvWait c m) s = rumpuser_cv_wait c m s"
| "hypercall_run tm (HCvWaitNowrap c m) s = rumpuser_cv_wait_nowrap tm c m s"
| "hypercall_run tm (HCvTimedwait c m sec nsec) s = rumpuser_cv_timedwait c m sec nsec s"
| "hypercall_run tm (HCvSignal c) s = rumpuser_cv_signal c s"
| "hypercall_run tm (HCvBroadcast c) s = rumpuser_cv_broadcast c s"
| "hypercall_run tm (HCurlwpop op l) s = rumpuser_curlwpop op l s"

section \<open>Parameters and random numbers\<close>

text \<open>\<open>rumpuser_getparam\<close>: the result and the buffer.\<close>

definition rumpuser_getparam :: "string list \<Rightarrow> string \<Rightarrow> string \<Rightarrow> nat \<Rightarrow> (int \<times> string) option" where
  "rumpuser_getparam environ name buf blen =
     do {
       d \<leftarrow> strcmp name (cstring ''_RUMPUSER_NCPU'');
       if d = 0 then do { buf \<leftarrow> strncpy buf (cstring ''1'') blen; Some (0, buf) }
       else do {
         d \<leftarrow> strcmp name (cstring ''_RUMPUSER_HOSTNAME'');
         if d = 0 then do { buf \<leftarrow> strncpy buf (cstring ''rump'') blen; Some (0, buf) }
         else do {
           r \<leftarrow> getenv environ name;
           (case r of
              Inr (Some value) \<Rightarrow>
                do {
                  len \<leftarrow> strlen value;
                  if len + 1 \<le> blen then do { buf \<leftarrow> strncpy buf value blen; Some (0, buf) }
                  else Some (errno_val EINVAL, buf)
                }
            | _ \<Rightarrow> Some (errno_val EINVAL, buf))
         }
       }
     }"

definition random_maxread :: nat where "random_maxread = 32"

text \<open>\<open>rumpuser_getrandom\<close>: the error, or \<open>*retp\<close>.\<close>

definition rumpuser_getrandom :: "kern \<Rightarrow> nat \<Rightarrow> os \<Rightarrow> (int + int) \<times> os" where
  "rumpuser_getrandom k buflen s =
     (let buflen = (if random_maxread < buflen then random_maxread else buflen);
          (rv, _, s) = getrandom k buflen s
      in (if rv = -1 then Inl (os_errno s) else Inr rv, s))"

text \<open>Console output, signals and the error number.\<close>

definition rumpuser_putchar :: "kern \<Rightarrow> os \<Rightarrow> os" where
  "rumpuser_putchar k s = snd (write_fd k 1 1 s)"

definition rumpuser_kill :: "kern \<Rightarrow> int \<Rightarrow> os \<Rightarrow> int \<times> os" where
  "rumpuser_kill k sig s = (0, snd (syscall k (Ext ''kill'' [AI 0, AI sig]) s))"

definition rumpuser_seterrno :: "int \<Rightarrow> os \<Rightarrow> os" where
  "rumpuser_seterrno error s = s\<lparr>os_errno := error\<rparr>"

text \<open>\<open>rumpuser_exit\<close>: \<open>None\<close> is \<open>abort\<close>, otherwise the status for \<open>exit\<close>.\<close>

definition rumpuser_exit :: "int \<Rightarrow> int option" where
  "rumpuser_exit rv = (if rv = -1 then None else Some rv)"

section \<open>Memory\<close>

text \<open>The static page size, the heap, and the mappings made and removed for the kernel.\<close>

record ru_mem =
  rm_pagesize :: nat
  rm_heap :: heap
  rm_mapped :: "(nat \<times> nat) list"

text \<open>\<open>while (alignment > 1) { alignment >>= 1; af++; }\<close>\<close>

function align_log :: "int \<Rightarrow> int \<Rightarrow> int" where
  "align_log alignment af = (if 1 < alignment then align_log (alignment div 2) (af + 1) else af)"
  by auto

termination
  by (relation "measure (\<lambda>(a, _). nat a)") auto

declare align_log.simps [simp del]

text \<open>
  \<open>PS\<close> is the host's page size, \<open>mm\<close> the mapping call of the allocator and \<open>amm\<close> the
  aligned mapping, from the length and the logarithm of the alignment.
\<close>

definition rumpuser_malloc ::
  "nat \<Rightarrow> host_mmap \<Rightarrow> (nat \<Rightarrow> int \<Rightarrow> nat option) \<Rightarrow> nat \<Rightarrow> int \<Rightarrow> ru_mem \<Rightarrow> ((errno + nat) \<times> ru_mem) option" where
  "rumpuser_malloc PS mm amm sz alignment s =
     (let s = s\<lparr>rm_pagesize := (if rm_pagesize s = 0 then PS else rm_pagesize s)\<rparr>
      in if sz < rm_pagesize s then
           let alignment = (if alignment < 8 then 8 else alignment)
           in do {
                (r, h) \<leftarrow> posix_memalign PS mm (nat alignment) sz (rm_heap s);
                Some (r, s\<lparr>rm_heap := h\<rparr>)
              }
         else
           case amm sz (align_log alignment 0) of
             None \<Rightarrow> Some (Inl EINVAL, s)
           | Some p \<Rightarrow> Some (Inr p, s\<lparr>rm_mapped := (p, sz) # rm_mapped s\<rparr>))"

definition rumpuser_free :: "nat \<Rightarrow> nat \<Rightarrow> ru_mem \<Rightarrow> ru_mem option" where
  "rumpuser_free ptr sz s =
     (if sz < rm_pagesize s then do { h \<leftarrow> free ptr (rm_heap s); Some (s\<lparr>rm_heap := h\<rparr>) }
      else Some (s\<lparr>rm_mapped := remove1 (ptr, sz) (rm_mapped s)\<rparr>))"

definition rumpuser_anonmmap :: "(nat \<Rightarrow> int \<Rightarrow> nat option) \<Rightarrow> int \<Rightarrow> nat \<Rightarrow> int \<Rightarrow> ru_mem \<Rightarrow> (int + nat) \<times> ru_mem" where
  "rumpuser_anonmmap amm err sz alignbit s =
     (case amm sz alignbit of
        None \<Rightarrow> (Inl err, s)
      | Some p \<Rightarrow> (Inr p, s\<lparr>rm_mapped := (p, sz) # rm_mapped s\<rparr>))"

definition rumpuser_unmap :: "nat \<Rightarrow> nat \<Rightarrow> ru_mem \<Rightarrow> ru_mem" where
  "rumpuser_unmap addr len s = s\<lparr>rm_mapped := remove1 (addr, len) (rm_mapped s)\<rparr>"

section \<open>Files\<close>

definition file_type :: "32 word \<Rightarrow> int" where
  "file_type mode =
     (let t = mode AND S_IFMT
      in if t = S_IFDIR then 1 else if t = S_IFREG then 2 else if t = S_IFBLK then 3 else 0)"

text \<open>The descriptor that a path names.\<close>

definition path_fd :: "string \<Rightarrow> os \<Rightarrow> (errno + int \<times> fdtable) option" where
  "path_fd path s =
     do {
       fd \<leftarrow> atoi path;
       if fd < 0 \<or> int MAXFD \<le> fd then Some (Inl ENOENT)
       else do {
         e \<leftarrow> os_fd fd s;
         Some (if fd_valid e = 0 then Inl ENOENT else Inr (fd, e))
       }
     }"

definition rumpuser_getfileinfo :: "string \<Rightarrow> os \<Rightarrow> (errno + int \<times> int) option" where
  "rumpuser_getfileinfo path s =
     do {
       r \<leftarrow> path_fd path s;
       Some (case r of Inl e \<Rightarrow> Inl e | Inr (fd, e) \<Rightarrow> Inr (st_size (fd_st e), file_type (st_mode (fd_st e))))
     }"

definition rumpuser_open :: "string \<Rightarrow> os \<Rightarrow> (errno + int) option" where
  "rumpuser_open path s =
     do { r \<leftarrow> path_fd path s; Some (case r of Inl e \<Rightarrow> Inl e | Inr (fd, e) \<Rightarrow> Inr fd) }"

definition rumpuser_close :: "int \<Rightarrow> int" where
  "rumpuser_close fd = 0"

definition RUMPUSER_IOV_NOSEEK :: int where "RUMPUSER_IOV_NOSEEK = -1"

definition io_result :: "int \<times> os \<Rightarrow> (int + int) \<times> os" where
  "io_result r = (let (n, s) = r in (if n = -1 then Inl (os_errno s) else Inr n, s))"

definition rumpuser_iovread :: "kern \<Rightarrow> int \<Rightarrow> int \<Rightarrow> int \<Rightarrow> os \<Rightarrow> ((int + int) \<times> os) option" where
  "rumpuser_iovread k fd iovlen roff s =
     (if roff = RUMPUSER_IOV_NOSEEK then Some (io_result (readv k fd iovlen s))
      else do {
        e \<leftarrow> os_fd fd s;
        Some (if fd_seek e = 0 then io_result (readv k fd iovlen s) else io_result (preadv k fd iovlen roff s))
      })"

definition rumpuser_iovwrite :: "kern \<Rightarrow> int \<Rightarrow> int \<Rightarrow> int \<Rightarrow> os \<Rightarrow> ((int + int) \<times> os) option" where
  "rumpuser_iovwrite k fd iovlen roff s =
     (if roff = RUMPUSER_IOV_NOSEEK then Some (io_result (writev k fd iovlen s))
      else do {
        e \<leftarrow> os_fd fd s;
        Some (if fd_seek e = 0 then io_result (writev k fd iovlen s) else io_result (pwritev k fd iovlen roff s))
      })"

definition rumpuser_syncfd :: "kern \<Rightarrow> int \<Rightarrow> os \<Rightarrow> int \<times> os" where
  "rumpuser_syncfd k fd s = (let (r, s) = fsync k fd s in (if r = -1 then os_errno s else 0, s))"

definition RUMPUSER_BIO_READ :: "32 word" where "RUMPUSER_BIO_READ = 1"
definition RUMPUSER_BIO_WRITE :: "32 word" where "RUMPUSER_BIO_WRITE = 2"
definition RUMPUSER_BIO_SYNC :: "32 word" where "RUMPUSER_BIO_SYNC = 4"

text \<open>The completions that \<open>rumpuser_bio\<close> reports (bytes and error), in order, and the state.\<close>

definition rumpuser_bio :: "kern \<Rightarrow> int \<Rightarrow> 32 word \<Rightarrow> int \<Rightarrow> int \<Rightarrow> os \<Rightarrow> ((int \<times> int) list \<times> os) option" where
  "rumpuser_bio k fd op dlen doff s =
     do {
       e \<leftarrow> os_fd fd s;
       let early = (if fd_valid e = 0 \<or> st_mode (fd_st e) AND S_IFMT \<noteq> S_IFBLK then [(0, errno_val EBADF)] else []);
       (n, s) \<leftarrow> (if has_flag op RUMPUSER_BIO_READ then Some (pread k fd dlen doff s) else pwrite k fd dlen doff s);
       let (n, err) = (if n = -1 then (0, os_errno s) else (n, 0));
       let (n, err, s) =
         (if os_errno s = 0 \<and> has_flag op RUMPUSER_BIO_SYNC then
            let (r, s) = fsync k fd s
            in if r = -1 then (0, os_errno s, s) else (n, err, s)
          else (n, err, s));
       Some (early @ [(n, err)], s)
     }"

end
