(* ===== verification/Rumpuser_Props.thy ===== *)
theory Rumpuser_Props
  imports Rumpuser Fdtable_Props Platform_Props
begin

text \<open>
  Properties of the hypercalls: those on the thread library are calls of it, block I/O and its
  completions, parameters, and memory from the allocator or from mappings.
\<close>

section \<open>Threads and locks\<close>

text \<open>What the kernel guarantees: new objects are at new addresses, and a thread exits from its own code.\<close>

fun hypercall_ok :: "hypercall \<Rightarrow> st \<Rightarrow> bool" where
  "hypercall_ok (HThreadCreate t j) s \<longleftrightarrow> t \<noteq> 0 \<and> threads s t = None"
| "hypercall_ok (HMutexInit m fl) s \<longleftrightarrow> mtxs s m = None"
| "hypercall_ok (HRwInit r) s \<longleftrightarrow> rws s r = None"
| "hypercall_ok (HCvInit c) s \<longleftrightarrow> cvs s c = None"
| "hypercall_ok HThreadExit s \<longleftrightarrow> stk s (current_thread s) = []"
| "hypercall_ok _ s \<longleftrightarrow> True"

lemmas hypercall_defs = rumpuser_clock_sleep_def rumpuser_thread_exit_def rumpuser_thread_join_def
  rumpuser_mutex_init_def rumpuser_mutex_enter_def rumpuser_mutex_enter_nowrap_def
  rumpuser_mutex_exit_def rumpuser_mutex_destroy_def rumpuser_rw_init_def rumpuser_rw_enter_def
  rumpuser_rw_exit_def rumpuser_rw_destroy_def rumpuser_rw_downgrade_def
  rumpuser_rw_tryupgrade_def rumpuser_cv_init_def rumpuser_cv_destroy_def rumpuser_cv_wait_def
  rumpuser_cv_wait_nowrap_def rumpuser_cv_timedwait_def rumpuser_cv_signal_def rumpuser_cv_broadcast_def

text \<open>The call of the thread library behind a hypercall.\<close>

fun lib_of :: "hypercall \<Rightarrow> st \<Rightarrow> lib_call option" where
  "lib_of (HClockSleep c sec nsec) s = map_option (\<lambda>clk. CClockSleep clk sec nsec) (rumpuser_clock c)"
| "lib_of (HThreadCreate t j) s = Some (CCreate t True 0 False j)"
| "lib_of HThreadExit s = Some CExit"
| "lib_of (HThreadJoin t) s = Some (CJoin t)"
| "lib_of (HMutexInit m fl) s = Some (CMutexInit m fl)"
| "lib_of (HMutexEnter m) s = Some (CMutexEnter m)"
| "lib_of (HMutexEnterNowrap m) s = Some (CMutexEnterNowrap m)"
| "lib_of (HMutexTryenter m) s = Some (CMutexTryenter m)"
| "lib_of (HMutexExit m) s = Some (CMutexExit m)"
| "lib_of (HMutexDestroy m) s = Some (CMutexDestroy m)"
| "lib_of (HRwInit r) s = Some (CRwInit r)"
| "lib_of (HRwEnter lk r) s = Some (CRwEnter lk r)"
| "lib_of (HRwTryenter lk r) s = Some (CRwTryenter lk r)"
| "lib_of (HRwExit r) s = Some (CRwExit r)"
| "lib_of (HRwDestroy r) s = Some (CRwDestroy r)"
| "lib_of (HRwDowngrade r) s = Some (CRwDowngrade r)"
| "lib_of (HRwTryupgrade r) s = Some (CRwTryupgrade r)"
| "lib_of (HCvInit c) s = Some (CCvInit c)"
| "lib_of (HCvDestroy c) s = Some (CCvDestroy c)"
| "lib_of (HCvWait c m) s = Some (CCvWait c m)"
| "lib_of (HCvWaitNowrap c m) s = Some (CCvWaitNowrap c m)"
| "lib_of (HCvTimedwait c m sec nsec) s = Some (CCvTimedwait c m sec nsec)"
| "lib_of (HCvSignal c) s = Some (CCvSignal c)"
| "lib_of (HCvBroadcast c) s = Some (CCvBroadcast c)"
| "lib_of (HCurlwpop op l) s =
     (if op = 2 then Some (CSetLwp l) else if op = 3 \<and> curlwp s = l then Some (CSetLwp 0) else None)"

text \<open>The states agree except for the value that the call returns.\<close>

definition same_but_ret :: "st \<Rightarrow> st \<Rightarrow> bool" where
  "same_but_ret s s' \<longleftrightarrow> s' = s \<or> (\<exists>v v' t. s = ret v t \<and> s' = ret v' t)"

text \<open>
  Every hypercall on threads, locks and clocks is one permitted call of the thread library, with
  the same effect on its state apart from the value returned by thread creation; the hypercalls that
  are not (an unknown clock, an lwp operation without effect, a failed assertion) leave the
  library's state alone.
\<close>

theorem hypercall_refines:
  assumes "hypercall_ok c s"
  shows "case lib_of c s of
      Some c' \<Rightarrow> call_ok c' s \<and> same_but_ret (do_call tm c' s) (hypercall_run tm c s)
    | None \<Rightarrow> (\<exists>v. hypercall_run tm c s = ret v s) \<or> hypercall_run tm c s = abort_st s"
proof (cases c)
  case (HClockSleep clk sec nsec)
  then show ?thesis by (auto simp: hypercall_defs same_but_ret_def split: option.split)
next
  case (HThreadCreate t j)
  with assms show ?thesis
    by (auto simp: same_but_ret_def rumpuser_thread_create_def create_thread_def Let_def)
next
  case (HCurlwpop op l)
  then show ?thesis by (auto simp: rumpuser_curlwpop_def same_but_ret_def)
qed (use assms in \<open>auto simp: hypercall_defs same_but_ret_def rumpuser_mutex_tryenter_def
    rumpuser_rw_tryenter_def split_beta split: option.split\<close>)

theorem hypercall_refines_witness:
  "call_ok (CCreate 7 True 0 False True) init_sched \<and>
   same_but_ret (do_call 0 (CCreate 7 True 0 False True) init_sched) (hypercall_run 0 (HThreadCreate 7 True) init_sched)"
  using hypercall_refines [of "HThreadCreate 7 True" init_sched 0] by (simp add: init_sched_def)

section \<open>Block I/O\<close>

text \<open>
  C38: Completions of block I/O.  For a block device of the table \<open>rumpuser_bio\<close> reports exactly
  one completion; for any other entry it reports an error and then goes on, so that the request is
  performed and completed a second time.  A write to a block device that was opened for reading
  reports 9 bytes written and no error, without any system call.
\<close>

theorem bio_completions:
  assumes "os_fd fd s = Some e"
  shows "\<exists>cs s'. rumpuser_bio k fd op dlen doff s = Some (cs, s') \<and>
    length cs = (if fd_valid e \<noteq> 0 \<and> st_mode (fd_st e) AND S_IFMT = S_IFBLK then 1 else 2) \<and>
    (fd_flags e AND O_ACCMODE = O_RDONLY \<and> \<not> has_flag op RUMPUSER_BIO_READ \<and> \<not> has_flag op RUMPUSER_BIO_SYNC \<longrightarrow>
       last cs = (9, 0) \<and> s' = s)"
  using assms by (simp add: rumpuser_bio_def pwrite_def split_beta Let_def)

definition ro_disk :: os where
  "ro_disk = os0\<lparr>os_fdt := (os_fdt os0)[5 := fd0\<lparr>fd_valid := 1, fd_flags := O_RDONLY, fd_st := stat0\<lparr>st_mode := S_IFBLK\<rparr>\<rparr>]\<rparr>"

theorem bio_completions_witness:
  "rumpuser_bio map_kern 5 RUMPUSER_BIO_WRITE 512 0 ro_disk = Some ([(9, 0)], ro_disk)"
proof -
  have e: "os_fd 5 ro_disk = Some (fd0\<lparr>fd_valid := 1, fd_flags := O_RDONLY, fd_st := stat0\<lparr>st_mode := S_IFBLK\<rparr>\<rparr>)"
    by (simp add: os_fd_def ro_disk_def os0_def MAXFD_def)
  have f: "\<not> has_flag RUMPUSER_BIO_WRITE RUMPUSER_BIO_READ" "\<not> has_flag RUMPUSER_BIO_WRITE RUMPUSER_BIO_SYNC"
    by (simp_all add: has_flag_def RUMPUSER_BIO_WRITE_def RUMPUSER_BIO_READ_def RUMPUSER_BIO_SYNC_def)
  obtain cs s' where r: "rumpuser_bio map_kern 5 RUMPUSER_BIO_WRITE 512 0 ro_disk = Some (cs, s')"
    "length cs = 1" "last cs = (9, 0)" "s' = ro_disk"
    using bio_completions [OF e, of map_kern RUMPUSER_BIO_WRITE 512 0] f
    by (auto simp: O_RDONLY_def O_ACCMODE_def S_IFMT_def S_IFBLK_def)
  then show ?thesis by (cases cs) auto
qed

section \<open>Parameters\<close>

text \<open>
  \<open>rumpuser_getparam\<close> answers from the environment: a value that fits with its terminator
  is copied and padded, otherwise the buffer is left alone and the error is \<open>EINVAL\<close>.  The
  processor count and the host name are copied without that check: in a buffer of one byte the
  count is not terminated.
\<close>

theorem getparam_correct:
  assumes "name \<noteq> []" and "nul_free name" and "CHR ''='' \<notin> set name" and "\<forall>e \<in> set es. nul_free e"
    and "blen \<le> length buf" and "name \<noteq> ''_RUMPUSER_HOSTNAME''"
  shows "rumpuser_getparam (map cstring es) (cstring name) buf blen =
    Some (if name = ''_RUMPUSER_NCPU'' then (0, take blen (''1'' @ replicate blen NUL) @ drop blen buf)
      else case env_lookup es name of
        Some v \<Rightarrow> if length v < blen then (0, v @ replicate (blen - length v) NUL @ drop blen buf)
          else (errno_val EINVAL, buf)
      | None \<Rightarrow> (errno_val EINVAL, buf))"
proof -
  obtain d where d: "strcmp (cstring name) (cstring ''_RUMPUSER_NCPU'') = Some d" "d = 0 \<longleftrightarrow> name = ''_RUMPUSER_NCPU''"
    using strcmp_cmp [OF assms(2), of "''_RUMPUSER_NCPU''" "[]" "[]"] by (auto simp: cstring_def)
  obtain d' where d': "strcmp (cstring name) (cstring ''_RUMPUSER_HOSTNAME'') = Some d'" "d' \<noteq> 0"
    using strcmp_cmp [OF assms(2), of "''_RUMPUSER_HOSTNAME''" "[]" "[]"] assms(6) by (auto simp: cstring_def)
  have ncpu: "strncpy buf (cstring ''1'') blen = Some (take blen (''1'' @ replicate blen NUL) @ drop blen buf)"
    using strncpy_cstring [of "''1''" blen buf "[]"] assms(5) by (simp add: cstring_def)
  have val: "strncpy buf (cstring v) blen = Some (v @ replicate (blen - length v) NUL @ drop blen buf)"
    "strlen (cstring v) = Some (length v)"
    if "nul_free v" "length v < blen" for v
    using strncpy_cstring [OF that(1) assms(5), of "[]"] that by (simp_all add: cstring_def)
  have len: "strlen (cstring v) = Some (length v)" if "nul_free v" for v
    using that by (simp add: cstring_def)
  note env = getenv_lookup [OF assms(1-4)]
  show ?thesis
  proof (cases "name = ''_RUMPUSER_NCPU''")
    case True
    with d ncpu show ?thesis by (simp add: rumpuser_getparam_def)
  next
    case ne: False
    show ?thesis
    proof (cases "env_lookup es name")
      case None
      with ne d d' env show ?thesis by (simp add: rumpuser_getparam_def)
    next
      case (Some v)
      then have "nul_free v" using env_lookup_nul_free assms(4) by blast
      with Some ne d d' env val len show ?thesis by (simp add: rumpuser_getparam_def)
    qed
  qed
qed

theorem getparam_correct_witness:
  "rumpuser_getparam [] (cstring ''_RUMPUSER_NCPU'') ''x'' 1 = Some (0, ''1'') \<and>
   rumpuser_getparam (map cstring [''A=bc'']) (cstring ''A'') ''xxxx'' 4 = Some (0, [CHR ''b'', CHR ''c'', NUL, NUL])"
  using getparam_correct [of "''_RUMPUSER_NCPU''" "[]" 1 "''x''"] getparam_correct [of "''A''" "[''A=bc'']" 4 "''xxxx''"]
  by (simp add: nul_free_def numeral_2_eq_2)

section \<open>Memory\<close>

lemma align_log_power: "align_log (2 ^ k) af = af + int k"
proof (induction k arbitrary: af)
  case 0
  then show ?case by (simp add: align_log.simps)
next
  case (Suc k)
  have "(1 :: int) < 2 ^ Suc k" by (rule one_less_power) simp_all
  then show ?case using Suc [of "af + 1"] by (subst align_log.simps) simp
qed

text \<open>
  Memory for the kernel.  A request below the page size is served by the allocator: the heap
  stays well-formed and a result is aligned, of the size asked for, and can be given back with
  \<open>rumpuser_free\<close>.  A larger request becomes one mapping with the logarithm of the alignment,
  which \<open>rumpuser_free\<close> removes; the heap is not touched.
\<close>

theorem rumpuser_malloc_correct:
  assumes "heap_inv pb (rm_heap s) B" and "pb \<le> 26" and "mmap_ok (2 ^ (pb + MINSHIFT)) mm"
    and "rm_pagesize s = 0 \<or> rm_pagesize s = 2 ^ (pb + MINSHIFT)" and "k \<le> 30"
  shows "\<exists>r s'. rumpuser_malloc (2 ^ (pb + MINSHIFT)) mm amm sz (2 ^ k) s = Some (r, s') \<and>
    (sz < 2 ^ (pb + MINSHIFT) \<longrightarrow>
       (\<exists>B'. heap_inv pb (rm_heap s') B' \<and>
          (\<forall>p. r = Inr p \<longrightarrow> usable B' p sz \<and> 2 ^ k dvd p \<and>
             (\<exists>s'' B''. rumpuser_free p sz s' = Some s'' \<and> heap_inv pb (rm_heap s'') B'')))) \<and>
    (\<not> sz < 2 ^ (pb + MINSHIFT) \<longrightarrow>
       r = (case amm sz (int k) of None \<Rightarrow> Inl EINVAL | Some p \<Rightarrow> Inr p) \<and> rm_heap s' = rm_heap s \<and>
       (\<forall>p. r = Inr p \<longrightarrow> (\<exists>s''. rumpuser_free p sz s' = Some s'' \<and> rm_mapped s'' = rm_mapped s \<and> rm_heap s'' = rm_heap s)))"
proof (cases "sz < 2 ^ (pb + MINSHIFT)")
  case True
  define al where "al = nat (if (2 :: int) ^ k < 8 then 8 else 2 ^ k)"
  define j where "j = max k 4"
  have al: "al = (if k < 3 then 8 else 2 ^ k)"
  proof (cases "k < 3")
    case True
    then have "k = 0 \<or> k = 1 \<or> k = 2" by auto
    then show ?thesis by (auto simp: al_def)
  next
    case False
    then have "(2 :: int) ^ 3 \<le> 2 ^ k" by (intro power_increasing) auto
    with False show ?thesis by (simp add: al_def nat_power_eq)
  qed
  have j: "max al 16 = 2 ^ j"
  proof (cases "k < 4")
    case True
    then have "k = 3 \<or> k < 3" by auto
    with True show ?thesis by (auto simp: al j_def)
  next
    case False
    then have "(2 :: nat) ^ 4 \<le> 2 ^ k" by (intro power_increasing) auto
    with False show ?thesis by (simp add: al j_def max_def)
  qed
  have "j \<le> 30" using assms(5) by (simp add: j_def)
  then have "(2 :: nat) ^ j \<le> 2 ^ 30" by (intro power_increasing) simp_all
  moreover have "(2 :: nat) ^ (pb + MINSHIFT) \<le> 2 ^ 31" using assms(2) by (intro power_increasing) (simp_all add: MINSHIFT_def)
  ultimately have nowrap: "sz + max al 16 < 2 ^ 64" using True j by simp
  obtain rv h' where run: "aligned_alloc (2 ^ (pb + MINSHIFT)) mm al sz (rm_heap s) = Some (rv, h')"
    using aligned_alloc_total [OF assms(2)] by blast
  obtain B' where B': "heap_inv pb h' B'" "rv \<noteq> 0 \<longrightarrow> usable B' rv sz \<and> 2 ^ j dvd rv"
    using aligned_alloc_post [OF assms(1-3) j nowrap run] by (auto simp: alloc_post_def)
  let ?s' = "s\<lparr>rm_pagesize := 2 ^ (pb + MINSHIFT), rm_heap := h'\<rparr>"
  have m: "rumpuser_malloc (2 ^ (pb + MINSHIFT)) mm amm sz (2 ^ k) s = Some (if rv = 0 then Inl ENOMEM else Inr rv, ?s')"
    using True assms(4) run by (auto simp: rumpuser_malloc_def posix_memalign_def al_def [symmetric] Let_def)
  have "\<exists>s'' B''. rumpuser_free rv sz ?s' = Some s'' \<and> heap_inv pb (rm_heap s'') B''" if nz: "rv \<noteq> 0"
  proof -
    obtain a b where ab: "B' a = Some (b, Some rv)" using B'(2) nz by (auto simp: usable_def)
    then obtain h'' where "free rv h' = Some h''" using free_eq [OF B'(1)] by blast
    then show ?thesis using True free_post(1) [OF B'(1) ab] by (auto simp: rumpuser_free_def)
  qed
  moreover have "2 ^ k dvd rv" if "rv \<noteq> 0"
  proof -
    have "(2 :: nat) ^ k dvd 2 ^ j" by (simp add: j_def le_imp_power_dvd)
    moreover have "2 ^ j dvd rv" using B'(2) that by blast
    ultimately show ?thesis by (rule dvd_trans)
  qed
  ultimately have "heap_inv pb (rm_heap ?s') B' \<and> (\<forall>p. (if rv = 0 then Inl ENOMEM else Inr rv) = (Inr p :: errno + nat) \<longrightarrow>
      usable B' p sz \<and> 2 ^ k dvd p \<and> (\<exists>s'' B''. rumpuser_free p sz ?s' = Some s'' \<and> heap_inv pb (rm_heap s'') B''))"
    using B' by simp
  with m True show ?thesis by blast
next
  case False
  have "rm_pagesize s = 0 \<or> rm_pagesize s = 2 ^ (pb + MINSHIFT)" by (rule assms(4))
  with False show ?thesis
    using align_log_power [of k 0] by (auto simp: rumpuser_malloc_def rumpuser_free_def Let_def split: option.split)
qed

theorem rumpuser_malloc_correct_witness:
  "\<exists>r s'. rumpuser_malloc 4096 bump_mmap (\<lambda>_ _. None) 100 (2 ^ 6) \<lparr>rm_pagesize = 0, rm_heap = heap0, rm_mapped = []\<rparr> = Some (r, s') \<and>
    (\<exists>B'. heap_inv 7 (rm_heap s') B')"
  using rumpuser_malloc_correct [of 7 "\<lparr>rm_pagesize = 0, rm_heap = heap0, rm_mapped = []\<rparr>" Map.empty bump_mmap 6 "\<lambda>_ _. None" 100]
    heap0_inv bump_mmap_ok by (auto simp: page_4096 MINSHIFT_def)

end
