(* ===== verification/Sp_Wire.thy ===== *)
theory Sp_Wire
  imports Calls Tailq
begin

text \<open>
  The wire format of the system call proxy, librumpuser/sysproxy.c: request headers as bytes,
  reading frames from a stream socket that delivers any number of bytes at a time
  (\<open>readframe\<close>), and sending vectors of buffers to a socket that accepts any number of bytes at
  a time (\<open>dosend\<close>).  Numbers are encoded as on a little-endian host with 64-bit pointers.
\<close>

section \<open>Headers\<close>

text \<open>\<open>struct rsp_hdr\<close>; \<open>rsp_u\<close> is the union.\<close>

record rsp_hdr =
  rsp_len :: nat
  rsp_reqno :: nat
  rsp_class :: nat
  rsp_type :: nat
  rsp_u :: nat

definition HDRSZ :: nat where "HDRSZ = 24"

definition enc_hdr :: "rsp_hdr \<Rightarrow> bytes" where
  "enc_hdr h = enc_le 8 (rsp_len h) @ enc_le 8 (rsp_reqno h) @ enc_le 2 (rsp_class h) @ enc_le 2 (rsp_type h) @ enc_le 4 (rsp_u h)"

definition dec_hdr :: "bytes \<Rightarrow> rsp_hdr" where
  "dec_hdr b =
     \<lparr>rsp_len = dec_le (take 8 b), rsp_reqno = dec_le (take 8 (drop 8 b)), rsp_class = dec_le (take 2 (drop 16 b)),
      rsp_type = dec_le (take 2 (drop 18 b)), rsp_u = dec_le (take 4 (drop 20 b))\<rparr>"

definition hdr_ok :: "rsp_hdr \<Rightarrow> bool" where
  "hdr_ok h \<longleftrightarrow> rsp_len h < 2 ^ 64 \<and> rsp_reqno h < 2 ^ 64 \<and> rsp_class h < 2 ^ 16 \<and> rsp_type h < 2 ^ 16 \<and> rsp_u h < 2 ^ 32"

lemma length_enc_hdr [simp]: "length (enc_hdr h) = HDRSZ"
  by (simp add: enc_hdr_def HDRSZ_def)

lemma dec_enc_hdr:
  assumes "hdr_ok h"
  shows "dec_hdr (enc_hdr h) = h"
  using assms by (cases h) (simp add: dec_hdr_def enc_hdr_def hdr_ok_def dec_enc_le)

lemma dec_hdr_ok: "length b = HDRSZ \<Longrightarrow> hdr_ok (dec_hdr b)"
  using dec_le_bound [of "take 8 b"] dec_le_bound [of "take 8 (drop 8 b)"] dec_le_bound [of "take 2 (drop 16 b)"]
    dec_le_bound [of "take 2 (drop 18 b)"] dec_le_bound [of "take 4 (drop 20 b)"]
  by (simp add: hdr_ok_def dec_hdr_def HDRSZ_def)

section \<open>Reading frames\<close>

text \<open>
  A socket: the bytes that the peer has sent, how many bytes the next reads deliver at most (none:
  \<open>EAGAIN\<close>), whether the peer has closed it, and whether reading fails with another error.
\<close>

record sock =
  sk_in :: bytes
  sk_caps :: "nat list"
  sk_closed :: bool
  sk_fail :: bool

datatype rd = Eof | Again | RdErr | Data bytes

definition host_read :: "nat \<Rightarrow> sock \<Rightarrow> rd \<times> sock" where
  "host_read left sk =
     (let (cap, caps) = (case sk_caps sk of [] \<Rightarrow> (left, []) | c # cs \<Rightarrow> (c, cs));
          sk = sk\<lparr>sk_caps := caps\<rparr>;
          n = min left cap
      in if sk_fail sk then (RdErr, sk)
         else if sk_in sk = [] then (if sk_closed sk then Eof else Again, sk)
         else if n = 0 then (Again, sk)
         else (Data (take n (sk_in sk)), sk\<lparr>sk_in := drop n (sk_in sk)\<rparr>))"

text \<open>The receive state of a client: the header as raw bytes, the body buffer and the offset.\<close>

record rcv =
  spc_hdr :: bytes
  spc_buf :: "bytes option"
  spc_off :: nat

text \<open>Subtraction of two \<open>size_t\<close> values.\<close>

definition size_sub :: "nat \<Rightarrow> nat \<Rightarrow> nat" where
  "size_sub a b = (if b \<le> a then a - b else 2 ^ 64 + a - b)"

text \<open>The part of \<open>readframe\<close> that reads the body.\<close>

definition readframe_body :: "nat \<Rightarrow> rcv \<Rightarrow> sock \<Rightarrow> (int \<times> rcv \<times> sock) option" where
  "readframe_body framelen c sk =
     (let left = size_sub framelen (spc_off c)
      in if left = 0 then Some (1, c, sk)
         else
           case host_read left sk of
             (Eof, sk) \<Rightarrow> Some (-1, c, sk)
           | (Again, sk) \<Rightarrow> Some (0, c, sk)
           | (RdErr, sk) \<Rightarrow> Some (-1, c, sk)
           | (Data bs, sk) \<Rightarrow>
               do {
                 b \<leftarrow> spc_buf c;
                 b \<leftarrow> put_at (spc_off c - HDRSZ) bs b;
                 let c = c\<lparr>spc_buf := Some b, spc_off := spc_off c + length bs\<rparr>;
                 Some (if left - length bs = 0 then 1 else 0, c, sk)
               })"

text \<open>\<open>alloc n\<close>: whether \<open>malloc\<close> has \<open>n\<close> bytes.\<close>

definition readframe :: "(nat \<Rightarrow> bool) \<Rightarrow> rcv \<Rightarrow> sock \<Rightarrow> (int \<times> rcv \<times> sock) option" where
  "readframe alloc c sk =
     (if spc_off c < HDRSZ then
        case host_read (HDRSZ - spc_off c) sk of
          (Eof, sk) \<Rightarrow> Some (-1, c, sk)
        | (Again, sk) \<Rightarrow> Some (0, c, sk)
        | (RdErr, sk) \<Rightarrow> Some (-1, c, sk)
        | (Data bs, sk) \<Rightarrow>
            do {
              hd \<leftarrow> put_at (spc_off c) bs (spc_hdr c);
              let c = c\<lparr>spc_hdr := hd, spc_off := spc_off c + length bs\<rparr>;
              if spc_off c < HDRSZ then Some (0, c, sk)
              else
                let framelen = rsp_len (dec_hdr (spc_hdr c))
                in if framelen < HDRSZ then Some (-1, c, sk)
                   else if framelen = HDRSZ then Some (1, c, sk)
                   else if \<not> alloc (framelen - HDRSZ) then Some (-1, c\<lparr>spc_buf := None\<rparr>, sk)
                   else readframe_body framelen (c\<lparr>spc_buf := Some (replicate (framelen - HDRSZ) 0)\<rparr>) sk
            }
      else readframe_body (rsp_len (dec_hdr (spc_hdr c))) c sk)"

text \<open>The main loop's repeated calls while the frame is incomplete.\<close>

fun read_loop :: "nat \<Rightarrow> (nat \<Rightarrow> bool) \<Rightarrow> rcv \<Rightarrow> sock \<Rightarrow> (int \<times> rcv \<times> sock) option" where
  "read_loop 0 alloc c sk = Some (0, c, sk)"
| "read_loop (Suc n) alloc c sk =
     do {
       (r, c, sk) \<leftarrow> readframe alloc c sk;
       if r = 0 then read_loop n alloc c sk else Some (r, c, sk)
     }"

section \<open>Sending\<close>

text \<open>Answers of \<open>poll\<close> and \<open>sendmsg\<close>: the number of bytes accepted, or an error.\<close>

datatype snd_ev = PollOk | PollErr errno | Sent nat | SendErr errno

text \<open>
  The adjustment of the vector behind \<open>sendmsg\<close>: what is left of \<open>n\<close>, and the vector.  At its end the
  condition of the loop still reads \<open>iov[0].iov_len\<close>, behind the vector; the value has no effect.
\<close>

fun iov_adjust :: "nat \<Rightarrow> bytes list \<Rightarrow> nat \<times> bytes list" where
  "iov_adjust n [] = (n, [])"
| "iov_adjust n (v # vs) = (if length v \<le> n then iov_adjust (n - length v) vs else (n, drop n v # vs))"

text \<open>
  The loop of \<open>dosend\<close>: whether it polls first (\<open>n\<close> is not 0), the vector, the answers to come
  and the bytes sent so far.  The result is the error (0 for none), the bytes sent, and whether the
  temporary lwp was released.  \<open>None\<close>: there is no answer to the next call.
\<close>

fun dosend_loop :: "bool \<Rightarrow> bytes list \<Rightarrow> snd_ev list \<Rightarrow> bytes \<Rightarrow> (int \<times> bytes \<times> bool) option" where
  "dosend_loop True iov (PollOk # evs) out = dosend_loop False iov evs out"
| "dosend_loop True iov (PollErr e # evs) out =
     (if e = EINTR then dosend_loop True iov evs out else Some (errno_val e, out, False))"
| "dosend_loop False iov (SendErr e # evs) out =
     (let error = (if e = EPIPE then errno_val ENOTCONN else 0);
          error = (if e \<noteq> EAGAIN then errno_val e else error)
      in if error \<noteq> 0 then Some (error, out, False) else dosend_loop True iov evs out)"
| "dosend_loop False iov (Sent n # evs) out =
     (if n = 0 then Some (errno_val ENOTCONN, out, False)
      else
        let out = out @ take n (concat iov);
            (n, iov) = iov_adjust n iov
        in if iov = [] then Some (0, out, True) else dosend_loop (n \<noteq> 0) iov evs out)"
| "dosend_loop b iov evs out = None"

definition dosend :: "bytes list \<Rightarrow> snd_ev list \<Rightarrow> (int \<times> bytes \<times> bool) option" where
  "dosend iov evs = dosend_loop False iov evs []"

end
