(* ===== verification/Sp_Wire_Props.thy ===== *)
theory Sp_Wire_Props
  imports Sp_Wire
begin

text \<open>
  Properties of the proxy's wire format: a frame arrives as it was sent however the stream is cut
  into pieces, and \<open>dosend\<close> transmits exactly the bytes of its vector, in order.
\<close>

section \<open>Reading frames\<close>

lemma host_read_avail:
  assumes "sk_in sk \<noteq> []" and "\<not> sk_fail sk"
  obtains n sk' where "n \<le> left" and "sk_in sk' = drop n (sk_in sk)" and "\<not> sk_fail sk'"
    and "n = 0 \<and> host_read left sk = (Again, sk') \<or> 0 < n \<and> host_read left sk = (Data (take n (sk_in sk)), sk')"
    and "0 < left \<Longrightarrow> 0 \<notin> set (sk_caps sk) \<Longrightarrow> 0 < n \<and> 0 \<notin> set (sk_caps sk')"
proof -
  define cap where "cap = (case sk_caps sk of [] \<Rightarrow> left | c # cs \<Rightarrow> c)"
  define sk1 where "sk1 = sk\<lparr>sk_caps := (case sk_caps sk of [] \<Rightarrow> [] | c # cs \<Rightarrow> cs)\<rparr>"
  define n where "n = min left cap"
  have hr: "host_read left sk = (if n = 0 then (Again, sk1) else (Data (take n (sk_in sk)), sk1\<lparr>sk_in := drop n (sk_in sk)\<rparr>))"
    using assms by (cases "sk_caps sk") (simp_all add: host_read_def cap_def sk1_def n_def Let_def, auto)
  have pos: "0 < n \<and> 0 \<notin> set (sk_caps sk1)" if "0 < left" "0 \<notin> set (sk_caps sk)"
    using that by (cases "sk_caps sk") (auto simp: n_def cap_def sk1_def)
  show thesis
  proof (cases "n = 0")
    case True
    with hr pos assms(2) show thesis by (intro that [of 0 sk1]) (auto simp: sk1_def)
  next
    case False
    with hr pos assms(2) show thesis
      by (intro that [of n "sk1\<lparr>sk_in := drop n (sk_in sk)\<rparr>"]) (auto simp: n_def sk1_def)
  qed
qed

text \<open>The receive state when \<open>j\<close> bytes of the frame with header \<open>h\<close> and body \<open>body\<close> have been read.\<close>

definition frame :: "rsp_hdr \<Rightarrow> bytes \<Rightarrow> bytes" where
  "frame h body = enc_hdr h @ body"

definition rcv_at :: "rsp_hdr \<Rightarrow> bytes \<Rightarrow> nat \<Rightarrow> rcv \<Rightarrow> bool" where
  "rcv_at h body j c \<longleftrightarrow> spc_off c = j \<and> length (spc_hdr c) = HDRSZ \<and>
     take j (spc_hdr c) = take j (enc_hdr h) \<and>
     (HDRSZ \<le> j \<and> body \<noteq> [] \<longrightarrow> (\<exists>b. spc_buf c = Some b \<and> length b = length body \<and> take (j - HDRSZ) b = take (j - HDRSZ) body))"

definition frame_left :: "rsp_hdr \<Rightarrow> bytes \<Rightarrow> bytes \<Rightarrow> nat \<Rightarrow> sock \<Rightarrow> bool" where
  "frame_left h body rest j sk \<longleftrightarrow> sk_in sk = drop j (frame h body) @ rest \<and> \<not> sk_fail sk"

text \<open>A frame whose length field is right.\<close>

definition frame_ok :: "rsp_hdr \<Rightarrow> bytes \<Rightarrow> bool" where
  "frame_ok h body \<longleftrightarrow> hdr_ok h \<and> rsp_len h = HDRSZ + length body"

lemma length_frame [simp]: "length (frame h body) = HDRSZ + length body"
  by (simp add: frame_def)

lemma put_at_take:
  assumes "length bs = n" and "j + n \<le> length d" and "take j d = take j e" and "bs = take n (drop j e)" and "length d = length e"
  shows "\<exists>d'. put_at j bs d = Some d' \<and> length d' = length d \<and> take (j + n) d' = take (j + n) e"
proof -
  have "take j d @ bs = take (j + n) e" using assms(3,4) by (simp add: take_add)
  then have "take (j + n) (take j d @ bs @ drop (j + n) d) = take (j + n) e"
    using assms(1,2) by (metis append.assoc append_eq_conv_conj assms(5) length_take min_absorb2 take_append)
  then show ?thesis using assms(1,2) by (simp add: put_at_def)
qed

text \<open>What a call of \<open>readframe\<close> achieves from \<open>j\<close> bytes on.\<close>

definition progress :: "rsp_hdr \<Rightarrow> bytes \<Rightarrow> bytes \<Rightarrow> nat \<Rightarrow> bool \<Rightarrow> int \<times> rcv \<times> sock \<Rightarrow> bool" where
  "progress h body rest j pos r \<longleftrightarrow>
     (case r of (v, c, sk) \<Rightarrow>
        v = 1 \<and> rcv_at h body (HDRSZ + length body) c \<and> frame_left h body rest (HDRSZ + length body) sk \<or>
        v = 0 \<and> (\<exists>j' < HDRSZ + length body. j \<le> j' \<and> rcv_at h body j' c \<and> frame_left h body rest j' sk \<and>
          (pos \<longrightarrow> j < j' \<and> 0 \<notin> set (sk_caps sk))))"

lemma readframe_body_progress:
  assumes c: "rcv_at h body j c" and sk: "frame_left h body rest j sk" and j: "HDRSZ \<le> j" "j < HDRSZ + length body"
    and fl: "frame_ok h body"
  shows "\<exists>r. readframe_body (HDRSZ + length body) c sk = Some r \<and> progress h body rest j (0 \<notin> set (sk_caps sk)) r"
proof -
  define l where "l = HDRSZ + length body - j"
  have lpos: "0 < l" and left: "size_sub (HDRSZ + length body) (spc_off c) = l"
    using c j by (simp_all add: l_def size_sub_def rcv_at_def)
  have ne: "sk_in sk \<noteq> []" "\<not> sk_fail sk" using sk j by (auto simp: frame_left_def)
  obtain b where b: "spc_buf c = Some b" "length b = length body" "take (j - HDRSZ) b = take (j - HDRSZ) body"
    using c j by (auto simp: rcv_at_def)
  obtain n sk' where n: "n \<le> l" "sk_in sk' = drop n (sk_in sk)" "\<not> sk_fail sk'"
    and hr: "n = 0 \<and> host_read l sk = (Again, sk') \<or> 0 < n \<and> host_read l sk = (Data (take n (sk_in sk)), sk')"
    and pos: "0 < l \<Longrightarrow> 0 \<notin> set (sk_caps sk) \<Longrightarrow> 0 < n \<and> 0 \<notin> set (sk_caps sk')"
    using host_read_avail [OF ne] by blast
  have sk': "frame_left h body rest (j + n) sk'"
    using n sk j by (simp add: frame_left_def l_def add.commute)
  show ?thesis
  proof (cases "n = 0")
    case True
    with hr sk' left lpos c j pos show ?thesis
      by (auto simp: readframe_body_def Let_def progress_def intro: exI [of _ j])
  next
    case False
    have bs: "take n (sk_in sk) = take n (drop (j - HDRSZ) body)"
      using n(1) sk j by (simp add: frame_left_def frame_def l_def)
    have lbs: "length (take n (sk_in sk)) = n" using n(1) sk j by (simp add: frame_left_def l_def)
    obtain b' where b': "put_at (j - HDRSZ) (take n (sk_in sk)) b = Some b'" "length b' = length body"
      "take (j - HDRSZ + n) b' = take (j - HDRSZ + n) body"
    proof -
      have "j - HDRSZ + n \<le> length b" using n(1) j b(2) by (simp add: l_def)
      from put_at_take [OF lbs this b(3) bs b(2)] b(2) that show thesis by auto
    qed
    let ?c = "c\<lparr>spc_buf := Some b', spc_off := j + n\<rparr>"
    have "take (j + n) (spc_hdr c) = take (j + n) (enc_hdr h)"
      using c j by (auto simp: rcv_at_def)
    then have c': "rcv_at h body (j + n) ?c"
      using b' c j by (simp add: rcv_at_def add.commute)
    have "readframe_body (HDRSZ + length body) c sk = Some (if l - n = 0 then 1 else 0, ?c, sk')"
      using False hr left lpos b(1) b'(1) lbs c by (simp add: readframe_body_def Let_def rcv_at_def)
    moreover have "progress h body rest j (0 \<notin> set (sk_caps sk)) (if l - n = 0 then 1 else 0, ?c, sk')"
    proof (cases "n = l")
      case True
      then have "j + n = HDRSZ + length body" using j by (simp add: l_def)
      with c' sk' True show ?thesis by (simp add: progress_def)
    next
      case ne: False
      then have "j + n < HDRSZ + length body" using n(1) j by (simp add: l_def)
      with ne n(1) c' sk' False pos lpos show ?thesis
        by (auto simp: progress_def intro!: exI [of _ "j + n"])
    qed
    ultimately show ?thesis by blast
  qed
qed

lemma rcv_at_hdr:
  assumes "rcv_at h body j c" and "HDRSZ \<le> j"
  shows "spc_hdr c = enc_hdr h"
  using assms by (auto simp: rcv_at_def)

lemma readframe_progress:
  assumes c: "rcv_at h body j c" and sk: "frame_left h body rest j sk" and j: "j < HDRSZ + length body"
    and fl: "frame_ok h body" and al: "alloc (length body)"
  shows "\<exists>r. readframe alloc c sk = Some r \<and> progress h body rest j (0 \<notin> set (sk_caps sk)) r"
proof (cases "HDRSZ \<le> j")
  case True
  have "rsp_len (dec_hdr (spc_hdr c)) = HDRSZ + length body"
    using rcv_at_hdr [OF c True] fl dec_enc_hdr by (simp add: frame_ok_def)
  with readframe_body_progress [OF c sk True j fl] True c show ?thesis by (simp add: readframe_def rcv_at_def)
next
  case False
  define l where "l = HDRSZ - j"
  have lpos: "0 < l" and off: "spc_off c = j" using c False by (simp_all add: l_def rcv_at_def)
  have ne: "sk_in sk \<noteq> []" "\<not> sk_fail sk" using sk j by (auto simp: frame_left_def)
  obtain n sk' where n: "n \<le> l" "sk_in sk' = drop n (sk_in sk)" "\<not> sk_fail sk'"
    and hr: "n = 0 \<and> host_read l sk = (Again, sk') \<or> 0 < n \<and> host_read l sk = (Data (take n (sk_in sk)), sk')"
    and pos: "0 < l \<Longrightarrow> 0 \<notin> set (sk_caps sk) \<Longrightarrow> 0 < n \<and> 0 \<notin> set (sk_caps sk')"
    using host_read_avail [OF ne] by blast
  have sk': "frame_left h body rest (j + n) sk'"
    using n sk False by (simp add: frame_left_def l_def add.commute)
  show ?thesis
  proof (cases "n = 0")
    case True
    with hr sk' off False lpos c j pos show ?thesis
      by (auto simp: readframe_def l_def [symmetric] progress_def intro: exI [of _ j])
  next
    case nz: False
    have bs: "take n (sk_in sk) = take n (drop j (enc_hdr h))"
      using n(1) sk False by (simp add: frame_left_def frame_def l_def)
    have lbs: "length (take n (sk_in sk)) = n" using n(1) sk False by (simp add: frame_left_def l_def)
    obtain d where d: "put_at j (take n (sk_in sk)) (spc_hdr c) = Some d" "length d = HDRSZ"
      "take (j + n) d = take (j + n) (enc_hdr h)"
    proof -
      have "j + n \<le> length (spc_hdr c)" using n(1) c False by (simp add: l_def rcv_at_def)
      from put_at_take [OF lbs this _ bs] c that show thesis by (auto simp: rcv_at_def)
    qed
    let ?c = "c\<lparr>spc_hdr := d, spc_off := j + n\<rparr>"
    show ?thesis
    proof (cases "n = l")
      case full: True
      then have jn: "j + n = HDRSZ" using False by (simp add: l_def)
      with d have d': "d = enc_hdr h" by simp
      then have len: "rsp_len (dec_hdr d) = HDRSZ + length body"
        using fl dec_enc_hdr by (simp add: frame_ok_def)
      show ?thesis
      proof (cases "body = []")
        case True
        have "readframe alloc c sk = Some (1, ?c, sk')"
          using nz hr off False d(1) lbs jn len True by (simp add: readframe_def l_def [symmetric] Let_def)
        moreover have "progress h body rest j (0 \<notin> set (sk_caps sk)) (1, ?c, sk')"
          using sk' jn True d d' by (simp add: progress_def rcv_at_def)
        ultimately show ?thesis by blast
      next
        case bne: False
        let ?c' = "?c\<lparr>spc_buf := Some (replicate (length body) 0)\<rparr>"
        have c': "rcv_at h body HDRSZ ?c'" using jn d d' by (simp add: rcv_at_def)
        have "readframe alloc c sk = readframe_body (HDRSZ + length body) ?c' sk'"
          using nz hr off False d(1) lbs jn len bne al by (simp add: readframe_def l_def [symmetric] Let_def)
        moreover obtain r where r: "readframe_body (HDRSZ + length body) ?c' sk' = Some r"
          "progress h body rest HDRSZ (0 \<notin> set (sk_caps sk')) r"
        proof -
          have "frame_left h body rest HDRSZ sk'" "HDRSZ < HDRSZ + length body" using sk' jn bne by simp_all
          from readframe_body_progress [OF c' this(1) order_refl this(2) fl] that show thesis by blast
        qed
        moreover have "progress h body rest j (0 \<notin> set (sk_caps sk)) r"
          using r(2) pos lpos False by (auto simp: progress_def split: prod.splits)
        ultimately show ?thesis by simp
      qed
    next
      case part: False
      then have lt: "j + n < HDRSZ" using n(1) False by (simp add: l_def)
      then have c': "rcv_at h body (j + n) ?c" using d by (simp add: rcv_at_def)
      have "readframe alloc c sk = Some (0, ?c, sk')"
        using nz hr off False d(1) lbs lt by (simp add: readframe_def l_def [symmetric] Let_def)
      moreover have "progress h body rest j (0 \<notin> set (sk_caps sk)) (0, ?c, sk')"
        using c' sk' lt nz pos lpos by (auto simp: progress_def intro!: exI [of _ "j + n"])
      ultimately show ?thesis by blast
    qed
  qed
qed

lemma read_loop_progress:
  assumes "rcv_at h body j c" and "frame_left h body rest j sk" and "j < HDRSZ + length body"
    and "frame_ok h body" and "alloc (length body)"
  shows "\<exists>r. read_loop n alloc c sk = Some r \<and> progress h body rest j False r \<and>
    (0 \<notin> set (sk_caps sk) \<and> HDRSZ + length body \<le> j + n \<longrightarrow> fst r = 1)"
  using assms(1-3)
proof (induction n arbitrary: j c sk)
  case 0
  then show ?case by (auto simp: progress_def)
next
  case (Suc n)
  obtain v c' sk' where r: "readframe alloc c sk = Some (v, c', sk')" "progress h body rest j (0 \<notin> set (sk_caps sk)) (v, c', sk')"
    using readframe_progress [where alloc = alloc, OF Suc.prems assms(4,5)] by (metis prod_cases3)
  show ?case
  proof (cases "v = 0")
    case False
    with r show ?thesis by (auto simp: progress_def)
  next
    case True
    then obtain j' where j': "j' < HDRSZ + length body" "j \<le> j'" "rcv_at h body j' c'" "frame_left h body rest j' sk'"
      "0 \<notin> set (sk_caps sk) \<longrightarrow> j < j' \<and> 0 \<notin> set (sk_caps sk')"
      using r(2) by (auto simp: progress_def)
    from Suc.IH [OF j'(3,4,1)] obtain q where q: "read_loop n alloc c' sk' = Some q" "progress h body rest j' False q"
      "0 \<notin> set (sk_caps sk') \<and> HDRSZ + length body \<le> j' + n \<longrightarrow> fst q = 1" by blast
    have "progress h body rest j False q" using q(2) j'(2) by (auto simp: progress_def split: prod.splits)
    with q r(1) True j'(5) show ?thesis by auto
  qed
qed

text \<open>A client that waits for the next frame.\<close>

definition fresh :: "rcv \<Rightarrow> bool" where
  "fresh c \<longleftrightarrow> spc_off c = 0 \<and> length (spc_hdr c) = HDRSZ"

text \<open>
  C19: Framing.  However the stream is cut into pieces, repeated calls of \<open>readframe\<close> never fail
  on a well-formed frame, and when they report a frame it is the header and the body that were
  sent, with everything behind the frame left in the stream.  If every read delivers at least one
  byte, as many calls as the frame has bytes are enough.
\<close>

theorem readframe_roundtrip:
  assumes "frame_ok h body" and "fresh c" and "sk_in sk = enc_hdr h @ body @ rest" and "\<not> sk_fail sk" and "alloc (length body)"
  shows "\<exists>v c' sk'. read_loop n alloc c sk = Some (v, c', sk') \<and> (v = 0 \<or> v = 1) \<and>
    (v = 1 \<longrightarrow> dec_hdr (spc_hdr c') = h \<and> (body \<noteq> [] \<longrightarrow> spc_buf c' = Some body) \<and>
       spc_off c' = HDRSZ + length body \<and> sk_in sk' = rest) \<and>
    (0 \<notin> set (sk_caps sk) \<and> HDRSZ + length body \<le> n \<longrightarrow> v = 1)"
proof -
  have "rcv_at h body 0 c" "frame_left h body rest 0 sk" "0 < HDRSZ + length body"
    using assms(2-4) by (simp_all add: fresh_def rcv_at_def frame_left_def frame_def HDRSZ_def)
  from read_loop_progress [where alloc = alloc, OF this assms(1,5), of n]
  obtain v c' sk' where r: "read_loop n alloc c sk = Some (v, c', sk')" "progress h body rest 0 False (v, c', sk')"
    "0 \<notin> set (sk_caps sk) \<and> HDRSZ + length body \<le> n \<longrightarrow> v = 1" by auto
  have "dec_hdr (spc_hdr c') = h \<and> (body \<noteq> [] \<longrightarrow> spc_buf c' = Some body) \<and>
      spc_off c' = HDRSZ + length body \<and> sk_in sk' = rest" if "v = 1"
  proof -
    have at: "rcv_at h body (HDRSZ + length body) c'" "frame_left h body rest (HDRSZ + length body) sk'"
      using r(2) that by (auto simp: progress_def)
    then have "spc_hdr c' = enc_hdr h" using rcv_at_hdr by simp
    with at assms(1) dec_enc_hdr show ?thesis by (auto simp: frame_ok_def rcv_at_def frame_left_def)
  qed
  with r show ?thesis by (auto simp: progress_def)
qed

definition hello :: rsp_hdr where
  "hello = \<lparr>rsp_len = 26, rsp_reqno = 1, rsp_class = 0, rsp_type = 0, rsp_u = 0\<rparr>"

theorem readframe_roundtrip_witness:
  "\<exists>c' sk'. read_loop 26 (\<lambda>_. True) \<lparr>spc_hdr = replicate 24 0, spc_buf = None, spc_off = 0\<rparr>
      \<lparr>sk_in = enc_hdr hello @ [104, 105] @ [7], sk_caps = [5, 1, 40], sk_closed = False, sk_fail = False\<rparr> = Some (1, c', sk') \<and>
    dec_hdr (spc_hdr c') = hello \<and> spc_buf c' = Some [104, 105] \<and> sk_in sk' = [7]"
  using readframe_roundtrip [of hello "[104, 105]" "\<lparr>spc_hdr = replicate 24 0, spc_buf = None, spc_off = 0\<rparr>"
      "\<lparr>sk_in = enc_hdr hello @ [104, 105] @ [7], sk_caps = [5, 1, 40], sk_closed = False, sk_fail = False\<rparr>" "[7]" "\<lambda>_. True" 26]
  by (auto simp: frame_ok_def hdr_ok_def hello_def fresh_def HDRSZ_def)

section \<open>Sending\<close>

lemma iov_adjust_concat:
  "iov_adjust n iov = (m, iov') \<Longrightarrow> n \<le> length (concat iov) \<Longrightarrow> concat iov' = drop n (concat iov) \<and> (iov' = [] \<longrightarrow> n = length (concat iov))"
proof (induction n iov rule: iov_adjust.induct)
  case (2 n v vs)
  show ?case
  proof (cases "length v \<le> n")
    case True
    with 2 have "concat iov' = drop (n - length v) (concat vs) \<and> (iov' = [] \<longrightarrow> n - length v = length (concat vs))"
      by simp
    with True show ?thesis by auto
  qed (use 2 in auto)
qed simp

text \<open>Answers that accept no more bytes than offered.\<close>

fun evs_ok :: "nat \<Rightarrow> snd_ev list \<Rightarrow> bool" where
  "evs_ok left [] \<longleftrightarrow> True"
| "evs_ok left (Sent n # evs) \<longleftrightarrow> n \<le> left \<and> evs_ok (left - n) evs"
| "evs_ok left (_ # evs) \<longleftrightarrow> evs_ok left evs"

lemma errno_val_nz [simp]: "errno_val e \<noteq> 0"
  using errno_val_pos [of e] by linarith

text \<open>The outcome of a transmission that starts behind the bytes \<open>out\<close>.\<close>

definition sends :: "bytes \<Rightarrow> bytes \<Rightarrow> int \<Rightarrow> bytes \<Rightarrow> bool \<Rightarrow> bool" where
  "sends out bs error sent released \<longleftrightarrow>
     (\<exists>k. sent = out @ take k bs) \<and> (error = 0 \<longrightarrow> sent = out @ bs) \<and> (released \<longleftrightarrow> error = 0)"

lemma sends_error: "error \<noteq> 0 \<Longrightarrow> sends out bs error out False"
  by (auto simp: sends_def intro: exI [of _ 0])

lemma sends_part:
  assumes "sends (out @ take n bs) (drop n bs) error sent released"
  shows "sends out bs error sent released"
proof -
  obtain k where "sent = (out @ take n bs) @ take k (drop n bs)" using assms by (auto simp: sends_def)
  then have "sent = out @ take (n + k) bs" by (simp add: take_add)
  with assms show ?thesis by (auto simp: sends_def)
qed

lemma dosend_loop_sends:
  "dosend_loop b iov evs out = Some (error, sent, released) \<Longrightarrow> evs_ok (length (concat iov)) evs \<Longrightarrow>
   sends out (concat iov) error sent released"
proof (induction b iov evs out rule: dosend_loop.induct)
  case (2 iov e evs out)
  then show ?case by (cases "e = EINTR") (auto simp: sends_error)
next
  case (3 iov e evs out)
  then show ?case by (cases "e = EAGAIN") (auto simp: sends_error)
next
  case (4 iov n evs out)
  show ?case
  proof (cases "n = 0")
    case True
    with 4 show ?thesis by (auto simp: sends_error)
  next
    case False
    obtain m iov' where a: "iov_adjust n iov = (m, iov')" by (cases "iov_adjust n iov")
    have n: "n \<le> length (concat iov)" using "4.prems"(2) by simp
    note c = iov_adjust_concat [OF a n]
    show ?thesis
    proof (cases "iov' = []")
      case True
      have "error = 0 \<and> sent = out @ take n (concat iov) \<and> released" using "4.prems"(1) False a True by simp
      moreover have "take n (concat iov) = concat iov" using c True by simp
      ultimately show ?thesis unfolding sends_def by metis
    next
      case ne: False
      have ev: "evs_ok (length (concat iov')) evs" using "4.prems"(2) c by simp
      have "dosend_loop (m \<noteq> 0) iov' evs (out @ take n (concat iov)) = Some (error, sent, released)"
        using "4.prems"(1) False a ne by simp
      with "4.IH" [OF False refl a [symmetric] refl ne] ev
      have "sends (out @ take n (concat iov)) (concat iov') error sent released" by simp
      then show ?thesis using c sends_part by metis
    qed
  qed
qed simp_all

text \<open>The answers of a host whose socket accepts at most so many bytes in each call, and whose \<open>poll\<close> succeeds.\<close>

fun peer :: "nat list \<Rightarrow> bool \<Rightarrow> bytes list \<Rightarrow> snd_ev list" where
  "peer [] b iov = []"
| "peer (c # cs) b iov =
     (if b then [PollOk] else []) @ Sent (min c (length (concat iov))) #
     (let (m, iov') = iov_adjust (min c (length (concat iov))) iov in peer cs (m \<noteq> 0) iov')"

lemma iov_adjust_rest: "iov_adjust n iov = (m, v # vs) \<Longrightarrow> v \<noteq> []"
  by (induction n iov rule: iov_adjust.induct) (auto split: if_splits)

lemma dosend_loop_peer:
  assumes "0 \<notin> set caps" and "concat iov \<noteq> []" and "length (concat iov) \<le> length caps"
  shows "dosend_loop b iov (peer caps b iov) out = Some (0, out @ concat iov, True)"
  using assms
proof (induction caps arbitrary: b iov out)
  case (Cons c cs)
  define n where "n = min c (length (concat iov))"
  obtain m iov' where a: "iov_adjust n iov = (m, iov')" by (cases "iov_adjust n iov")
  have "n \<le> length (concat iov)" by (simp add: n_def)
  note c = iov_adjust_concat [OF a this]
  have n: "n \<noteq> 0" using Cons.prems by (auto simp: n_def)
  have skip: "dosend_loop b iov ((if b then [PollOk] else []) @ evs) out = dosend_loop False iov evs out" for evs
    by (cases b) simp_all
  show ?case
  proof (cases iov')
    case Nil
    with c have "n = length (concat iov)" by blast
    then have "take n (concat iov) = concat iov" by simp
    then show ?thesis using a n Nil by (simp add: skip n_def [symmetric])
  next
    case (Cons v vs)
    then have ne: "concat iov' \<noteq> []" using a iov_adjust_rest by auto
    have "length (concat iov') \<le> length cs" using c n Cons.prems(3) by simp
    from Cons.IH [OF _ ne this, of "m \<noteq> 0" "out @ take n (concat iov)"] Cons.prems(1)
    have "dosend_loop (m \<noteq> 0) iov' (peer cs (m \<noteq> 0) iov') (out @ take n (concat iov)) =
        Some (0, (out @ take n (concat iov)) @ concat iov', True)" by simp
    moreover have "take n (concat iov) @ concat iov' = concat iov" using c by simp
    ultimately show ?thesis using a n Cons by (simp add: skip n_def [symmetric])
  qed
qed simp

text \<open>
  C21: \<open>dosend\<close> transmits its vector.  With any answers of the host the bytes sent are a prefix of
  the vector, in order and without gaps; a result of 0 means that all of it was sent, and exactly
  then the temporary lwp is released.  When the socket accepts at least one byte per call,
  \<open>dosend\<close> returns 0 within as many calls as there are bytes.
\<close>

theorem dosend_delivers:
  "(\<forall>error sent released. dosend iov evs = Some (error, sent, released) \<and> evs_ok (length (concat iov)) evs \<longrightarrow>
      (\<exists>k. sent = take k (concat iov)) \<and> (error = 0 \<longrightarrow> sent = concat iov) \<and> (released \<longleftrightarrow> error = 0)) \<and>
   (0 \<notin> set caps \<and> concat iov \<noteq> [] \<and> length (concat iov) \<le> length caps \<longrightarrow>
      dosend iov (peer caps False iov) = Some (0, concat iov, True))"
proof (intro conjI allI impI)
  fix error sent released
  assume "dosend iov evs = Some (error, sent, released) \<and> evs_ok (length (concat iov)) evs"
  then have "sends [] (concat iov) error sent released"
    unfolding dosend_def by (blast intro: dosend_loop_sends)
  then show "\<exists>k. sent = take k (concat iov)" "error = 0 \<Longrightarrow> sent = concat iov" "released \<longleftrightarrow> error = 0"
    by (auto simp: sends_def)
next
  assume "0 \<notin> set caps \<and> concat iov \<noteq> [] \<and> length (concat iov) \<le> length caps"
  then show "dosend iov (peer caps False iov) = Some (0, concat iov, True)"
    using dosend_loop_peer [of caps iov False "[]"] by (simp add: dosend_def)
qed

theorem dosend_delivers_witness:
  "dosend [[1, 2, 3], [4]] (peer [2, 1, 5, 1] False [[1, 2, 3], [4]]) = Some (0, [1, 2, 3, 4], True) \<and>
   dosend [[1, 2, 3], [4]] [Sent 2, PollOk, SendErr EPIPE] = Some (errno_val EPIPE, [1, 2], False)"
proof -
  have e: "dosend [[1, 2, 3], [4]] [Sent 2, PollOk, SendErr EPIPE] = Some (32, [1, 2], False)"
    by (simp add: dosend_def numeral_2_eq_2)
  show ?thesis
    using dosend_delivers [of "[[1, 2, 3], [4]]" "[Sent 2, PollOk, SendErr EPIPE]" "[2, 1, 5, 1]"] e by simp
qed

end
