(* ===== verification/Sp_Url.thy ===== *)
theory Sp_Url
  imports Calls
begin

text \<open>
  The locators of the system call proxy, librumpuser/sysproxy.c: \<open>parseurl\<close> splits
  \<open>scheme://address\<close> and gives the address to the parser of the scheme.  Buffers on the stack
  have their size in C, with any initial contents, and a write past one is \<open>None\<close>.  The address
  conversion \<open>inet_pton\<close>, the working directory and the allocator are parameters.
\<close>

section \<open>Strings\<close>

fun starts :: "string \<Rightarrow> string \<Rightarrow> bool option" where
  "starts s [] = None"
| "starts [] (b # t) = (if b = NUL then Some True else None)"
| "starts (a # s) (b # t) = (if b = NUL then Some True else if a \<noteq> b then Some False else starts s t)"

fun strstr :: "string \<Rightarrow> string \<Rightarrow> string option option" where
  "strstr [] t = None"
| "strstr (c # s) t =
     do { b \<leftarrow> starts (c # s) t;
          if b then Some (Some (c # s)) else if c = NUL then Some None else strstr s t }"

fun strspn :: "string \<Rightarrow> string \<Rightarrow> nat option" where
  "strspn [] acc = None"
| "strspn (c # s) acc = (if c \<noteq> NUL \<and> c \<in> set acc then map_option Suc (strspn s acc) else Some 0)"

fun strcat :: "string \<Rightarrow> string \<Rightarrow> string option" where
  "strcat [] s = None"
| "strcat (x # d) s = (if x = NUL then strcpy (x # d) s else map_option ((#) x) (strcat d s))"

text \<open>\<open>buf[l] = c\<close>.\<close>

definition poke :: "string \<Rightarrow> nat \<Rightarrow> char \<Rightarrow> string option" where
  "poke buf l c = (if l < length buf then Some (buf[l := c]) else None)"

section \<open>Addresses\<close>

text \<open>\<open>struct sockaddr_in\<close> with the port in network byte order, and \<open>struct sockaddr_un\<close>.\<close>

datatype sockaddr = SockIn nat nat | SockUn string

text \<open>
  What the parsers take from their surroundings: the contents of stack buffers, the result and
  address of \<open>inet_pton\<close>, the working directory, the allocator, \<open>errno\<close> after a failure.
\<close>

record url_host =
  stack_buf :: "nat \<Rightarrow> string"
  inet_pton :: "string \<Rightarrow> int \<times> nat"
  getcwd :: "nat \<Rightarrow> string option"
  malloc_ok :: "nat \<Rightarrow> bool"
  host_errno :: int

definition INADDR_ANY :: nat where "INADDR_ANY = 0"

definition SUN_PATH :: nat where "SUN_PATH = 108"

definition PATH_MAX :: nat where "PATH_MAX = 4096"

definition htons :: "nat \<Rightarrow> nat" where
  "htons p = (p mod 256) * 256 + p div 256 mod 256"

definition tcp_address :: "url_host \<Rightarrow> string \<Rightarrow> (int + nat) option" where
  "tcp_address H buf =
     do { a \<leftarrow> strcmp buf (cstring ''*'');
          b \<leftarrow> strcmp buf (cstring ''0'');
          if a = 0 \<or> b = 0 then Some (Inr INADDR_ANY)
          else
            (let (r, addr) = inet_pton H (cstr buf) in
             if r = 1 then Some (Inr addr)
             else if r = 0 then Some (Inl (errno_val EINVAL))
             else if r = - 1 then Some (Inl (host_errno H))
             else None) }"

definition tcp_port :: "string \<Rightarrow> string \<Rightarrow> (int + nat) option" where
  "tcp_port buf p =
     do { l \<leftarrow> strspn p ''0123456789'';
          if l = 0 then Some (Inl (errno_val EINVAL))
          else
            do { buf \<leftarrow> strncpy buf p l;
                 buf \<leftarrow> poke buf l NUL;
                 if p ! l \<noteq> CHR ''/'' \<and> p ! l \<noteq> NUL then Some (Inl (errno_val EINVAL))
                 else
                   do { port \<leftarrow> atoi buf;
                        if port < 0 \<or> port \<ge> 65536 then Some (Inl (errno_val ERANGE))
                        else Some (Inr (htons (nat port))) } } }"

text \<open>The error and the address that the parser allocated, if any.\<close>

definition tcp_parse :: "url_host \<Rightarrow> string \<Rightarrow> bool \<Rightarrow> (int \<times> sockaddr option) option" where
  "tcp_parse H addr allow_wildcard =
     do { p \<leftarrow> strchr addr (CHR '':'');
          case p of
            None \<Rightarrow> Some (errno_val EINVAL, None)
          | Some p \<Rightarrow>
              (let l = length addr - length p in
               if l > 64 - 1 then Some (errno_val EINVAL, None)
               else
                 do { buf \<leftarrow> strncpy (stack_buf H 64) addr l;
                      buf \<leftarrow> poke buf l NUL;
                      r \<leftarrow> tcp_address H buf;
                      case r of
                        Inl e \<Rightarrow> Some (e, None)
                      | Inr s_addr \<Rightarrow>
                          if \<not> allow_wildcard \<and> s_addr = INADDR_ANY then Some (errno_val EINVAL, None)
                          else
                            do { r \<leftarrow> tcp_port buf (tl p);
                                 case r of
                                   Inl e \<Rightarrow> Some (e, None)
                                 | Inr sin_port \<Rightarrow>
                                     Some (if malloc_ok H 16 then (0, Some (SockIn s_addr sin_port))
                                           else (host_errno H, None)) } }) }"

section \<open>Unix sockets\<close>

text \<open>
  \<open>unix_parse\<close> also keeps the locator with the absolute path in the global \<open>parsedurl\<close>,
  an array of 256 characters (its contents up to the terminator here).
\<close>

definition unix_parse :: "url_host \<Rightarrow> string \<Rightarrow> string \<Rightarrow> (int \<times> sockaddr option \<times> string) option" where
  "unix_parse H parsedurl addr =
     do { n \<leftarrow> strlen addr;
          if n \<ge> SUN_PATH then Some (errno_val ENAMETOOLONG, None, parsedurl)
          else
            do { first \<leftarrow> (if addr ! 0 \<noteq> CHR ''/'' then
                    (case getcwd H PATH_MAX of
                       None \<Rightarrow> Some (Inr (replicate SUN_PATH NUL, False))
                     | Some mywd \<Rightarrow>
                         if n + length mywd + 1 \<ge> SUN_PATH then Some (Inl (errno_val ENAMETOOLONG))
                         else do { path \<leftarrow> strcpy (replicate SUN_PATH NUL) (cstring mywd);
                                   path \<leftarrow> strcat path (cstring ''/'');
                                   Some (Inr (path, True)) })
                  else Some (Inr (replicate SUN_PATH NUL, False)));
                 case first of
                   Inl e \<Rightarrow> Some (e, None, parsedurl)
                 | Inr (path, savepath) \<Rightarrow>
                     do { path \<leftarrow> strcat path addr;
                          let parsedurl' =
                            (if savepath \<and> parsedurl = [] then take 255 (''unix://'' @ cstr path) else parsedurl);
                          Some (if malloc_ok H 110 then (0, Some (SockUn (cstr path)), parsedurl')
                                else (host_errno H, None, parsedurl')) } } }"

text \<open>The path that \<open>unix_cleanup\<close> unlinks.\<close>

fun unix_cleanup :: "sockaddr \<Rightarrow> string option" where
  "unix_cleanup (SockUn path) = (if take 1 path = ''/'' then Some path else None)"
| "unix_cleanup (SockIn a p) = None"

section \<open>Locators\<close>

datatype parser = Tcp | Unix | Notsupp

text \<open>The schemes with their address family, address length and parser.\<close>

definition parsetab :: "(string \<times> nat \<times> nat \<times> parser) list" where
  "parsetab = [(''tcp'', 2, 16, Tcp), (''unix'', 1, 110, Unix), (''tcp6'', 10, 28, Notsupp)]"

definition call_parser :: "url_host \<Rightarrow> string \<Rightarrow> parser \<Rightarrow> string \<Rightarrow> bool \<Rightarrow> (int \<times> sockaddr option \<times> string) option" where
  "call_parser H parsedurl ap addr w =
     (case ap of
        Tcp \<Rightarrow> map_option (\<lambda>(e, sa). (e, sa, parsedurl)) (tcp_parse H addr w)
      | Unix \<Rightarrow> unix_parse H parsedurl addr
      | Notsupp \<Rightarrow> Some (errno_val EOPNOTSUPP, None, parsedurl))"

text \<open>The loop over the table; the index of the scheme is part of the result.\<close>

fun scheme_loop ::
  "url_host \<Rightarrow> string \<Rightarrow> string \<Rightarrow> string \<Rightarrow> bool \<Rightarrow> nat \<Rightarrow> (string \<times> nat \<times> nat \<times> parser) list
   \<Rightarrow> (int \<times> sockaddr option \<times> nat option \<times> string) option" where
  "scheme_loop H parsedurl ident addr w i [] = Some (errno_val EINVAL, None, None, parsedurl)"
| "scheme_loop H parsedurl ident addr w i ((name, family, slen, ap) # tab) =
     do { c \<leftarrow> strcmp ident (cstring name);
          if c = 0 then
            do { (e, sa, pu) \<leftarrow> call_parser H parsedurl ap addr w;
                 Some (e, sa, if e \<noteq> 0 then None else Some i, pu) }
          else scheme_loop H parsedurl ident addr w (Suc i) tab }"

definition parseurl :: "url_host \<Rightarrow> string \<Rightarrow> string \<Rightarrow> bool \<Rightarrow> (int \<times> sockaddr option \<times> nat option \<times> string) option" where
  "parseurl H parsedurl url allow_wildcard =
     do { p2 \<leftarrow> strstr url (cstring ''://'');
          case p2 of
            None \<Rightarrow> Some (errno_val EINVAL, None, None, parsedurl)
          | Some p2 \<Rightarrow>
              (let l = length url - length p2 in
               if l > 16 - 1 then Some (errno_val EINVAL, None, None, parsedurl)
               else
                 do { ident \<leftarrow> strncpy (stack_buf H 16) url l;
                      ident \<leftarrow> poke ident l NUL;
                      scheme_loop H parsedurl ident (drop 3 p2) allow_wildcard 0 parsetab }) }"

end
