(* ===== verification/Sp_Url_Props.thy ===== *)
theory Sp_Url_Props
  imports Sp_Url
begin

text \<open>
  Locators of the system call proxy: what \<open>parseurl\<close> returns for the locators of its schemes,
  and what becomes of a port number that does not fit the buffer of \<open>tcp_parse\<close>.
\<close>

section \<open>String functions on terminated strings\<close>

lemma strchr_at: "nul_free s \<Longrightarrow> c \<notin> set s \<Longrightarrow> c \<noteq> NUL \<Longrightarrow> strchr (s @ c # r) c = Some (Some (c # r))"
  by (induction s) auto

lemma strncpy_exact: "nul_free s \<Longrightarrow> length s \<le> length buf \<Longrightarrow> strncpy buf (s @ r) (length s) = Some (s @ drop (length s) buf)"
proof (induction s arbitrary: buf)
  case (Cons c s)
  then show ?case by (cases buf) auto
qed simp

lemma poke_end: "length s < length buf \<Longrightarrow> poke (s @ drop (length s) buf) (length s) NUL = Some (s @ NUL # drop (Suc (length s)) buf)"
  by (simp add: poke_def list_update_append Cons_nth_drop_Suc [symmetric])

lemma strcmp_eq:
  assumes "nul_free s" and "nul_free t"
  obtains d where "strcmp (s @ NUL # r) (cstring t) = Some d" and "d = 0 \<longleftrightarrow> s = t"
  using strcmp_cmp [OF assms, of r "[]"] by (auto simp: cstring_def)

lemma isdigit_set: "isdigit c \<longleftrightarrow> c \<in> set ''0123456789''"
proof
  define n where "n = (of_char c :: nat)"
  have c: "c = char_of n" by (simp add: n_def)
  assume "isdigit c"
  moreover have "uchar c = int n" by (simp only: n_def of_nat_of_char)
  ultimately have "48 \<le> n \<and> n \<le> 57" by (simp add: isdigit_def)
  then have "n = 48 \<or> n = 49 \<or> n = 50 \<or> n = 51 \<or> n = 52 \<or> n = 53 \<or> n = 54 \<or> n = 55 \<or> n = 56 \<or> n = 57" by presburger
  then show "c \<in> set ''0123456789''" unfolding c by (elim disjE) (simp_all add: char_of_def bit_0)
qed (auto simp: isdigit_def)

lemma strspn_digits:
  "\<forall>c \<in> set ds. isdigit c \<Longrightarrow> \<not> isdigit c \<Longrightarrow> strspn (ds @ c # r) ''0123456789'' = Some (length ds)"
proof (induction ds)
  case Nil
  then have "c \<notin> set ''0123456789''" by (simp only: isdigit_set) simp
  then show ?case by (simp only: append_Nil strspn.simps simp_thms if_False list.size)
next
  case (Cons d ds)
  then have d: "isdigit d" by simp
  then have "d \<noteq> NUL" by (auto simp: isdigit_def)
  moreover have "d \<in> set ''0123456789''" using d by (simp only: isdigit_set)
  moreover have "strspn (ds @ c # r) ''0123456789'' = Some (length ds)" using Cons by simp
  ultimately show ?case by (simp only: append_Cons strspn.simps simp_thms if_True option.map list.size) simp
qed

lemma digits_nul_free: "\<forall>c \<in> set ds. isdigit c \<Longrightarrow> nul_free ds"
  by (auto simp: nul_free_def isdigit_def)

lemma starts_append: "nul_free t \<Longrightarrow> starts (t @ c # r) (cstring t) = Some True"
  by (induction t) (auto simp: cstring_def)

lemma strstr_scheme:
  "nul_free s \<Longrightarrow> CHR '':'' \<notin> set s \<Longrightarrow> strstr (s @ ''://'' @ c # r) (cstring ''://'') = Some (Some (''://'' @ c # r))"
proof (induction s)
  case Nil
  then show ?case by (simp add: cstring_def)
next
  case (Cons a s)
  then have "starts (a # s @ ''://'' @ c # r) (cstring ''://'') = Some False" by (auto simp: cstring_def)
  with Cons show ?case by simp
qed

section \<open>Addresses\<close>

text \<open>A host in the state the parsers need: its buffers have their sizes.\<close>

definition host_ok :: "url_host \<Rightarrow> bool" where
  "host_ok H \<longleftrightarrow> length (stack_buf H 16) = 16 \<and> length (stack_buf H 64) = 64"

text \<open>The address that a host part stands for.\<close>

definition resolves :: "url_host \<Rightarrow> string \<Rightarrow> nat \<Rightarrow> bool" where
  "resolves H s a \<longleftrightarrow> (if s = ''*'' \<or> s = ''0'' then a = INADDR_ANY else inet_pton H s = (1, a))"

lemma tcp_address_resolves:
  assumes "nul_free s" and "resolves H s a"
  shows "tcp_address H (s @ NUL # r) = Some (Inr a)"
proof -
  obtain d where d: "strcmp (s @ NUL # r) (cstring ''*'') = Some d" "d = 0 \<longleftrightarrow> s = ''*''"
    using strcmp_eq [of s "''*''" r] assms(1) by auto
  obtain e where e: "strcmp (s @ NUL # r) (cstring ''0'') = Some e" "e = 0 \<longleftrightarrow> s = ''0''"
    using strcmp_eq [of s "''0''" r] assms(1) by auto
  have "cstr (s @ NUL # r) = s" using cstr_cstring [OF assms(1), of r] by (simp add: cstring_def)
  with d e assms(2) show ?thesis by (auto simp: tcp_address_def resolves_def)
qed

text \<open>\<open>atoi\<close> of any number: the value wraps around.\<close>

lemma wrap32_step: "wrap32 (wrap32 (wrap32 q * 10) + d) = wrap32 (q * 10 + d)"
proof -
  have "take_bit 32 (wrap32 x) = take_bit 32 x" for x by (simp add: wrap32_def take_bit_signed_take_bit)
  then have w: "wrap32 x mod 2 ^ 32 = x mod 2 ^ 32" for x by (simp only: take_bit_eq_mod)
  have "(wrap32 (wrap32 q * 10) + d) mod 2 ^ 32 = (q * 10 + d) mod 2 ^ 32"
    by (rule mod_add_cong [OF trans [OF w mod_mult_cong [OF w refl]] refl])
  then show ?thesis by (simp add: wrap32_def signed_take_bit_eq_iff_take_bit_eq take_bit_eq_mod)
qed

lemma atoi_fold_wrap: "fold (atoi_step 1) (dec_nat n) 0 = wrap32 (int n)"
proof (induction n rule: dec_nat.induct)
  case (1 n)
  show ?case
  proof (cases "n < 10")
    case True
    then show ?thesis by (subst dec_nat.simps) (simp add: atoi_step_def wrap32_id)
  next
    case False
    have dm: "int (n div 10) * 10 + int (n mod 10) = int n" by presburger
    have "atoi_step 1 (dec_digit (n mod 10)) (wrap32 (int (n div 10))) = wrap32 (int n)"
      using wrap32_step [of "int (n div 10)" "int (n mod 10)"] unfolding dm by (simp add: atoi_step_def)
    then show ?thesis using False 1 [OF False] by (subst dec_nat.simps) simp
  qed
qed

lemma atoi_dec_nat_wrap:
  assumes "\<not> isdigit c"
  shows "atoi (dec_nat n @ c # r) = Some (wrap32 (int n))"
proof -
  obtain d ds where d: "dec_nat n = d # ds" by (cases "dec_nat n") auto
  with dec_nat_digits have "isdigit d" by (metis list.set_intros(1))
  note nd = isdigit_not_space [OF this]
  have "atoi_digits 1 0 (dec_nat n @ c # r) = Some (wrap32 (int n))"
    using assms atoi_fold_wrap by (subst atoi_digits_append) (auto intro: dec_nat_digits [rule_format])
  with d nd show ?thesis by (simp add: atoi_def)
qed

lemma tcp_port_dec:
  assumes "length (dec_nat port) < length buf" and "c = CHR ''/'' \<or> c = NUL"
  shows "tcp_port buf (dec_nat port @ c # r) =
    Some (let v = wrap32 (int port) in if 0 \<le> v \<and> v < 65536 then Inr (htons (nat v)) else Inl (errno_val ERANGE))"
proof -
  have nd: "\<not> isdigit c" "\<not> isdigit NUL" using assms(2) by (auto simp: isdigit_def)
  note nf = digits_nul_free [OF dec_nat_digits]
  have "strncpy buf (dec_nat port @ c # r) (length (dec_nat port)) = Some (dec_nat port @ drop (length (dec_nat port)) buf)"
    using assms(1) by (intro strncpy_exact [OF nf]) simp
  then show ?thesis
    using assms strspn_digits [OF dec_nat_digits nd(1)] poke_end [OF assms(1)]
    by (auto simp: tcp_port_def nth_append atoi_dec_nat_wrap [OF nd(2)] Let_def)
qed

lemma tcp_port_overflow:
  assumes "\<forall>c \<in> set ds. isdigit c" and "\<not> isdigit c" and "length buf \<le> length ds" and "0 < length buf"
  shows "tcp_port buf (ds @ c # r) = None"
proof -
  have "(strncpy buf (ds @ c # r) (length ds) \<bind> (\<lambda>b. poke b (length ds) NUL)) = None"
  proof (cases "length buf = length ds")
    case True
    then show ?thesis using strncpy_exact [OF digits_nul_free [OF assms(1)], of buf "c # r"] by (simp add: poke_def)
  next
    case False
    then show ?thesis using assms(3) strncpy_overflow [of buf "length ds"] by simp
  qed
  then show ?thesis using assms(3,4) strspn_digits [OF assms(1,2)]
    by (auto simp: tcp_port_def Option.bind_eq_None_conv split: if_splits)
qed

text \<open>Everything up to the port.\<close>

lemma tcp_parse_host:
  assumes "host_ok H" and "nul_free s" and "CHR '':'' \<notin> set s" and "length s \<le> 63" and "resolves H s a" and "w \<or> a \<noteq> 0"
  shows "\<exists>buf. length buf = 64 \<and> tcp_parse H (s @ CHR '':'' # p) w =
    (case tcp_port buf p of
       None \<Rightarrow> None
     | Some (Inl e) \<Rightarrow> Some (e, None)
     | Some (Inr q) \<Rightarrow> Some (if malloc_ok H 16 then (0, Some (SockIn a q)) else (host_errno H, None)))"
proof (intro exI conjI)
  let ?buf = "s @ NUL # drop (Suc (length s)) (stack_buf H 64)"
  have l: "length (stack_buf H 64) = 64" using assms(1) by (simp add: host_ok_def)
  show "length ?buf = 64" using l assms(4) by simp
  have "strncpy (stack_buf H 64) (s @ CHR '':'' # p) (length s) = Some (s @ drop (length s) (stack_buf H 64))"
    using strncpy_exact [OF assms(2)] l assms(4) by simp
  moreover have "poke (s @ drop (length s) (stack_buf H 64)) (length s) NUL = Some ?buf"
    using poke_end l assms(4) by simp
  ultimately show "tcp_parse H (s @ CHR '':'' # p) w =
    (case tcp_port ?buf p of
       None \<Rightarrow> None
     | Some (Inl e) \<Rightarrow> Some (e, None)
     | Some (Inr q) \<Rightarrow> Some (if malloc_ok H 16 then (0, Some (SockIn a q)) else (host_errno H, None)))"
    using strchr_at [OF assms(2,3)] tcp_address_resolves [OF assms(2,5)] assms(4,6)
    by (auto simp: tcp_parse_def Let_def INADDR_ANY_def split: option.splits sum.splits)
qed

section \<open>Paths\<close>

lemma strcat_zeros:
  assumes "nul_free p" and "nul_free s" and "length s < n"
  shows "strcat (p @ replicate n NUL) (cstring s) = Some (p @ s @ replicate (n - length s) NUL)"
  using assms(1)
proof (induction p)
  case Nil
  obtain m where n: "n = Suc m" using assms(3) by (cases n) auto
  have "Suc (m - length s) = n - length s" using assms(3) n by simp
  then have "strcpy (replicate n NUL) (s @ NUL # []) = Some (s @ replicate (n - length s) NUL)"
    using strcpy_cstring [OF assms(2), of "replicate n NUL" "[]"] assms(3) n by (simp flip: replicate_Suc)
  then show ?case using n by (simp add: cstring_def)
qed auto

lemma cstr_zeros: "nul_free s \<Longrightarrow> 0 < n \<Longrightarrow> cstr (s @ replicate n NUL) = s"
  by (induction s) (cases n; auto simp: cstr_def)+

lemma unix_parse_absolute:
  assumes "nul_free s" and "length s < SUN_PATH" and "take 1 s = ''/''" and "malloc_ok H 110"
  shows "unix_parse H pu (cstring s) = Some (0, Some (SockUn s), pu)"
proof -
  obtain s' where s: "s = CHR ''/'' # s'" using assms(3) by (cases s) auto
  then have "cstring s ! 0 = CHR ''/''" by (simp add: cstring_def)
  moreover have "strlen (cstring s) = Some (length s)" using assms(1) by (simp add: cstring_def)
  ultimately show ?thesis
    using assms strcat_zeros [of "[]" s SUN_PATH] cstr_zeros [of s "SUN_PATH - length s"]
    by (simp add: unix_parse_def)
qed

lemma unix_parse_relative:
  assumes "nul_free s" and "take 1 s \<noteq> ''/''" and "malloc_ok H 110" and "getcwd H PATH_MAX = Some wd" and "nul_free wd"
    and "length wd + 1 + length s < SUN_PATH"
  shows "unix_parse H pu (cstring s) =
    Some (0, Some (SockUn (wd @ ''/'' @ s)), if pu = [] then ''unix://'' @ wd @ ''/'' @ s else pu)"
proof -
  have f: "cstring s ! 0 \<noteq> CHR ''/''" using assms(2) by (cases s) (auto simp: cstring_def)
  have n: "strlen (cstring s) = Some (length s)" using assms(1) by (simp add: cstring_def)
  define m where "m = SUN_PATH - length wd"
  have m: "1 < m" "m - 1 - length s \<noteq> 0" "length s < m - 1" using assms(6) by (auto simp: m_def)
  have "Suc (SUN_PATH - Suc (length wd)) = m" using assms(6) by (simp add: m_def)
  then have "strcpy (replicate SUN_PATH NUL) (cstring wd) = Some (wd @ replicate m NUL)"
    using strcpy_cstring [OF assms(5), of "replicate SUN_PATH NUL" "[]"] assms(6)
    by (simp add: cstring_def flip: replicate_Suc)
  moreover have "strcat (wd @ replicate m NUL) (cstring ''/'') = Some ((wd @ ''/'') @ replicate (m - 1) NUL)"
    using strcat_zeros [OF assms(5), of "''/''" m] m by simp
  moreover have "strcat ((wd @ ''/'') @ replicate (m - 1) NUL) (cstring s) =
      Some ((wd @ ''/'' @ s) @ replicate (m - 1 - length s) NUL)"
    using strcat_zeros [of "wd @ ''/''" s "m - 1"] m assms(1,5) by simp
  moreover have "cstr ((wd @ ''/'' @ s) @ replicate (m - 1 - length s) NUL) = wd @ ''/'' @ s"
    using cstr_zeros [of "wd @ ''/'' @ s" "m - 1 - length s"] assms(1,5) m by simp
  moreover have "length wd + length s < 107" using assms(6) by (simp add: SUN_PATH_def)
  moreover have "\<not> SUN_PATH \<le> length s" using assms(6) by simp
  ultimately show ?thesis using f n assms(3,4,6) by (simp add: unix_parse_def Let_def)
qed

section \<open>Locators\<close>

lemma parseurl_scheme:
  assumes "host_ok H" and "nul_free s" and "CHR '':'' \<notin> set s" and "length s \<le> 15" and "addr \<noteq> []"
  shows "\<exists>r. parseurl H pu (s @ ''://'' @ addr) w = scheme_loop H pu (s @ NUL # r) addr w 0 parsetab"
proof (intro exI)
  have l: "length (stack_buf H 16) = 16" using assms(1) by (simp add: host_ok_def)
  obtain c r where a: "addr = c # r" using assms(5) by (cases addr) auto
  have "strncpy (stack_buf H 16) (s @ ''://'' @ addr) (length s) = Some (s @ drop (length s) (stack_buf H 16))"
    using strncpy_exact [OF assms(2)] l assms(4) by simp
  moreover have "poke (s @ drop (length s) (stack_buf H 16)) (length s) NUL =
      Some (s @ NUL # drop (Suc (length s)) (stack_buf H 16))"
    using poke_end l assms(4) by simp
  ultimately show "parseurl H pu (s @ ''://'' @ addr) w =
      scheme_loop H pu (s @ NUL # drop (Suc (length s)) (stack_buf H 16)) addr w 0 parsetab"
    using strstr_scheme [OF assms(2,3), of c r] assms(4) a by (simp add: parseurl_def Let_def)
qed

lemma scheme_loop_tcp: "scheme_loop H pu (''tcp'' @ NUL # r) addr w 0 parsetab =
    map_option (\<lambda>(e, sa). (e, sa, if e \<noteq> 0 then None else Some 0, pu)) (tcp_parse H addr w)"
  by (cases "tcp_parse H addr w") (auto simp: parsetab_def cstring_def call_parser_def)

lemma scheme_loop_unix: "scheme_loop H pu (''unix'' @ NUL # r) addr w 0 parsetab =
    map_option (\<lambda>(e, sa, pu'). (e, sa, if e \<noteq> 0 then None else Some 1, pu')) (unix_parse H pu addr)"
  by (cases "unix_parse H pu addr") (auto simp: parsetab_def cstring_def call_parser_def)

lemma length_dec_nat: "n < 10 ^ k \<Longrightarrow> 0 < k \<Longrightarrow> length (dec_nat n) \<le> k"
proof (induction k arbitrary: n)
  case (Suc k)
  show ?case
  proof (cases "n < 10")
    case False
    then have "0 < k" using Suc.prems by (cases k) auto
    moreover have "n div 10 < 10 ^ k" using Suc.prems(1) by (simp add: less_mult_imp_div_less mult.commute)
    ultimately have "length (dec_nat (n div 10)) \<le> k" by (rule Suc.IH [rotated])
    with False show ?thesis by (subst dec_nat.simps) simp
  qed (subst dec_nat.simps, simp)
qed simp

text \<open>The locator of a port on an IPv4 host; what follows the port starts with a slash.\<close>

definition tcp_url :: "string \<Rightarrow> string \<Rightarrow> string \<Rightarrow> string" where
  "tcp_url s ds rest = cstring (''tcp://'' @ s @ '':'' @ ds @ rest)"

definition host_part :: "url_host \<Rightarrow> bool \<Rightarrow> string \<Rightarrow> nat \<Rightarrow> bool" where
  "host_part H w s a \<longleftrightarrow> nul_free s \<and> CHR '':'' \<notin> set s \<and> length s \<le> 63 \<and> resolves H s a \<and> (w \<or> a \<noteq> 0)"

lemma parseurl_tcp:
  assumes "host_ok H" and "host_part H w s a"
  shows "\<exists>buf. length buf = 64 \<and> parseurl H pu (tcp_url s ds rest) w =
    (case tcp_port buf (ds @ rest @ [NUL]) of
       None \<Rightarrow> None
     | Some (Inl e) \<Rightarrow> Some (e, None, if e \<noteq> 0 then None else Some 0, pu)
     | Some (Inr q) \<Rightarrow>
         Some (if malloc_ok H 16 then (0, Some (SockIn a q), Some 0, pu)
               else (host_errno H, None, if host_errno H \<noteq> 0 then None else Some 0, pu)))"
proof -
  let ?p = "ds @ rest @ [NUL]"
  obtain buf where b: "length buf = 64" and t: "tcp_parse H (s @ CHR '':'' # ?p) w =
    (case tcp_port buf ?p of
       None \<Rightarrow> None
     | Some (Inl e) \<Rightarrow> Some (e, None)
     | Some (Inr q) \<Rightarrow> Some (if malloc_ok H 16 then (0, Some (SockIn a q)) else (host_errno H, None)))"
    using tcp_parse_host [OF assms(1), of s a w ?p] assms(2) unfolding host_part_def by blast
  have u: "tcp_url s ds rest = ''tcp'' @ ''://'' @ s @ CHR '':'' # ?p" by (simp add: tcp_url_def cstring_def)
  obtain r where "parseurl H pu (''tcp'' @ ''://'' @ s @ CHR '':'' # ?p) w =
      scheme_loop H pu (''tcp'' @ NUL # r) (s @ CHR '':'' # ?p) w 0 parsetab"
    using parseurl_scheme [OF assms(1), of "''tcp''" "s @ CHR '':'' # ?p" pu w] by auto
  then show ?thesis unfolding u scheme_loop_tcp t using b
    by (intro exI [of _ buf]) (auto split: option.splits sum.splits)
qed

lemma parseurl_unix:
  assumes "host_ok H" and "unix_parse H pu (cstring s) = Some (0, sa, pu')"
  shows "parseurl H pu (cstring (''unix://'' @ s)) w = Some (0, sa, Some 1, pu')"
proof -
  have "cstring (''unix://'' @ s) = ''unix'' @ ''://'' @ cstring s" by (simp add: cstring_def)
  moreover obtain r where "parseurl H pu (''unix'' @ ''://'' @ cstring s) w =
      scheme_loop H pu (''unix'' @ NUL # r) (cstring s) w 0 parsetab"
    using parseurl_scheme [OF assms(1), of "''unix''" "cstring s" pu w] by (auto simp: cstring_def)
  ultimately show ?thesis using assms(2) scheme_loop_unix by simp
qed

lemma parseurl_tcp_wrap:
  assumes "host_ok H" and "malloc_ok H 16" and "host_part H w s a" and "length (dec_nat port) < 64"
    and "rest = [] \<or> hd rest = CHR ''/''"
  shows "parseurl H pu (tcp_url s (dec_nat port) rest) w =
    Some (let v = wrap32 (int port)
          in if 0 \<le> v \<and> v < 65536 then (0, Some (SockIn a (htons (nat v))), Some 0, pu) else (errno_val ERANGE, None, None, pu))"
proof -
  obtain c r where r: "rest @ [NUL] = c # r" "c = CHR ''/'' \<or> c = NUL" using assms(5) by (cases rest) auto
  have "tcp_port buf (dec_nat port @ c # r) =
      Some (let v = wrap32 (int port) in if 0 \<le> v \<and> v < 65536 then Inr (htons (nat v)) else Inl (errno_val ERANGE))"
    if "length buf = 64" for buf
    using tcp_port_dec [OF _ r(2)] that assms(4) by simp
  with parseurl_tcp [OF assms(1,3), of pu "dec_nat port" rest] r assms(2) show ?thesis by (auto simp: Let_def split: if_splits)
qed

lemma parseurl_tcp_port:
  assumes "host_ok H" and "malloc_ok H 16" and "host_part H w s a" and "port < 2 ^ 31" and "rest = [] \<or> hd rest = CHR ''/''"
  shows "parseurl H pu (tcp_url s (dec_nat port) rest) w =
    Some (if port < 65536 then (0, Some (SockIn a (htons port)), Some 0, pu) else (errno_val ERANGE, None, None, pu))"
proof -
  have "length (dec_nat port) \<le> 10" using assms(4) by (intro length_dec_nat) auto
  moreover have "wrap32 (int port) = int port" using assms(4) by (intro wrap32_id) auto
  ultimately show ?thesis using parseurl_tcp_wrap [OF assms(1-3) _ assms(5), of port pu] by (simp add: Let_def)
qed

lemma parseurl_tcp_overflow:
  assumes "host_ok H" and "host_part H w s a" and "\<forall>c \<in> set ds. isdigit c" and "64 \<le> length ds"
    and "rest = [] \<or> \<not> isdigit (hd rest)"
  shows "parseurl H pu (tcp_url s ds rest) w = None"
proof -
  obtain c r where r: "rest @ [NUL] = c # r" "\<not> isdigit c" using assms(5) by (cases rest) (auto simp: isdigit_def)
  have "tcp_port buf (ds @ c # r) = None" if "length buf = 64" for buf
    using tcp_port_overflow [OF assms(3) r(2), of buf r] that assms(4) by simp
  with parseurl_tcp [OF assms(1,2), of pu ds rest] r show ?thesis by auto
qed

text \<open>
  C25: locators.  \<open>tcp://host:port\<close>, with an address that \<open>inet_pton\<close> accepts (or a wildcard,
  where one is allowed) and anything after a slash, gives for a port below 65536 the address and the
  port in network byte order, and for a port from 65536 up to \<open>INT_MAX\<close> the error \<open>ERANGE\<close>.  A larger port of up to
  63 digits is reduced modulo \<open>2 ^ 32\<close> before the test, so that 4294967376 is accepted as
  80; 64 or more digits are written past the end of \<open>buf\<close>.  \<open>unix://path\<close> gives the absolute path, made from the
  working directory when the path is relative.
\<close>

theorem parseurl_locators:
  assumes "host_ok H" and "malloc_ok H 16" and "malloc_ok H 110"
  shows "(host_part H w s a \<and> port < 2 ^ 31 \<and> (rest = [] \<or> hd rest = CHR ''/'') \<longrightarrow>
      parseurl H pu (tcp_url s (dec_nat port) rest) w =
        Some (if port < 65536 then (0, Some (SockIn a (htons port)), Some 0, pu) else (errno_val ERANGE, None, None, pu))) \<and>
    (host_part H w s a \<and> length (dec_nat port) < 64 \<and> (rest = [] \<or> hd rest = CHR ''/'') \<longrightarrow>
      parseurl H pu (tcp_url s (dec_nat port) rest) w =
        Some (let v = wrap32 (int port)
              in if 0 \<le> v \<and> v < 65536 then (0, Some (SockIn a (htons (nat v))), Some 0, pu) else (errno_val ERANGE, None, None, pu))) \<and>
    (host_part H w s a \<and> (\<forall>c \<in> set ds. isdigit c) \<and> 64 \<le> length ds \<and> (rest = [] \<or> \<not> isdigit (hd rest)) \<longrightarrow>
      parseurl H pu (tcp_url s ds rest) w = None) \<and>
    (nul_free s \<and> take 1 s = ''/'' \<and> length s < SUN_PATH \<longrightarrow>
      parseurl H pu (cstring (''unix://'' @ s)) w = Some (0, Some (SockUn s), Some 1, pu)) \<and>
    (nul_free s \<and> take 1 s \<noteq> ''/'' \<and> getcwd H PATH_MAX = Some wd \<and> nul_free wd \<and> length wd + 1 + length s < SUN_PATH \<longrightarrow>
      parseurl H [] (cstring (''unix://'' @ s)) w =
        Some (0, Some (SockUn (wd @ ''/'' @ s)), Some 1, ''unix://'' @ wd @ ''/'' @ s))"
proof (intro conjI impI)
  assume "host_part H w s a \<and> port < 2 ^ 31 \<and> (rest = [] \<or> hd rest = CHR ''/'')"
  then show "parseurl H pu (tcp_url s (dec_nat port) rest) w =
      Some (if port < 65536 then (0, Some (SockIn a (htons port)), Some 0, pu) else (errno_val ERANGE, None, None, pu))"
    by (elim conjE) (rule parseurl_tcp_port [OF assms(1,2)])
next
  assume "host_part H w s a \<and> length (dec_nat port) < 64 \<and> (rest = [] \<or> hd rest = CHR ''/'')"
  then show "parseurl H pu (tcp_url s (dec_nat port) rest) w =
      Some (let v = wrap32 (int port)
            in if 0 \<le> v \<and> v < 65536 then (0, Some (SockIn a (htons (nat v))), Some 0, pu) else (errno_val ERANGE, None, None, pu))"
    by (elim conjE) (rule parseurl_tcp_wrap [OF assms(1,2)])
next
  assume "host_part H w s a \<and> (\<forall>c \<in> set ds. isdigit c) \<and> 64 \<le> length ds \<and> (rest = [] \<or> \<not> isdigit (hd rest))"
  then show "parseurl H pu (tcp_url s ds rest) w = None" by (elim conjE) (rule parseurl_tcp_overflow [OF assms(1)])
next
  assume "nul_free s \<and> take 1 s = ''/'' \<and> length s < SUN_PATH"
  then show "parseurl H pu (cstring (''unix://'' @ s)) w = Some (0, Some (SockUn s), Some 1, pu)"
    using unix_parse_absolute [of s H pu] assms(3) by (intro parseurl_unix [OF assms(1)]) blast
next
  assume "nul_free s \<and> take 1 s \<noteq> ''/'' \<and> getcwd H PATH_MAX = Some wd \<and> nul_free wd \<and> length wd + 1 + length s < SUN_PATH"
  then have "unix_parse H [] (cstring s) = Some (0, Some (SockUn (wd @ ''/'' @ s)), ''unix://'' @ wd @ ''/'' @ s)"
    using unix_parse_relative [of s H wd "[]"] assms(3) by simp
  then show "parseurl H [] (cstring (''unix://'' @ s)) w =
      Some (0, Some (SockUn (wd @ ''/'' @ s)), Some 1, ''unix://'' @ wd @ ''/'' @ s)"
    by (rule parseurl_unix [OF assms(1)])
qed

definition loopback :: url_host where
  "loopback = \<lparr>stack_buf = \<lambda>n. replicate n (CHR ''x''), inet_pton = \<lambda>s. if s = ''127.0.0.1'' then (1, 16777343) else (0, 0),
     getcwd = \<lambda>n. Some ''/tmp'', malloc_ok = \<lambda>n. True, host_errno = 12\<rparr>"

theorem parseurl_locators_witness:
  "parseurl loopback [] (tcp_url ''127.0.0.1'' (dec_nat 8080) ''/x'') False = Some (0, Some (SockIn 16777343 36895), Some 0, []) \<and>
   parseurl loopback [] (tcp_url ''127.0.0.1'' (dec_nat 4294967376) []) False = Some (0, Some (SockIn 16777343 20480), Some 0, []) \<and>
   parseurl loopback [] (tcp_url ''127.0.0.1'' (replicate 64 CHR ''7'') []) False = None \<and>
   parseurl loopback [] (cstring (''unix://'' @ ''sock'')) False =
     Some (0, Some (SockUn ''/tmp/sock''), Some 1, ''unix:///tmp/sock'')"
proof -
  have h: "host_ok loopback" "malloc_ok loopback 16" "malloc_ok loopback 110" by (simp_all add: host_ok_def loopback_def)
  have p: "host_part loopback False ''127.0.0.1'' 16777343" by (simp add: host_part_def resolves_def loopback_def)
  have d: "htons 8080 = 36895" "htons 80 = 20480" by (simp_all add: htons_def)
  have w: "wrap32 4294967376 = 80" by (simp add: wrap32_def)
  have l: "length (dec_nat 4294967376) < 64" using length_dec_nat [of 4294967376 10] by simp
  have "isdigit CHR ''7''" by (simp add: isdigit_def)
  moreover have "parseurl loopback [] (tcp_url ''127.0.0.1'' (dec_nat 4294967376) []) False = Some (0, Some (SockIn 16777343 20480), Some 0, [])"
    using parseurl_locators [OF h, of False "''127.0.0.1''" 16777343 4294967376 "[]" "[]" "[]" "[]"] p l by (simp add: w d Let_def)
  ultimately show ?thesis
    using parseurl_locators [OF h, of False "''127.0.0.1''" 16777343 8080 "''/x''" "[]" "[]" "[]"]
      parseurl_locators [OF h, of False "''127.0.0.1''" 16777343 0 "[]" "[]" "replicate 64 CHR ''7''" "[]"]
      parseurl_locators [OF h, of False "''sock''" 0 0 "[]" "[]" "[]" "''/tmp''"] p d
    by (auto simp: loopback_def SUN_PATH_def)
qed

end
