(* ===== verification/Sp_Server.thy ===== *)
theory Sp_Server
  imports Sp_Wire Sp_Url
begin

text \<open>
  The server of the system call proxy, librumpuser/sysproxy.c.  The main thread accepts
  connections, reads frames (\<open>Sp_Wire\<close>) and handles requests; system calls and execs are queued
  for worker threads, and a system call may send requests of its own to the client and wait for
  the answers.

  The transitions of a thread are the stretches between the points where it can wait for another
  thread: a worker waits for work, for an answer, and in an exec for the other workers; the main
  thread waits in \<open>poll\<close>.  A send, which holds the send lock of the client throughout, is part of
  one transition.  What the kernel and the host answer is a parameter of each transition.
\<close>

section \<open>Messages\<close>

datatype rumpsp_err =
    RUMPSP_ERR_NONE | RUMPSP_ERR_TRYAGAIN | RUMPSP_ERR_AUTH | RUMPSP_ERR_INVALID_PREFORK
  | RUMPSP_ERR_RFORK_FAILED | RUMPSP_ERR_INEXEC | RUMPSP_ERR_NOMEM | RUMPSP_ERR_MALFORMED_REQUEST

fun err_code :: "rumpsp_err \<Rightarrow> nat" where
  "err_code RUMPSP_ERR_NONE = 0"
| "err_code RUMPSP_ERR_TRYAGAIN = 1"
| "err_code RUMPSP_ERR_AUTH = 2"
| "err_code RUMPSP_ERR_INVALID_PREFORK = 3"
| "err_code RUMPSP_ERR_RFORK_FAILED = 4"
| "err_code RUMPSP_ERR_INEXEC = 5"
| "err_code RUMPSP_ERR_NOMEM = 6"
| "err_code RUMPSP_ERR_MALFORMED_REQUEST = 7"

text \<open>\<open>errmap\<close>, on the number that arrives in a header.\<close>

definition errmap :: "nat \<Rightarrow> int" where
  "errmap e =
     (if e = 0 then 0
      else if e = 2 then errno_val EPERM
      else if e = 1 then errno_val EAGAIN
      else if e = 3 then errno_val ESRCH
      else if e = 4 then errno_val EIO
      else if e = 5 then errno_val EBUSY
      else if e = 6 then errno_val ENOMEM
      else if e = 7 then errno_val EINVAL
      else - 1)"

definition RUMPSP_REQ :: nat where [simp]: "RUMPSP_REQ = 0"
definition RUMPSP_RESP :: nat where [simp]: "RUMPSP_RESP = 1"
definition RUMPSP_ERROR :: nat where [simp]: "RUMPSP_ERROR = 2"

definition RUMPSP_HANDSHAKE :: nat where [simp]: "RUMPSP_HANDSHAKE = 0"
definition RUMPSP_SYSCALL :: nat where [simp]: "RUMPSP_SYSCALL = 1"
definition RUMPSP_COPYIN :: nat where [simp]: "RUMPSP_COPYIN = 2"
definition RUMPSP_COPYINSTR :: nat where [simp]: "RUMPSP_COPYINSTR = 3"
definition RUMPSP_COPYOUT :: nat where [simp]: "RUMPSP_COPYOUT = 4"
definition RUMPSP_ANONMMAP :: nat where [simp]: "RUMPSP_ANONMMAP = 6"
definition RUMPSP_PREFORK :: nat where [simp]: "RUMPSP_PREFORK = 7"
definition RUMPSP_RAISE :: nat where [simp]: "RUMPSP_RAISE = 8"

definition HANDSHAKE_GUEST :: nat where [simp]: "HANDSHAKE_GUEST = 0"
definition HANDSHAKE_FORK :: nat where [simp]: "HANDSHAKE_FORK = 2"
definition HANDSHAKE_EXEC :: nat where [simp]: "HANDSHAKE_EXEC = 3"

text \<open>
  The parts of a message that is sent: a header, an \<open>int\<close>, a \<open>struct rsp_sysresp\<close>, the
  authentication words, a \<open>struct rsp_copydata\<close> (length and address), data, a \<open>size_t\<close>.
\<close>

datatype iov = IHdr rsp_hdr | IInt int | ISys int int int | IAuth bytes | ICopy nat nat | IData bytes | ISize nat

section \<open>State\<close>

datatype spcstate = SPCSTATE_NEW | SPCSTATE_RUNNING | SPCSTATE_DYING

datatype spcstatus = SPCSTATUS_FREE | SPCSTATUS_BUSY | SPCSTATUS_WANTED

text \<open>\<open>struct respwait\<close>; it is on the stack of the worker that waits.\<close>

record respwait =
  rw_reqno :: nat
  rw_data :: "bytes option"
  rw_dlen :: nat
  rw_done :: bool
  rw_error :: int

text \<open>
  \<open>struct spclient\<close>.  \<open>spc_rcv\<close> holds \<open>spc_hdr\<close>, \<open>spc_buf\<close> and \<open>spc_off\<close>; the waiters are
  named by their worker.  \<open>spc_pfd\<close>, \<open>spc_generation\<close>, \<open>spc_reconnecting\<close> and
  \<open>spc_pflist\<close> are never read.
\<close>

record spclient =
  spc_fd :: int
  spc_refcnt :: int
  spc_state :: spcstate
  spc_mainlwp :: int
  spc_pid :: int
  spc_respwait :: "nat list"
  spc_rcv :: rcv
  spc_nextreq :: nat
  spc_syscallreq :: nat
  spc_ostatus :: spcstatus
  spc_istatus :: spcstatus
  spc_inexec :: bool

datatype sbatype = SBA_SYSCALL | SBA_EXEC

record servbouncearg =
  sba_spc :: nat
  sba_hdr :: rsp_hdr
  sba_type :: sbatype
  sba_data :: "bytes option"

record prefork =
  pf_auth :: bytes
  pf_lwp :: int

text \<open>The requests that a worker waits for: the length and kind of a copyin, or an anonymous mapping.\<close>

datatype req = CopyIn nat bool | AnonMmap

text \<open>
  Where a worker thread is: finished; at the top of its loop; waiting for work; with work taken; in
  the system call; waiting for the answer to a request; in an exec, with whether it may run (it is
  not, or no longer, waiting on \<open>spc_cv\<close>).
\<close>

datatype wphase =
    WNone
  | WTop
  | WIdle
  | WStart servbouncearg
  | WSys servbouncearg
  | WAwait servbouncearg req
  | WExec servbouncearg bool

text \<open>
  What a run does: calls of the kernel with numbers and a string, messages to the client of a slot,
  system calls of the host, and the result of a request that worker \<open>t\<close> made.
\<close>

datatype sp_ev = Hyp string "int list" bytes | Tx nat "iov list" | Sys string "int list" | Ret nat int bytes

record world =
  w_int :: "sp_ev list \<Rightarrow> sp_ev \<Rightarrow> int"
  w_rand :: "sp_ev list \<Rightarrow> bytes"
  w_stack :: nat

text \<open>
  The globals of the server; \<open>pfd\<close> is \<open>pfdlist[i].fd\<close>.  \<open>waits\<close> holds the \<open>struct respwait\<close>
  of each worker and \<open>oob\<close> counts the bytes written past the end of a buffer.
\<close>

record srv =
  spclist :: "nat \<Rightarrow> spclient"
  pfd :: "nat \<Rightarrow> int"
  disco :: nat
  nfds :: int
  maxidx :: nat
  wrklist :: "servbouncearg list"
  nwork :: int
  nworker :: int
  idleworker :: int
  workers :: "wphase list"
  waits :: "nat \<Rightarrow> respwait"
  preforks :: "prefork list"
  log :: "sp_ev list"
  oob :: nat

definition MAXCLI :: nat where "MAXCLI = 256"
definition MAXWORKER :: int where "MAXWORKER = 128"
definition IDLEWORKER :: int where "IDLEWORKER = 16"

definition upd_spc :: "nat \<Rightarrow> (spclient \<Rightarrow> spclient) \<Rightarrow> srv \<Rightarrow> srv" where
  "upd_spc i f s = s\<lparr>spclist := (spclist s)(i := f (spclist s i))\<rparr>"

definition set_worker :: "nat \<Rightarrow> wphase \<Rightarrow> srv \<Rightarrow> srv" where
  "set_worker t p s = s\<lparr>workers := (workers s)[t := p]\<rparr>"

definition ev :: "world \<Rightarrow> sp_ev \<Rightarrow> srv \<Rightarrow> int \<times> srv" where
  "ev w e s = (w_int w (log s) e, s\<lparr>log := log s @ [e]\<rparr>)"

definition hdr :: "nat \<Rightarrow> srv \<Rightarrow> rsp_hdr" where
  "hdr i s = dec_hdr (spc_hdr (spc_rcv (spclist s i)))"

definition buf :: "nat \<Rightarrow> srv \<Rightarrow> bytes option" where
  "buf i s = spc_buf (spc_rcv (spclist s i))"

section \<open>Buffers and locks\<close>

definition spcresetbuf :: "nat \<Rightarrow> srv \<Rightarrow> srv" where
  "spcresetbuf i = upd_spc i (\<lambda>c. c\<lparr>spc_rcv := (spc_rcv c)\<lparr>spc_buf := None, spc_off := 0\<rparr>\<rparr>)"

text \<open>The memory that \<open>free\<close> releases is not part of the state.\<close>

definition spcfreebuf :: "nat \<Rightarrow> srv \<Rightarrow> srv" where
  "spcfreebuf i s = spcresetbuf i s"

text \<open>\<open>pthread_cond_broadcast(&spc->spc_cv)\<close>.\<close>

fun wake_exec :: "nat \<Rightarrow> wphase \<Rightarrow> wphase" where
  "wake_exec i (WExec b r) = WExec b (r \<or> sba_spc b = i)"
| "wake_exec i p = p"

definition broadcast :: "nat \<Rightarrow> srv \<Rightarrow> srv" where
  "broadcast i s = s\<lparr>workers := map (wake_exec i) (workers s)\<rparr>"

text \<open>\<open>None\<close>: the caller has to wait for the send lock.\<close>

definition sendlockl :: "nat \<Rightarrow> srv \<Rightarrow> srv option" where
  "sendlockl i s =
     (if spc_ostatus (spclist s i) \<noteq> SPCSTATUS_FREE then None
      else Some (upd_spc i (\<lambda>c. c\<lparr>spc_ostatus := SPCSTATUS_BUSY\<rparr>) s))"

definition sendunlockl :: "nat \<Rightarrow> srv \<Rightarrow> srv" where
  "sendunlockl i s =
     upd_spc i (\<lambda>c. c\<lparr>spc_ostatus := SPCSTATUS_FREE\<rparr>)
       (if spc_ostatus (spclist s i) = SPCSTATUS_WANTED then broadcast i s else s)"

text \<open>A message sent under the send lock, with the result of \<open>dosend\<close>.\<close>

definition send_locked :: "world \<Rightarrow> nat \<Rightarrow> iov list \<Rightarrow> srv \<Rightarrow> (int \<times> srv) option" where
  "send_locked w i iov s =
     do { s \<leftarrow> sendlockl i s;
          let (rv, s) = ev w (Tx i iov) s;
          Some (rv, sendunlockl i s) }"

section \<open>Waiting for answers\<close>

definition doputwait :: "nat \<Rightarrow> nat \<Rightarrow> srv \<Rightarrow> nat \<times> srv" where
  "doputwait i t s =
     (let reqno = spc_nextreq (spclist s i);
          rw = \<lparr>rw_reqno = reqno, rw_data = None, rw_dlen = 0, rw_done = False, rw_error = 0\<rparr>
      in (reqno,
          upd_spc i (\<lambda>c. c\<lparr>spc_nextreq := Suc reqno mod 2 ^ 64, spc_respwait := spc_respwait c @ [t]\<rparr>)
            (s\<lparr>waits := (waits s)(t := rw)\<rparr>)))"

definition putwait :: "nat \<Rightarrow> nat \<Rightarrow> srv \<Rightarrow> (nat \<times> srv) option" where
  "putwait i t s = (let (reqno, s) = doputwait i t s in map_option (Pair reqno) (sendlockl i s))"

definition dounputwait :: "nat \<Rightarrow> nat \<Rightarrow> srv \<Rightarrow> srv" where
  "dounputwait i t = upd_spc i (\<lambda>c. c\<lparr>spc_respwait := remove1 t (spc_respwait c)\<rparr>)"

definition unputwait :: "nat \<Rightarrow> nat \<Rightarrow> srv \<Rightarrow> srv" where
  "unputwait i t s = dounputwait i t (sendunlockl i s)"

text \<open>The answer in the receive buffer goes to the worker whose request has its number.\<close>

definition kickwaiter :: "nat \<Rightarrow> srv \<Rightarrow> srv" where
  "kickwaiter i s =
     (case find (\<lambda>t. rw_reqno (waits s t) = rsp_reqno (hdr i s)) (spc_respwait (spclist s i)) of
        None \<Rightarrow> spcfreebuf i s
      | Some t \<Rightarrow>
          let error = (if rsp_class (hdr i s) = RUMPSP_ERROR then errmap (rsp_u (hdr i s)) else 0);
              rw = (waits s t)\<lparr>rw_data := buf i s, rw_done := True, rw_dlen := spc_off (spc_rcv (spclist s i)) - HDRSZ\<rparr>;
              rw = (if rsp_class (hdr i s) = RUMPSP_ERROR then rw\<lparr>rw_error := error\<rparr> else rw);
              s = s\<lparr>waits := (waits s)(t := rw)\<rparr>
          in if error \<noteq> 0 then spcfreebuf i s else spcresetbuf i s)"

text \<open>
  \<open>waitresp\<close> once the wait is over, and the condition of its loop.  The wait ends when the answer
  is there or the client is going away; \<open>kickwaiter\<close> and \<open>kickall\<close> signal exactly these changes.
\<close>

definition may_resume :: "nat \<Rightarrow> nat \<Rightarrow> srv \<Rightarrow> bool" where
  "may_resume i t s \<longleftrightarrow> rw_done (waits s t) \<or> spc_state (spclist s i) = SPCSTATE_DYING"

definition waitresp :: "nat \<Rightarrow> nat \<Rightarrow> srv \<Rightarrow> int \<times> srv" where
  "waitresp i t s =
     (if spc_state (spclist s i) = SPCSTATE_DYING then errno_val ENOTCONN else rw_error (waits s t),
      dounputwait i t s)"

section \<open>Calls of the kernel\<close>

definition lwproc :: "world \<Rightarrow> string \<Rightarrow> int list \<Rightarrow> bytes \<Rightarrow> srv \<Rightarrow> int \<times> srv" where
  "lwproc w f args str s =
     (let (_, s) = ev w (Hyp ''hyp_schedule'' [] []) s;
          (rv, s) = ev w (Hyp f args str) s;
          (_, s) = ev w (Hyp ''hyp_unschedule'' [] []) s
      in (rv, s))"

definition lwproc_switch :: "world \<Rightarrow> int \<Rightarrow> srv \<Rightarrow> srv" where
  "lwproc_switch w l s = snd (lwproc w ''hyp_lwproc_switch'' [l] [] s)"

definition lwproc_release :: "world \<Rightarrow> srv \<Rightarrow> srv" where
  "lwproc_release w s = snd (lwproc w ''hyp_lwproc_release'' [] [] s)"

definition lwproc_rfork :: "world \<Rightarrow> nat \<Rightarrow> int \<Rightarrow> bytes \<Rightarrow> srv \<Rightarrow> int \<times> srv" where
  "lwproc_rfork w i flags comm s = lwproc w ''hyp_lwproc_rfork'' [int i, flags] comm s"

definition lwproc_newlwp :: "world \<Rightarrow> int \<Rightarrow> srv \<Rightarrow> int \<times> srv" where
  "lwproc_newlwp w pid s = lwproc w ''hyp_lwproc_newlwp'' [pid] [] s"

definition lwproc_curlwp :: "world \<Rightarrow> srv \<Rightarrow> int \<times> srv" where
  "lwproc_curlwp w s = lwproc w ''hyp_lwproc_curlwp'' [] [] s"

definition lwproc_getpid :: "world \<Rightarrow> srv \<Rightarrow> int \<times> srv" where
  "lwproc_getpid w s = lwproc w ''hyp_getpid'' [] [] s"

definition lwproc_execnotify :: "world \<Rightarrow> bytes \<Rightarrow> srv \<Rightarrow> srv" where
  "lwproc_execnotify w comm s = snd (lwproc w ''hyp_execnotify'' [] comm s)"

definition lwproc_lwpexit :: "world \<Rightarrow> srv \<Rightarrow> srv" where
  "lwproc_lwpexit w s = snd (lwproc w ''hyp_lwpexit'' [] [] s)"

definition nextreq :: "nat \<Rightarrow> srv \<Rightarrow> nat \<times> srv" where
  "nextreq i s =
     (let nw = spc_nextreq (spclist s i)
      in (nw, upd_spc i (\<lambda>c. c\<lparr>spc_nextreq := Suc nw mod 2 ^ 64\<rparr>) s))"

section \<open>Responses and requests\<close>

definition mk_hdr :: "nat \<Rightarrow> nat \<Rightarrow> nat \<Rightarrow> nat \<Rightarrow> nat \<Rightarrow> iov" where
  "mk_hdr len reqno cls typ u = IHdr \<lparr>rsp_len = len, rsp_reqno = reqno, rsp_class = cls, rsp_type = typ, rsp_u = u\<rparr>"

definition send_error_resp :: "world \<Rightarrow> nat \<Rightarrow> nat \<Rightarrow> rumpsp_err \<Rightarrow> srv \<Rightarrow> srv option" where
  "send_error_resp w i reqno error s =
     map_option snd (send_locked w i [mk_hdr HDRSZ reqno RUMPSP_ERROR 0 (err_code error)] s)"

definition send_handshake_resp :: "world \<Rightarrow> nat \<Rightarrow> nat \<Rightarrow> int \<Rightarrow> srv \<Rightarrow> (int \<times> srv) option" where
  "send_handshake_resp w i reqno error s =
     send_locked w i [mk_hdr (HDRSZ + 4) reqno RUMPSP_RESP RUMPSP_HANDSHAKE 0, IInt error] s"

definition send_syscall_resp :: "world \<Rightarrow> nat \<Rightarrow> nat \<Rightarrow> int \<Rightarrow> int \<times> int \<Rightarrow> srv \<Rightarrow> (int \<times> srv) option" where
  "send_syscall_resp w i reqno error retval s =
     send_locked w i [mk_hdr (HDRSZ + 24) reqno RUMPSP_RESP RUMPSP_SYSCALL 0, ISys error (fst retval) (snd retval)] s"

definition send_prefork_resp :: "world \<Rightarrow> nat \<Rightarrow> nat \<Rightarrow> bytes \<Rightarrow> srv \<Rightarrow> (int \<times> srv) option" where
  "send_prefork_resp w i reqno auth s =
     send_locked w i [mk_hdr (HDRSZ + 16) reqno RUMPSP_RESP RUMPSP_PREFORK 0, IAuth auth] s"

text \<open>
  \<open>copyin_req\<close> and \<open>anonmmap_req\<close> up to the wait: the message with its request number, queued and
  sent; an error takes the request out of the queue again.  On success the send lock is given up on
  entry to \<open>waitresp\<close>.
\<close>

definition send_req :: "world \<Rightarrow> nat \<Rightarrow> nat \<Rightarrow> (nat \<Rightarrow> iov list) \<Rightarrow> srv \<Rightarrow> (int \<times> srv) option" where
  "send_req w i t iov s =
     do { (reqno, s) \<leftarrow> putwait i t s;
          let (rv, s) = ev w (Tx i (iov reqno)) s;
          Some (rv, if rv \<noteq> 0 then unputwait i t s else sendunlockl i s) }"

definition copyin_req :: "world \<Rightarrow> nat \<Rightarrow> nat \<Rightarrow> nat \<Rightarrow> nat \<Rightarrow> bool \<Rightarrow> srv \<Rightarrow> (int \<times> srv) option" where
  "copyin_req w i t remaddr dlen wantstr s =
     send_req w i t
       (\<lambda>n. [mk_hdr (HDRSZ + 16) n RUMPSP_REQ (if wantstr then RUMPSP_COPYINSTR else RUMPSP_COPYIN) 0, ICopy dlen remaddr]) s"

definition anonmmap_req :: "world \<Rightarrow> nat \<Rightarrow> nat \<Rightarrow> nat \<Rightarrow> srv \<Rightarrow> (int \<times> srv) option" where
  "anonmmap_req w i t howmuch s =
     send_req w i t (\<lambda>n. [mk_hdr (HDRSZ + 8) n RUMPSP_REQ RUMPSP_ANONMMAP 0, ISize howmuch]) s"

definition send_copyout_req :: "world \<Rightarrow> nat \<Rightarrow> nat \<Rightarrow> bytes \<Rightarrow> srv \<Rightarrow> (int \<times> srv) option" where
  "send_copyout_req w i remaddr data s =
     (let (reqno, s) = nextreq i s
      in send_locked w i
           [mk_hdr (HDRSZ + 16 + length data) reqno RUMPSP_REQ RUMPSP_COPYOUT 0, ICopy (length data) remaddr, IData data] s)"

text \<open>The request number is never set: it is what the stack holds.\<close>

definition send_raise_req :: "world \<Rightarrow> nat \<Rightarrow> int \<Rightarrow> srv \<Rightarrow> (int \<times> srv) option" where
  "send_raise_req w i signo s =
     send_locked w i [mk_hdr HDRSZ (w_stack w) RUMPSP_REQ RUMPSP_RAISE (nat (signo mod 2 ^ 32))] s"

section \<open>Clients\<close>

definition spcref :: "nat \<Rightarrow> srv \<Rightarrow> srv" where
  "spcref i = upd_spc i (\<lambda>c. c\<lparr>spc_refcnt := spc_refcnt c + 1\<rparr>)"

definition spcrelease :: "world \<Rightarrow> nat \<Rightarrow> srv \<Rightarrow> srv" where
  "spcrelease w i s =
     (let ref = spc_refcnt (spclist s i) - 1;
          s = upd_spc i (\<lambda>c. c\<lparr>spc_refcnt := ref\<rparr>) s;
          s = (if spc_inexec (spclist s i) \<and> ref \<le> 2 then broadcast i s else s)
      in if ref > 0 then s
         else
           let l = spc_mainlwp (spclist s i);
               s = (if l \<noteq> 0 then lwproc_release w (lwproc_switch w l s) else s);
               s = upd_spc i (\<lambda>c. c\<lparr>spc_mainlwp := 0\<rparr>) s;
               (_, s) = ev w (Sys ''close'' [spc_fd (spclist s i)]) s;
               s = upd_spc i (\<lambda>c. c\<lparr>spc_fd := - 1, spc_state := SPCSTATE_NEW\<rparr>) s
           in s\<lparr>disco := (disco s + 1) mod 2 ^ 32\<rparr>)"

text \<open>The fields from \<open>spc_pfd\<close> on, set to zero bytes.\<close>

definition zero_spc :: "spclient \<Rightarrow> spclient" where
  "zero_spc c =
     c\<lparr>spc_rcv := \<lparr>spc_hdr = replicate HDRSZ 0, spc_buf = None, spc_off = 0\<rparr>, spc_nextreq := 0, spc_syscallreq := 0,
       spc_ostatus := SPCSTATUS_FREE, spc_istatus := SPCSTATUS_FREE, spc_inexec := False\<rparr>"

definition serv_handledisco :: "world \<Rightarrow> nat \<Rightarrow> srv \<Rightarrow> srv" where
  "serv_handledisco w i s =
     (let s = s\<lparr>pfd := (pfd s)(i := - 1)\<rparr>;
          s = upd_spc i (\<lambda>c. c\<lparr>spc_state := SPCSTATE_DYING\<rparr>) s;
          s = sendunlockl i s;
          dolwpexit = (\<not> spc_inexec (spclist s i));
          l = spc_mainlwp (spclist s i);
          s = (if dolwpexit \<and> l \<noteq> 0 then lwproc_switch w 0 (lwproc_lwpexit w (lwproc_switch w l s)) else s);
          s = upd_spc i zero_spc s
      in spcrelease w i s)"

fun shutdown_from :: "world \<Rightarrow> nat list \<Rightarrow> srv \<Rightarrow> srv" where
  "shutdown_from w [] s = s"
| "shutdown_from w (i # is) s =
     (if spc_fd (spclist s i) = - 1 then shutdown_from w is s
      else
        let (_, s) = ev w (Sys ''shutdown'' [spc_fd (spclist s i)]) s;
            s = serv_handledisco w i s
        in shutdown_from w is (spcrelease w i s))"

definition serv_shutdown :: "world \<Rightarrow> srv \<Rightarrow> srv" where
  "serv_shutdown w s = shutdown_from w [1..<MAXCLI] s"

text \<open>
  A new connection: the slot it got, or 0.  \<open>None\<close> is \<open>abort\<close>.  The answer of the \<open>send\<close> is
  whether the whole banner was sent.
\<close>

definition free_slot :: "srv \<Rightarrow> nat option" where
  "free_slot s = find (\<lambda>i. pfd s i = - 1 \<and> spc_state (spclist s i) = SPCSTATE_NEW) [0..<MAXCLI]"

definition serv_handleconn :: "world \<Rightarrow> int \<Rightarrow> bool \<Rightarrow> srv \<Rightarrow> (nat \<times> srv) option" where
  "serv_handleconn w fd busy s =
     (let (newfd, s) = ev w (Sys ''accept'' [fd]) s
      in if newfd = - 1 then Some (0, s)
         else if busy then Some (0, snd (ev w (Sys ''close'' [newfd]) s))
         else
           let (flags, s) = ev w (Sys ''fcntl_getfl'' [newfd]) s;
               (r, s) = ev w (Sys ''fcntl_setfl_nonblock'' [newfd, flags]) s
           in if r = - 1 then Some (0, snd (ev w (Sys ''close'' [newfd]) s))
              else
                let (r, s) = ev w (Sys ''connhook'' [newfd]) s
                in if r \<noteq> 0 then Some (0, snd (ev w (Sys ''close'' [newfd]) s))
                   else
                     let (r, s) = ev w (Sys ''send_banner'' [newfd]) s
                     in if r = 0 then Some (0, snd (ev w (Sys ''close'' [newfd]) s))
                        else
                          case free_slot s of
                            None \<Rightarrow> None
                          | Some i \<Rightarrow>
                              Some (i, upd_spc i
                                (\<lambda>c. c\<lparr>spc_fd := newfd, spc_istatus := SPCSTATUS_BUSY, spc_refcnt := 1, spc_respwait := []\<rparr>)
                                (s\<lparr>pfd := (pfd s)(i := newfd)\<rparr>)))"

section \<open>Workers\<close>

text \<open>\<open>serv_workbouncer\<close>: the top of the loop, and taking the first piece of work.\<close>

definition worker_top :: "nat \<Rightarrow> srv \<Rightarrow> srv" where
  "worker_top t s =
     (if idleworker s - nwork s \<ge> IDLEWORKER then set_worker t WNone (s\<lparr>nworker := nworker s - 1\<rparr>)
      else set_worker t WIdle (s\<lparr>idleworker := idleworker s + 1\<rparr>))"

definition worker_take :: "nat \<Rightarrow> srv \<Rightarrow> srv option" where
  "worker_take t s =
     (case wrklist s of
        [] \<Rightarrow> None
      | b # r \<Rightarrow>
          Some (set_worker t (if sba_type b = SBA_SYSCALL then WStart b else WExec b True)
            (s\<lparr>idleworker := idleworker s - 1, wrklist := r, nwork := nwork s - 1\<rparr>)))"

text \<open>The end of an iteration.\<close>

definition worker_done :: "world \<Rightarrow> nat \<Rightarrow> servbouncearg \<Rightarrow> srv \<Rightarrow> srv" where
  "worker_done w t b s = set_worker t WTop (spcrelease w (sba_spc b) s)"

text \<open>\<open>serv_handlesyscall\<close>, up to the system call and after it.\<close>

definition syscall_begin :: "world \<Rightarrow> nat \<Rightarrow> servbouncearg \<Rightarrow> srv \<Rightarrow> srv option" where
  "syscall_begin w t b s =
     (let i = sba_spc b;
          (rv, s) = lwproc_newlwp w (spc_pid (spclist s i)) s
      in if rv \<noteq> 0 then
           do { (_, s) \<leftarrow> send_syscall_resp w i (rsp_reqno (sba_hdr b)) rv (- 1, 0) s;
                Some (worker_done w t b s) }
         else
           Some (set_worker t (WSys b) (upd_spc i (\<lambda>c. c\<lparr>spc_syscallreq := rsp_reqno (sba_hdr b)\<rparr>) s)))"

text \<open>The system call is the kernel's: its result and the two values it returns are arguments.\<close>

definition syscall_end :: "world \<Rightarrow> nat \<Rightarrow> servbouncearg \<Rightarrow> int \<Rightarrow> int \<times> int \<Rightarrow> srv \<Rightarrow> srv option" where
  "syscall_end w t b rv retval s =
     (let i = sba_spc b;
          s = upd_spc i (\<lambda>c. c\<lparr>spc_syscallreq := 0\<rparr>) s;
          s = lwproc_release w s
      in do { (_, s) \<leftarrow> send_syscall_resp w i (rsp_reqno (sba_hdr b)) rv retval s;
              Some (worker_done w t b s) })"

text \<open>\<open>comm[commlen] = 0\<close>, with the string that results; \<open>None\<close>: there is no buffer.\<close>

definition terminate :: "bytes option \<Rightarrow> nat \<Rightarrow> srv \<Rightarrow> (bytes \<times> srv) option" where
  "terminate comm commlen s =
     do { b \<leftarrow> comm;
          Some (takeWhile (\<lambda>c. c \<noteq> 0) (take commlen b), if commlen < length b then s else s\<lparr>oob := Suc (oob s)\<rparr>) }"

definition serv_handleexec :: "world \<Rightarrow> nat \<Rightarrow> servbouncearg \<Rightarrow> srv \<Rightarrow> srv option" where
  "serv_handleexec w t b s =
     (let i = sba_spc b
      in if spc_refcnt (spclist s i) > 2 then Some (set_worker t (WExec b False) s)
         else
           do { (comm, s) \<leftarrow> terminate (sba_data b) (size_sub (rsp_len (sba_hdr b)) HDRSZ) s;
                let s = lwproc_switch w (spc_mainlwp (spclist s i)) s;
                let s = lwproc_execnotify w comm s;
                let s = lwproc_switch w 0 s;
                let s = upd_spc i (\<lambda>c. c\<lparr>spc_inexec := False\<rparr>) s;
                (_, s) \<leftarrow> send_handshake_resp w i (rsp_reqno (sba_hdr b)) 0 s;
                Some (worker_done w t b s) })"

section \<open>Requests of a system call\<close>

text \<open>The result of a request goes back to the kernel.\<close>

definition give :: "nat \<Rightarrow> int \<Rightarrow> bytes \<Rightarrow> srv \<Rightarrow> srv" where
  "give t rv data s = s\<lparr>log := log s @ [Ret t rv data]\<rparr>"

text \<open>\<open>sp_copyin\<close> and \<open>rumpuser_sp_anonmmap\<close> up to the wait.\<close>

definition sp_copyin :: "world \<Rightarrow> nat \<Rightarrow> servbouncearg \<Rightarrow> nat \<Rightarrow> nat \<Rightarrow> bool \<Rightarrow> srv \<Rightarrow> srv option" where
  "sp_copyin w t b raddr len wantstr s =
     (let (_, s) = ev w (Sys ''rumpkern_unsched'' []) s
      in do { (rv, s) \<leftarrow> copyin_req w (sba_spc b) t raddr len wantstr s;
              Some (if rv \<noteq> 0 then give t (errno_val EFAULT) [] (snd (ev w (Sys ''rumpkern_sched'' []) s))
                    else set_worker t (WAwait b (CopyIn len wantstr)) s) })"

definition rumpuser_sp_anonmmap :: "world \<Rightarrow> nat \<Rightarrow> servbouncearg \<Rightarrow> nat \<Rightarrow> srv \<Rightarrow> srv option" where
  "rumpuser_sp_anonmmap w t b howmuch s =
     (let (_, s) = ev w (Sys ''rumpkern_unsched'' []) s
      in do { (rv, s) \<leftarrow> anonmmap_req w (sba_spc b) t howmuch s;
              Some (if rv \<noteq> 0 then give t (errno_val EFAULT) [] (snd (ev w (Sys ''rumpkern_sched'' []) s))
                    else set_worker t (WAwait b AnonMmap) s) })"

text \<open>What they do with the answer; \<open>None\<close>: the copy reads past the answer.\<close>

definition answer :: "req \<Rightarrow> int \<Rightarrow> respwait \<Rightarrow> (int \<times> bytes) option" where
  "answer q rv rw =
     (if rv \<noteq> 0 then Some (errno_val EFAULT, [])
      else
        case q of
          CopyIn len wantstr \<Rightarrow>
            let len = (if wantstr then rw_dlen rw else len);
                rdata = (case rw_data rw of None \<Rightarrow> [] | Some d \<Rightarrow> d)
            in if len \<le> length rdata then Some (0, take len rdata) else None
        | AnonMmap \<Rightarrow>
            do { d \<leftarrow> rw_data rw;
                 if length d < 8 then None
                 else Some (if dec_le (take 8 d) = 0 then errno_val ENOMEM else 0, take 8 d) })"

definition req_end :: "world \<Rightarrow> nat \<Rightarrow> servbouncearg \<Rightarrow> req \<Rightarrow> srv \<Rightarrow> srv option" where
  "req_end w t b q s =
     (let (rv, s) = waitresp (sba_spc b) t s
      in do { (rv, data) \<leftarrow> answer q rv (waits s t);
              let (_, s) = ev w (Sys ''rumpkern_sched'' []) s;
              Some (set_worker t (WSys b) (give t rv data s)) })"

definition sp_copyout :: "world \<Rightarrow> nat \<Rightarrow> servbouncearg \<Rightarrow> bytes \<Rightarrow> nat \<Rightarrow> srv \<Rightarrow> srv option" where
  "sp_copyout w t b data raddr s =
     (let (_, s) = ev w (Sys ''rumpkern_unsched'' []) s
      in do { (rv, s) \<leftarrow> send_copyout_req w (sba_spc b) raddr data s;
              let (_, s) = ev w (Sys ''rumpkern_sched'' []) s;
              Some (give t (if rv \<noteq> 0 then errno_val EFAULT else 0) [] s) })"

definition rumpuser_sp_raise :: "world \<Rightarrow> nat \<Rightarrow> servbouncearg \<Rightarrow> int \<Rightarrow> srv \<Rightarrow> srv option" where
  "rumpuser_sp_raise w t b signo s =
     (let (_, s) = ev w (Sys ''rumpkern_unsched'' []) s
      in do { (rv, s) \<leftarrow> send_raise_req w (sba_spc b) signo s;
              let (_, s) = ev w (Sys ''rumpkern_sched'' []) s;
              Some (give t rv [] s) })"

section \<open>Requests of a client\<close>

text \<open>The allocation loop of \<open>schedulework\<close>, in which \<open>retries\<close> stays 0.\<close>

partial_function (option) sba_alloc :: "world \<Rightarrow> srv \<Rightarrow> (bool \<times> srv) option" where
  "sba_alloc w s =
     (if fst (ev w (Sys ''malloc'' []) s) \<noteq> 0 then Some (True, snd (ev w (Sys ''malloc'' []) s))
      else if nworker s = 0 then Some (False, snd (ev w (Sys ''malloc'' []) s))
      else sba_alloc w (snd (ev w (Sys ''usleep'' [10000]) (snd (ev w (Sys ''malloc'' []) s)))))"

declare sba_alloc.simps [code]

text \<open>A reference for the work, the queue, and a worker to do it.\<close>

definition queue_work :: "world \<Rightarrow> servbouncearg \<Rightarrow> srv \<Rightarrow> srv" where
  "queue_work w b s =
     (let s = spcref (sba_spc b) s;
          s = s\<lparr>wrklist := wrklist s @ [b], nwork := nwork s + 1\<rparr>
      in if nwork s \<le> idleworker s then s
         else if nworker s < MAXWORKER then
           let (r, s) = ev w (Sys ''pthread_create'' []) s
           in if r = 0 then s\<lparr>nworker := nworker s + 1, workers := workers s @ [WTop]\<rparr> else s
         else s)"

definition schedulework :: "world \<Rightarrow> nat \<Rightarrow> sbatype \<Rightarrow> srv \<Rightarrow> srv option" where
  "schedulework w i typ s =
     (let reqno = rsp_reqno (hdr i s)
      in do { (ok, s) \<leftarrow> sba_alloc w s;
              if \<not> ok then map_option (spcfreebuf i) (send_error_resp w i reqno RUMPSP_ERR_TRYAGAIN s)
              else
                let b = \<lparr>sba_spc = i, sba_hdr = hdr i s, sba_type = typ, sba_data = buf i s\<rparr>
                in Some (queue_work w b (spcresetbuf i s)) })"

definition RUMP_RFFD_SHARE :: int where [simp]: "RUMP_RFFD_SHARE = 0"
definition RUMP_RFFD_COPY :: int where [simp]: "RUMP_RFFD_COPY = 1"
definition RUMP_RFFD_CLEAR :: int where [simp]: "RUMP_RFFD_CLEAR = 2"

definition shutdown_spc :: "world \<Rightarrow> nat \<Rightarrow> srv \<Rightarrow> srv" where
  "shutdown_spc w i s = snd (ev w (Sys ''shutdown'' [spc_fd (spclist s i)]) s)"

text \<open>The common end of the handshakes.\<close>

definition handshake_done :: "world \<Rightarrow> nat \<Rightarrow> srv \<Rightarrow> srv" where
  "handshake_done w i s =
     (let (pid, s) = lwproc_getpid w s;
          s = upd_spc i (\<lambda>c. c\<lparr>spc_pid := pid\<rparr>) s;
          s = lwproc_switch w 0 s
      in upd_spc i (\<lambda>c. c\<lparr>spc_state := SPCSTATE_RUNNING\<rparr>) s)"

definition handshake_guest :: "world \<Rightarrow> nat \<Rightarrow> srv \<Rightarrow> srv option" where
  "handshake_guest w i s =
     do { (comm, s) \<leftarrow> terminate (buf i s) (size_sub (rsp_len (hdr i s)) HDRSZ) s;
          let (error, s) = lwproc_rfork w i RUMP_RFFD_CLEAR comm s;
          let s = (if error \<noteq> 0 then shutdown_spc w i s else s);
          let s = spcfreebuf i s;
          if error \<noteq> 0 then Some s
          else
            let (l, s) = lwproc_curlwp w s;
                s = upd_spc i (\<lambda>c. c\<lparr>spc_mainlwp := l\<rparr>) s
            in do { (_, s) \<leftarrow> send_handshake_resp w i (rsp_reqno (hdr i s)) 0 s;
                    Some (handshake_done w i s) } }"

definition handshake_fork :: "world \<Rightarrow> nat \<Rightarrow> srv \<Rightarrow> srv option" where
  "handshake_fork w i s =
     (let reqno = rsp_reqno (hdr i s)
      in if size_sub (spc_off (spc_rcv (spclist s i))) HDRSZ \<noteq> 20 then
           map_option (\<lambda>s. spcfreebuf i (shutdown_spc w i s)) (send_error_resp w i reqno RUMPSP_ERR_MALFORMED_REQUEST s)
         else
           do { rfp \<leftarrow> buf i s;
                let cancel = dec_le (take 4 (drop 16 rfp));
                let pf = find (\<lambda>pf. pf_auth pf = take 16 rfp) (preforks s);
                case pf of
                  None \<Rightarrow>
                    map_option (shutdown_spc w i) (send_error_resp w i reqno RUMPSP_ERR_INVALID_PREFORK (spcfreebuf i s))
                | Some pf \<Rightarrow>
                    let s = spcfreebuf i (s\<lparr>preforks := remove1 pf (preforks s)\<rparr>);
                        tmpmain = pf_lwp pf;
                        s = lwproc_switch w tmpmain s
                    in if cancel \<noteq> 0 then Some (shutdown_spc w i (lwproc_release w s))
                       else
                         let (error, s) = lwproc_rfork w i RUMP_RFFD_SHARE [] s
                         in if error \<noteq> 0 then
                              map_option (\<lambda>s. lwproc_release w (shutdown_spc w i s))
                                (send_error_resp w i reqno RUMPSP_ERR_RFORK_FAILED s)
                            else
                              let (l, s) = lwproc_curlwp w s;
                                  s = upd_spc i (\<lambda>c. c\<lparr>spc_mainlwp := l\<rparr>) s;
                                  s = lwproc_switch w tmpmain s;
                                  s = lwproc_release w s;
                                  s = lwproc_switch w (spc_mainlwp (spclist s i)) s
                              in do { (_, s) \<leftarrow> send_handshake_resp w i reqno 0 s;
                                      Some (handshake_done w i s) } })"

definition handle_prefork :: "world \<Rightarrow> nat \<Rightarrow> srv \<Rightarrow> srv option" where
  "handle_prefork w i s =
     (let reqno = rsp_reqno (hdr i s);
          s = spcfreebuf i s
      in if spc_inexec (spclist s i) then map_option (shutdown_spc w i) (send_error_resp w i reqno RUMPSP_ERR_INEXEC s)
         else
           let (p, s) = ev w (Sys ''malloc'' []) s
           in if p = 0 then send_error_resp w i reqno RUMPSP_ERR_NOMEM s
              else
                let s = lwproc_switch w (spc_mainlwp (spclist s i)) s;
                    (error, s) = lwproc_rfork w i RUMP_RFFD_COPY [] s
                in if error \<noteq> 0 then
                     map_option (lwproc_switch w 0) (send_error_resp w i reqno RUMPSP_ERR_RFORK_FAILED s)
                   else
                     let auth = w_rand w (log s);
                         (l, s) = lwproc_curlwp w s;
                         s = lwproc_switch w 0 s;
                         s = s\<lparr>preforks := \<lparr>pf_auth = auth, pf_lwp = l\<rparr> # preforks s\<rparr>
                     in map_option snd (send_prefork_resp w i reqno auth s))"

definition handle_exec :: "world \<Rightarrow> nat \<Rightarrow> srv \<Rightarrow> srv option" where
  "handle_exec w i s =
     (let reqno = rsp_reqno (hdr i s)
      in if rsp_u (hdr i s) \<noteq> HANDSHAKE_EXEC then
           map_option (\<lambda>s. spcfreebuf i (shutdown_spc w i s)) (send_error_resp w i reqno RUMPSP_ERR_MALFORMED_REQUEST s)
         else if spc_inexec (spclist s i) then
           map_option (\<lambda>s. spcfreebuf i (shutdown_spc w i s)) (send_error_resp w i reqno RUMPSP_ERR_INEXEC s)
         else
           let s = upd_spc i (\<lambda>c. c\<lparr>spc_inexec := True\<rparr>) s;
               s = lwproc_switch w (spc_mainlwp (spclist s i)) s;
               s = lwproc_lwpexit w s;
               s = lwproc_switch w 0 s
           in schedulework w i SBA_EXEC s)"

definition handlereq :: "world \<Rightarrow> nat \<Rightarrow> srv \<Rightarrow> srv option" where
  "handlereq w i s =
     (let reqno = rsp_reqno (hdr i s)
      in if spc_state (spclist s i) = SPCSTATE_NEW then
           (if rsp_type (hdr i s) \<noteq> RUMPSP_HANDSHAKE then
              map_option (\<lambda>s. spcfreebuf i (shutdown_spc w i s)) (send_error_resp w i reqno RUMPSP_ERR_AUTH s)
            else if rsp_u (hdr i s) = HANDSHAKE_GUEST then handshake_guest w i s
            else if rsp_u (hdr i s) = HANDSHAKE_FORK then handshake_fork w i s
            else map_option (\<lambda>s. spcfreebuf i (shutdown_spc w i s)) (send_error_resp w i reqno RUMPSP_ERR_AUTH s))
         else if rsp_type (hdr i s) = RUMPSP_PREFORK then handle_prefork w i s
         else if rsp_type (hdr i s) = RUMPSP_HANDSHAKE then handle_exec w i s
         else if rsp_type (hdr i s) \<noteq> RUMPSP_SYSCALL then
           map_option (spcfreebuf i) (send_error_resp w i reqno RUMPSP_ERR_MALFORMED_REQUEST s)
         else schedulework w i SBA_SYSCALL s)"

section \<open>The main loop\<close>

text \<open>\<open>spserver\<close>: the state before the loop, with the listening socket in slot 0.\<close>

definition init_spc :: spclient where
  "init_spc = zero_spc
     \<lparr>spc_fd = - 1, spc_refcnt = 0, spc_state = SPCSTATE_NEW, spc_mainlwp = 0, spc_pid = 0, spc_respwait = [],
      spc_rcv = \<lparr>spc_hdr = [], spc_buf = None, spc_off = 0\<rparr>, spc_nextreq = 0, spc_syscallreq = 0,
      spc_ostatus = SPCSTATUS_FREE, spc_istatus = SPCSTATUS_FREE, spc_inexec = False\<rparr>"

definition spserver_init :: "int \<Rightarrow> srv" where
  "spserver_init sock =
     \<lparr>spclist = (\<lambda>_. init_spc)(0 := init_spc\<lparr>spc_fd := sock\<rparr>), pfd = (\<lambda>_. - 1)(0 := sock), disco = 0, nfds = 1, maxidx = 0,
      wrklist = [], nwork = 0, nworker = 0, idleworker = 0, workers = [],
      waits = \<lambda>_. \<lparr>rw_reqno = 0, rw_data = None, rw_dlen = 0, rw_done = False, rw_error = 0\<rparr>, preforks = [], log = [], oob = 0\<rparr>"

text \<open>The highest slot up to \<open>m\<close> with a connection; \<open>m\<close> itself stays when there is none above 0.\<close>

fun top_slot :: "(nat \<Rightarrow> int) \<Rightarrow> nat \<Rightarrow> nat \<Rightarrow> nat" where
  "top_slot p m 0 = m"
| "top_slot p m (Suc i) = (if p (Suc i) \<noteq> - 1 then Suc i else top_slot p m i)"

definition server_gc :: "srv \<Rightarrow> srv" where
  "server_gc s =
     (let discoed = disco s
      in ((\<lambda>s. s\<lparr>nfds := nfds s - 1, maxidx := top_slot (pfd s) (maxidx s) (maxidx s)\<rparr>) ^^ discoed) (s\<lparr>disco := 0\<rparr>))"

text \<open>Activity at slot 0: a connection.\<close>

definition server_conn :: "world \<Rightarrow> srv \<Rightarrow> srv option" where
  "server_conn w s =
     do { (idx, s) \<leftarrow> serv_handleconn w (pfd s 0) (nfds s = int MAXCLI) s;
          let s = (if idx \<noteq> 0 then s\<lparr>nfds := nfds s + 1\<rparr> else s);
          Some (if idx > maxidx s then s\<lparr>maxidx := idx\<rparr> else s) }"

text \<open>A complete frame at slot \<open>i\<close>.\<close>

definition server_frame :: "world \<Rightarrow> nat \<Rightarrow> srv \<Rightarrow> srv option" where
  "server_frame w i s =
     (if rsp_class (hdr i s) = RUMPSP_RESP then Some (kickwaiter i s)
      else if rsp_class (hdr i s) = RUMPSP_REQ then handlereq w i s
      else map_option (spcfreebuf i) (send_error_resp w i (rsp_reqno (hdr i s)) RUMPSP_ERR_MALFORMED_REQUEST s))"

text \<open>Activity at another slot: what \<open>readframe\<close> made of the bytes of the socket \<open>sk\<close>.\<close>

definition server_read :: "world \<Rightarrow> (nat \<Rightarrow> bool) \<Rightarrow> sock \<Rightarrow> nat \<Rightarrow> srv \<Rightarrow> srv option" where
  "server_read w alloc sk i s =
     do { (r, c, sk) \<leftarrow> readframe alloc (spc_rcv (spclist s i)) sk;
          let s = upd_spc i (\<lambda>x. x\<lparr>spc_rcv := c\<rparr>) s;
          if r = 0 then Some s else if r = - 1 then Some (serv_handledisco w i s) else server_frame w i s }"

section \<open>Transitions\<close>

text \<open>
  The main thread collects disconnected clients, accepts connections and reads from connected
  clients; the workers run through their phases.  A system call makes requests and ends at any
  time, with any result.  A send is one transition, so that the send lock of a client is free between
  transitions; the broadcast of a contended send on \<open>spc_cv\<close>, which the wait of \<open>serv_handleexec\<close> shares,
  and a spurious wake-up are the last transition.
\<close>

inductive sp_step :: "srv \<Rightarrow> srv \<Rightarrow> bool" where
  gc: "sp_step s (server_gc s)"
| conn: "server_conn w s = Some s' \<Longrightarrow> sp_step s s'"
| read: "0 < i \<Longrightarrow> i < MAXCLI \<Longrightarrow> pfd s i \<noteq> - 1 \<Longrightarrow> server_read w alloc sk i s = Some s' \<Longrightarrow> sp_step s s'"
| top: "t < length (workers s) \<Longrightarrow> workers s ! t = WTop \<Longrightarrow> sp_step s (worker_top t s)"
| take: "t < length (workers s) \<Longrightarrow> workers s ! t = WIdle \<Longrightarrow> worker_take t s = Some s' \<Longrightarrow> sp_step s s'"
| sys_begin: "t < length (workers s) \<Longrightarrow> workers s ! t = WStart b \<Longrightarrow> syscall_begin w t b s = Some s' \<Longrightarrow> sp_step s s'"
| sys_end: "t < length (workers s) \<Longrightarrow> workers s ! t = WSys b \<Longrightarrow> syscall_end w t b rv retval s = Some s' \<Longrightarrow> sp_step s s'"
| copyin: "t < length (workers s) \<Longrightarrow> workers s ! t = WSys b \<Longrightarrow> sp_copyin w t b raddr len wantstr s = Some s' \<Longrightarrow> sp_step s s'"
| anonmmap: "t < length (workers s) \<Longrightarrow> workers s ! t = WSys b \<Longrightarrow> rumpuser_sp_anonmmap w t b howmuch s = Some s' \<Longrightarrow> sp_step s s'"
| copyout: "t < length (workers s) \<Longrightarrow> workers s ! t = WSys b \<Longrightarrow> sp_copyout w t b data raddr s = Some s' \<Longrightarrow> sp_step s s'"
| raise: "t < length (workers s) \<Longrightarrow> workers s ! t = WSys b \<Longrightarrow> rumpuser_sp_raise w t b signo s = Some s' \<Longrightarrow> sp_step s s'"
| resume: "t < length (workers s) \<Longrightarrow> workers s ! t = WAwait b q \<Longrightarrow> may_resume (sba_spc b) t s \<Longrightarrow>
    req_end w t b q s = Some s' \<Longrightarrow> sp_step s s'"
| exec: "t < length (workers s) \<Longrightarrow> workers s ! t = WExec b True \<Longrightarrow> serv_handleexec w t b s = Some s' \<Longrightarrow> sp_step s s'"
| wakeup: "t < length (workers s) \<Longrightarrow> workers s ! t = WExec b False \<Longrightarrow> sp_step s (set_worker t (WExec b True) s)"

text \<open>The states of a server on a listening socket, with the number of transitions.\<close>

inductive sp_reach :: "nat \<Rightarrow> srv \<Rightarrow> bool" where
  start: "sock \<noteq> - 1 \<Longrightarrow> sp_reach 0 (spserver_init sock)"
| step: "sp_reach n s \<Longrightarrow> sp_step s s' \<Longrightarrow> sp_reach (Suc n) s'"

section \<open>Entry points\<close>

definition rumpuser_sp_copyin :: "world \<Rightarrow> nat \<Rightarrow> servbouncearg \<Rightarrow> nat \<Rightarrow> nat \<Rightarrow> srv \<Rightarrow> srv option" where
  "rumpuser_sp_copyin w t b raddr len s = sp_copyin w t b raddr len False s"

definition rumpuser_sp_copyinstr :: "world \<Rightarrow> nat \<Rightarrow> servbouncearg \<Rightarrow> nat \<Rightarrow> nat \<Rightarrow> srv \<Rightarrow> srv option" where
  "rumpuser_sp_copyinstr w t b raddr len s = sp_copyin w t b raddr len True s"

definition rumpuser_sp_copyout :: "world \<Rightarrow> nat \<Rightarrow> servbouncearg \<Rightarrow> bytes \<Rightarrow> nat \<Rightarrow> srv \<Rightarrow> srv option" where
  "rumpuser_sp_copyout w t b data raddr s = sp_copyout w t b data raddr s"

definition rumpuser_sp_copyoutstr :: "world \<Rightarrow> nat \<Rightarrow> servbouncearg \<Rightarrow> bytes \<Rightarrow> nat \<Rightarrow> srv \<Rightarrow> srv option" where
  "rumpuser_sp_copyoutstr w t b data raddr s = sp_copyout w t b data raddr s"

text \<open>
  Starting the server: the calls made, the banner, what \<open>rumpuser_sp_fini\<close> cleans up, and the
  listening socket of the server thread once it runs.
\<close>

record sp_boot =
  boot_log :: "sp_ev list"
  banner :: string
  cleanup :: "(nat \<times> sockaddr option) option"
  serving :: "int option"

definition boot_ev :: "world \<Rightarrow> sp_ev \<Rightarrow> sp_boot \<Rightarrow> int \<times> sp_boot" where
  "boot_ev w e s = (w_int w (boot_log s) e, s\<lparr>boot_log := boot_log s @ [e]\<rparr>)"

definition boot_errno :: "world \<Rightarrow> sp_boot \<Rightarrow> int \<times> sp_boot" where
  "boot_errno w s = boot_ev w (Sys ''errno'' []) s"

definition sp_banner :: "string \<Rightarrow> string \<Rightarrow> string \<Rightarrow> string" where
  "sp_banner ostype osrelease machine =
     take 95 (''RUMPSP-0.4-'' @ ostype @ ''-'' @ osrelease @ ''/'' @ machine @ [CHR 0x0A])"

text \<open>From the bound socket on.\<close>

definition sp_listen :: "world \<Rightarrow> int \<Rightarrow> sp_boot \<Rightarrow> int \<times> sp_boot" where
  "sp_listen w sock s =
     (let (r, s) = boot_ev w (Sys ''bind'' [sock]) s
      in if r = - 1 then boot_errno w s
         else
           let (r, s) = boot_ev w (Sys ''listen'' [sock, int MAXCLI]) s
           in if r = - 1 then boot_errno w s
              else
                let (error, s) = boot_ev w (Sys ''pthread_create'' []) s
                in if error \<noteq> 0 then (error, s)
                   else (0, snd (boot_ev w (Sys ''pthread_detach'' []) (s\<lparr>serving := Some sock\<rparr>))))"

definition rumpuser_sp_init ::
  "world \<Rightarrow> url_host \<Rightarrow> string \<Rightarrow> string \<Rightarrow> string \<Rightarrow> string \<Rightarrow> sp_boot \<Rightarrow> (int \<times> sp_boot) option" where
  "rumpuser_sp_init w H url ostype osrelease machine s =
     (let (p, s) = boot_ev w (Sys ''strdup'' []) s
      in if p = 0 then Some (errno_val ENOMEM, s)
         else
           do { (error, sap, idx, _) \<leftarrow> parseurl H [] url True;
                case idx of
                  None \<Rightarrow> Some (error, s)
                | Some idx \<Rightarrow>
                    let s = s\<lparr>banner := sp_banner ostype osrelease machine\<rparr>;
                        (sock, s) = boot_ev w (Sys ''socket'' [int (fst (snd (parsetab ! idx)))]) s
                    in Some
                         (if sock = - 1 then boot_errno w s
                          else
                            let (sarg, s) = boot_ev w (Sys ''malloc'' []) s
                            in if sarg = 0 then (errno_val ENOMEM, snd (boot_ev w (Sys ''close'' [sock]) s))
                               else sp_listen w sock (s\<lparr>cleanup := Some (idx, sap)\<rparr>)) })"

text \<open>\<open>rumpuser_sp_fini\<close>, on behalf of the client of a slot or of none; the second component is \<open>spfini\<close>.\<close>

definition sp_cleanup :: "world \<Rightarrow> (nat \<times> sockaddr option) option \<Rightarrow> srv \<Rightarrow> srv" where
  "sp_cleanup w cl s =
     (case cl of
        Some (idx, Some sa) \<Rightarrow>
          if idx = 1 \<and> unix_cleanup sa \<noteq> None then snd (ev w (Sys ''unlink'' []) s) else s
      | _ \<Rightarrow> s)"

definition rumpuser_sp_fini :: "world \<Rightarrow> (nat \<times> sockaddr option) option \<Rightarrow> nat option \<Rightarrow> srv \<Rightarrow> (bool \<times> srv) option" where
  "rumpuser_sp_fini w cl spc s =
     (let (_, s) = ev w (Sys ''rumpkern_unsched'' []) s;
          (_, s) = lwproc_newlwp w 1 s;
          s = (if spc_fd (spclist s 0) \<noteq> 0 then sp_cleanup w cl s else s)
      in do { s \<leftarrow> (case spc of
                     None \<Rightarrow> Some s
                   | Some i \<Rightarrow>
                       if spc_syscallreq (spclist s i) = 0 then Some s
                       else map_option snd (send_syscall_resp w i (spc_syscallreq (spclist s i)) 0 (0, 0) s));
              Some (if spc_fd (spclist s 0) \<noteq> 0 then (True, shutdown_spc w 0 s) else (False, s)) })"

end
