(* ===== verification/Sp_Server_Inv.thy ===== *)
theory Sp_Server_Inv
  imports Sp_Server
begin

text \<open>
  The invariant of the proxy server: reference counts, the life of a slot, who waits for answers,
  the counters of the worker pool and of the slots in use.  Most of what the server does changes
  none of this; \<open>core\<close> hides the rest of the state, so that a transition is a few changes of the core.
\<close>

section \<open>Counting\<close>

definition cnt :: "('a \<Rightarrow> bool) \<Rightarrow> 'a list \<Rightarrow> int" where
  "cnt P xs = int (length (filter P xs))"

lemma cnt_simps [simp]:
  "cnt P [] = 0"
  "cnt P (x # xs) = of_bool (P x) + cnt P xs"
  "cnt P (xs @ ys) = cnt P xs + cnt P ys"
  by (auto simp: cnt_def)

lemma cnt_update [simp]: "t < length xs \<Longrightarrow> cnt P (xs[t := x]) = cnt P xs - of_bool (P (xs ! t)) + of_bool (P x)"
proof (induction xs arbitrary: t)
  case (Cons y ys)
  then show ?case by (cases t) auto
qed simp

lemma cnt_map [simp]: "cnt P (map f xs) = cnt (\<lambda>x. P (f x)) xs"
  by (induction xs) auto

lemma cnt_ge_0 [simp]: "0 \<le> cnt P xs"
  by (simp add: cnt_def)

lemma cnt_0: "cnt P xs = 0 \<longleftrightarrow> (\<forall>x \<in> set xs. \<not> P x)"
  by (auto simp: cnt_def filter_empty_conv)

lemma cnt_nth: "t < length xs \<Longrightarrow> P (xs ! t) \<Longrightarrow> 1 \<le> cnt P xs"
proof (induction xs arbitrary: t)
  case (Cons y ys)
  then show ?case by (cases t) (auto intro: order_trans)
qed simp

section \<open>The core of a state\<close>

definition core_spc :: "spclient \<Rightarrow> spclient" where
  "core_spc c = (zero_spc c)\<lparr>spc_ostatus := spc_ostatus c, spc_mainlwp := 0, spc_pid := 0\<rparr>"

fun calm :: "wphase \<Rightarrow> wphase" where
  "calm (WExec b r) = WExec b True"
| "calm p = p"

definition core :: "srv \<Rightarrow> srv" where
  "core s = s\<lparr>spclist := core_spc \<circ> spclist s, workers := map calm (workers s),
     waits := \<lambda>_. \<lparr>rw_reqno = 0, rw_data = None, rw_dlen = 0, rw_done = False, rw_error = 0\<rparr>, preforks := [], log := [], oob := 0\<rparr>"

lemma core_spc_sel [simp]:
  "spc_fd (core_spc c) = spc_fd c" "spc_refcnt (core_spc c) = spc_refcnt c" "spc_state (core_spc c) = spc_state c"
  "spc_respwait (core_spc c) = spc_respwait c" "spc_ostatus (core_spc c) = spc_ostatus c"
  by (simp_all add: core_spc_def zero_spc_def)

lemma core_sel [simp]:
  "spclist (core s) i = core_spc (spclist s i)" "pfd (core s) = pfd s" "disco (core s) = disco s" "nfds (core s) = nfds s"
  "maxidx (core s) = maxidx s" "wrklist (core s) = wrklist s" "nwork (core s) = nwork s" "nworker (core s) = nworker s"
  "idleworker (core s) = idleworker s" "workers (core s) = map calm (workers s)"
  by (simp_all add: core_def)

lemma core_log [simp]: "core (s\<lparr>log := l\<rparr>) = core s" "core (s\<lparr>oob := n\<rparr>) = core s" "core (s\<lparr>preforks := p\<rparr>) = core s"
    "core (s\<lparr>waits := x\<rparr>) = core s"
  by (simp_all add: core_def)

lemma core_upd: "core_spc (f (spclist s i)) = core_spc (spclist s i) \<Longrightarrow> core (upd_spc i f s) = core s"
  by (auto simp: core_def upd_spc_def fun_eq_iff intro!: arg_cong [where f = "\<lambda>x. spclist_update x _"])

lemma core_ev [simp]: "core (snd (ev w e s)) = core s"
  by (simp add: ev_def)

lemma calm_wake [simp]: "calm (wake_exec i p) = calm p"
  by (cases p) auto

lemma core_broadcast [simp]: "core (broadcast i s) = core s"
  by (simp add: core_def broadcast_def comp_def)

lemma core_lwproc [simp]: "core (snd (lwproc w f a b s)) = core s"
  by (simp add: lwproc_def ev_def)

lemma core_lwproc_ops [simp]:
  "core (lwproc_switch w l s) = core s" "core (lwproc_release w s) = core s" "core (lwproc_execnotify w c s) = core s"
  "core (lwproc_lwpexit w s) = core s" "core (snd (lwproc_rfork w i fl c s)) = core s" "core (snd (lwproc_newlwp w pid s)) = core s"
  "core (snd (lwproc_curlwp w s)) = core s" "core (snd (lwproc_getpid w s)) = core s"
  by (simp_all add: lwproc_switch_def lwproc_release_def lwproc_execnotify_def lwproc_lwpexit_def lwproc_rfork_def
      lwproc_newlwp_def lwproc_curlwp_def lwproc_getpid_def)

lemma core_resetbuf [simp]: "core (spcresetbuf i s) = core s" "core (spcfreebuf i s) = core s"
  by (simp_all add: spcfreebuf_def spcresetbuf_def core_upd core_spc_def zero_spc_def)

lemma core_shutdown_spc [simp]: "core (shutdown_spc w i s) = core s"
  by (simp add: shutdown_spc_def)

lemma core_give [simp]: "core (give t rv d s) = core s"
  by (simp add: give_def)

lemma core_cong_sel:
  assumes "core s = core s'"
  shows "spc_ostatus (spclist s i) = spc_ostatus (spclist s' i)" "spc_state (spclist s i) = spc_state (spclist s' i)"
    "spc_refcnt (spclist s i) = spc_refcnt (spclist s' i)"
  using arg_cong [OF assms, of "\<lambda>s. spc_ostatus (spclist s i)"] arg_cong [OF assms, of "\<lambda>s. spc_state (spclist s i)"]
    arg_cong [OF assms, of "\<lambda>s. spc_refcnt (spclist s i)"] by simp_all

lemma upd_spc_same [simp]: "spclist (upd_spc i f s) i = f (spclist s i)"
  by (simp add: upd_spc_def)

lemma upd_spc_other: "j \<noteq> i \<Longrightarrow> spclist (upd_spc i f s) j = spclist s j"
  by (simp add: upd_spc_def)

lemma upd_spc_twice: "upd_spc i f (upd_spc i g s) = upd_spc i (f \<circ> g) s"
  by (simp add: upd_spc_def comp_def)

lemma core_sendlock:
  "sendlockl i s = Some s' \<Longrightarrow> core s = core s0 \<Longrightarrow>
   spc_ostatus (spclist s i) = SPCSTATUS_FREE \<and> core s' = core (upd_spc i (\<lambda>c. c\<lparr>spc_ostatus := SPCSTATUS_BUSY\<rparr>) s)"
  by (auto simp: sendlockl_def split: if_splits)

lemma core_send_locked: "send_locked w i iov s = Some (rv, s') \<Longrightarrow> core s' = core s"
proof -
  assume "send_locked w i iov s = Some (rv, s')"
  then have "spc_ostatus (spclist s i) = SPCSTATUS_FREE" and
    "s' = upd_spc i (\<lambda>c. c\<lparr>spc_ostatus := SPCSTATUS_FREE\<rparr>) (s\<lparr>log := log s @ [Tx i iov],
        spclist := (spclist s)(i := spclist s i\<lparr>spc_ostatus := SPCSTATUS_BUSY\<rparr>)\<rparr>)"
    by (auto simp: send_locked_def sendlockl_def sendunlockl_def ev_def upd_spc_def split: if_splits)
  then show ?thesis by (auto simp: core_def upd_spc_def core_spc_def zero_spc_def fun_eq_iff)
qed

lemma core_send_error: "send_error_resp w i n e s = Some s' \<Longrightarrow> core s' = core s"
  by (auto simp: send_error_resp_def dest: core_send_locked)

lemmas core_sends = core_send_error
  core_send_locked [where iov = "[mk_hdr (HDRSZ + 4) n RUMPSP_RESP RUMPSP_HANDSHAKE 0, IInt e]" for n e, folded send_handshake_resp_def]
  core_send_locked [where iov = "[mk_hdr (HDRSZ + 24) n RUMPSP_RESP RUMPSP_SYSCALL 0, ISys e (fst r) (snd r)]" for n e r, folded send_syscall_resp_def]
  core_send_locked [where iov = "[mk_hdr (HDRSZ + 16) n RUMPSP_RESP RUMPSP_PREFORK 0, IAuth a]" for n a, folded send_prefork_resp_def]

section \<open>The invariant\<close>

fun work :: "wphase \<Rightarrow> servbouncearg option" where
  "work (WStart b) = Some b"
| "work (WSys b) = Some b"
| "work (WAwait b q) = Some b"
| "work (WExec b r) = Some b"
| "work p = None"

definition holds :: "nat \<Rightarrow> wphase \<Rightarrow> bool" where
  "holds i p \<longleftrightarrow> (case work p of None \<Rightarrow> False | Some b \<Rightarrow> sba_spc b = i)"

fun waiting :: "nat \<Rightarrow> wphase \<Rightarrow> bool" where
  "waiting i (WAwait b q) \<longleftrightarrow> sba_spc b = i"
| "waiting i p \<longleftrightarrow> False"

text \<open>The pieces of work for a client, queued and running, and the workers that wait for its answers.\<close>

definition jobs :: "nat \<Rightarrow> srv \<Rightarrow> int" where
  "jobs i s = cnt (\<lambda>b. sba_spc b = i) (wrklist s) + cnt (holds i) (workers s)"

definition waiters :: "nat \<Rightarrow> srv \<Rightarrow> nat set" where
  "waiters i s = {t. t < length (workers s) \<and> waiting i (workers s ! t)}"

text \<open>
  A slot with the descriptor \<open>p\<close> in the poll list, \<open>n\<close> pieces of work and the waiting workers
  \<open>W\<close>: one reference for the connection and one for each piece of work; a connected slot has its
  descriptor and is not dying; a slot without connection is free, or dying as long as there is work
  for it; there is no work before the handshake; every waiting worker is queued once.
\<close>

definition slot_ok :: "int \<Rightarrow> spclient \<Rightarrow> int \<Rightarrow> nat set \<Rightarrow> bool" where
  "slot_ok p c n W \<longleftrightarrow>
     spc_refcnt c = of_bool (p \<noteq> - 1) + n \<and>
     (p \<noteq> - 1 \<longrightarrow> spc_fd c = p \<and> spc_state c \<noteq> SPCSTATE_DYING) \<and>
     (p = - 1 \<and> n = 0 \<longrightarrow> spc_fd c = - 1 \<and> spc_state c = SPCSTATE_NEW) \<and>
     (p = - 1 \<and> n \<noteq> 0 \<longrightarrow> spc_fd c \<noteq> - 1 \<and> spc_state c = SPCSTATE_DYING) \<and>
     (n = 0 \<or> spc_state c \<noteq> SPCSTATE_NEW) \<and>
     spc_ostatus c = SPCSTATUS_FREE \<and>
     distinct (spc_respwait c) \<and> set (spc_respwait c) = W"

definition slots :: "nat set" where
  "slots = {1..<MAXCLI}"

definition used :: "srv \<Rightarrow> nat set" where
  "used s = {i \<in> slots. spc_refcnt (spclist s i) \<noteq> 0}"

definition work_ok :: "srv \<Rightarrow> bool" where
  "work_ok s \<longleftrightarrow>
     (\<forall>b \<in> set (wrklist s). sba_spc b \<in> slots) \<and> (\<forall>p \<in> set (workers s). \<forall>b. work p = Some b \<longrightarrow> sba_spc b \<in> slots)"

definition pool_ok :: "srv \<Rightarrow> bool" where
  "pool_ok s \<longleftrightarrow>
     nwork s = int (length (wrklist s)) \<and> idleworker s = cnt (\<lambda>p. p = WIdle) (workers s) \<and>
     nworker s = cnt (\<lambda>p. p \<noteq> WNone) (workers s) \<and> nworker s \<le> MAXWORKER"

definition poll_ok :: "srv \<Rightarrow> bool" where
  "poll_ok s \<longleftrightarrow>
     pfd s 0 \<noteq> - 1 \<and> maxidx s < MAXCLI \<and> (\<forall>i < MAXCLI. pfd s i \<noteq> - 1 \<longrightarrow> i \<le> maxidx s)"

definition sp_inv :: "srv \<Rightarrow> bool" where
  "sp_inv s \<longleftrightarrow>
     (\<forall>i \<in> slots. slot_ok (pfd s i) (spclist s i) (jobs i s) (waiters i s)) \<and> work_ok s \<and> pool_ok s \<and> poll_ok s \<and>
     nfds s = 1 + int (card (used s)) + int (disco s) \<and> nfds s \<le> int MAXCLI"

subsection \<open>It depends on the core only\<close>

lemma calm_view [simp]:
  "work (calm p) = Some b \<longleftrightarrow> work p = Some b" "holds i (calm p) = holds i p" "waiting i (calm p) = waiting i p"
  "calm p = WIdle \<longleftrightarrow> p = WIdle" "calm p = WNone \<longleftrightarrow> p = WNone"
  by (cases p; simp add: holds_def)+

lemma jobs_core [simp]: "jobs i (core s) = jobs i s"
  by (simp add: jobs_def)

lemma waiters_core [simp]: "waiters i (core s) = waiters i s"
  by (auto simp: waiters_def)

lemma slot_ok_core [simp]: "slot_ok p (core_spc c) n W = slot_ok p c n W"
  by (simp add: slot_ok_def)

lemma sp_inv_core [simp]: "sp_inv (core s) = sp_inv s"
  by (simp add: sp_inv_def work_ok_def pool_ok_def poll_ok_def used_def)

lemma sp_inv_cong: "core s = core s' \<Longrightarrow> sp_inv s \<Longrightarrow> sp_inv s'"
  by (metis sp_inv_core)

lemma sp_inv_slot: "sp_inv s \<Longrightarrow> i \<in> slots \<Longrightarrow> slot_ok (pfd s i) (spclist s i) (jobs i s) (waiters i s)"
  by (simp add: sp_inv_def)

lemma jobs_ge_0: "0 \<le> jobs i s"
  by (simp add: jobs_def)

lemma finite_used [simp]: "finite (used s)"
  by (simp add: used_def slots_def)

lemma holds_simps [simp]:
  "\<not> holds i WNone" "\<not> holds i WTop" "\<not> holds i WIdle" "holds i (WStart b) \<longleftrightarrow> sba_spc b = i" "holds i (WSys b) \<longleftrightarrow> sba_spc b = i"
  "holds i (WAwait b q) \<longleftrightarrow> sba_spc b = i" "holds i (WExec b r) \<longleftrightarrow> sba_spc b = i"
  by (simp_all add: holds_def)

section \<open>Start\<close>

lemma sp_inv_init: "sock \<noteq> - 1 \<Longrightarrow> sp_inv (spserver_init sock)"
proof -
  have "used (spserver_init sock) = {}" by (auto simp: used_def spserver_init_def slots_def init_spc_def zero_spc_def)
  moreover assume "sock \<noteq> - 1"
  ultimately show ?thesis
    by (auto simp: sp_inv_def slot_ok_def jobs_def waiters_def work_ok_def pool_ok_def poll_ok_def MAXCLI_def MAXWORKER_def slots_def
        spserver_init_def init_spc_def zero_spc_def)
qed

section \<open>Releasing a client\<close>

lemma spclist_quiet [simp]:
  "spclist (snd (ev w e s)) = spclist s" "spclist (broadcast i s) = spclist s"
  "spclist (lwproc_switch w l s) = spclist s" "spclist (lwproc_release w s) = spclist s" "spclist (lwproc_execnotify w c s) = spclist s"
  "spclist (lwproc_lwpexit w s) = spclist s" "spclist (snd (lwproc_rfork w i fl c s)) = spclist s"
  "spclist (snd (lwproc_newlwp w pid s)) = spclist s"
  "spclist (snd (lwproc_curlwp w s)) = spclist s" "spclist (snd (lwproc_getpid w s)) = spclist s"
  by (simp_all add: ev_def broadcast_def lwproc_def lwproc_switch_def lwproc_release_def lwproc_execnotify_def lwproc_lwpexit_def
      lwproc_rfork_def lwproc_newlwp_def lwproc_curlwp_def lwproc_getpid_def)

lemma core_upd_eq: "core (upd_spc i f s) = (core s)\<lparr>spclist := (spclist (core s))(i := core_spc (f (spclist s i)))\<rparr>"
  by (auto simp: core_def upd_spc_def fun_eq_iff intro!: arg_cong [where f = "\<lambda>x. spclist_update x _"])

lemma core_disco [simp]: "core (s\<lparr>disco := d\<rparr>) = (core s)\<lparr>disco := d\<rparr>"
  by (simp add: core_def)

lemma disco_quiet [simp]:
  "disco (snd (ev w e s)) = disco s" "disco (broadcast i s) = disco s" "disco (lwproc_switch w l s) = disco s"
  "disco (lwproc_release w s) = disco s" "disco (upd_spc i f s) = disco s"
  by (simp_all add: ev_def broadcast_def lwproc_def lwproc_switch_def lwproc_release_def upd_spc_def)

lemma core_release:
  "core (spcrelease w i s) =
     (if spc_refcnt (spclist s i) > 1 then core (upd_spc i (\<lambda>c. c\<lparr>spc_refcnt := spc_refcnt c - 1\<rparr>) s)
      else core ((upd_spc i (\<lambda>c. c\<lparr>spc_refcnt := spc_refcnt c - 1, spc_fd := - 1, spc_state := SPCSTATE_NEW\<rparr>) s)
             \<lparr>disco := (disco s + 1) mod 2 ^ 32\<rparr>))"
proof (cases "spc_refcnt (spclist s i) > 1")
  case True
  then show ?thesis by (simp add: spcrelease_def Let_def core_upd_eq)
next
  case False
  define s1 where "s1 = upd_spc i (\<lambda>c. c\<lparr>spc_refcnt := spc_refcnt (spclist s i) - 1\<rparr>) s"
  define s2 where "s2 = (if spc_inexec (spclist s i) then broadcast i s1 else s1)"
  define s3 where "s3 = (if spc_mainlwp (spclist s i) \<noteq> 0 then lwproc_release w (lwproc_switch w (spc_mainlwp (spclist s i)) s2) else s2)"
  have c: "core s3 = core s1" "disco s3 = disco s" "spclist s3 i = (spclist s i)\<lparr>spc_refcnt := spc_refcnt (spclist s i) - 1\<rparr>"
    by (auto simp: s3_def s2_def s1_def)
  have "\<exists>fd. spcrelease w i s = (upd_spc i (\<lambda>c. c\<lparr>spc_fd := - 1, spc_state := SPCSTATE_NEW\<rparr>)
      (snd (ev w (Sys ''close'' [fd]) (upd_spc i (\<lambda>c. c\<lparr>spc_mainlwp := 0\<rparr>) s3))))\<lparr>disco := (disco s + 1) mod 2 ^ 32\<rparr>"
    using False by (auto simp: spcrelease_def Let_def s3_def s2_def s1_def split_beta)
  then obtain fd where "spcrelease w i s = (upd_spc i (\<lambda>c. c\<lparr>spc_fd := - 1, spc_state := SPCSTATE_NEW\<rparr>)
      (snd (ev w (Sys ''close'' [fd]) (upd_spc i (\<lambda>c. c\<lparr>spc_mainlwp := 0\<rparr>) s3))))\<lparr>disco := (disco s + 1) mod 2 ^ 32\<rparr>" ..
  with False c show ?thesis
    by (simp add: core_upd_eq s1_def) (simp add: core_spc_def zero_spc_def)
qed

section \<open>Changes of one slot\<close>

lemma sp_inv_change:
  assumes "sp_inv s"
    and "\<And>j. j \<in> slots \<Longrightarrow> j \<noteq> i \<Longrightarrow> spclist s' j = spclist s j \<and> pfd s' j = pfd s j \<and> jobs j s' = jobs j s \<and> waiters j s' = waiters j s"
    and "i \<in> slots \<Longrightarrow> slot_ok (pfd s' i) (spclist s' i) (jobs i s') (waiters i s')"
    and "work_ok s'" and "pool_ok s'" and "poll_ok s'"
    and "nfds s' = 1 + int (card (used s')) + int (disco s')" and "nfds s' \<le> int MAXCLI"
  shows "sp_inv s'"
proof -
  have "slot_ok (pfd s' j) (spclist s' j) (jobs j s') (waiters j s')" if "j \<in> slots" for j
    using assms(2) [OF that] assms(3) sp_inv_slot [OF assms(1) that] that by (cases "j = i") auto
  then show ?thesis using assms(4-8) unfolding sp_inv_def by blast
qed

lemma core_set_worker [simp]: "core (set_worker t p s) = set_worker t (calm p) (core s)"
  by (simp add: core_def set_worker_def map_update)

lemma set_worker_sel [simp]:
  "spclist (set_worker t p s) = spclist s" "pfd (set_worker t p s) = pfd s" "disco (set_worker t p s) = disco s"
  "nfds (set_worker t p s) = nfds s" "maxidx (set_worker t p s) = maxidx s" "wrklist (set_worker t p s) = wrklist s"
  "nwork (set_worker t p s) = nwork s" "nworker (set_worker t p s) = nworker s" "idleworker (set_worker t p s) = idleworker s"
  "workers (set_worker t p s) = (workers s)[t := p]"
  by (simp_all add: set_worker_def)

lemma upd_spc_sel [simp]:
  "pfd (upd_spc i f s) = pfd s" "nfds (upd_spc i f s) = nfds s" "maxidx (upd_spc i f s) = maxidx s" "wrklist (upd_spc i f s) = wrklist s"
  "nwork (upd_spc i f s) = nwork s" "nworker (upd_spc i f s) = nworker s" "idleworker (upd_spc i f s) = idleworker s"
  "workers (upd_spc i f s) = workers s" "waits (upd_spc i f s) = waits s"
  by (simp_all add: upd_spc_def)

lemma spclist_upd: "spclist (upd_spc i f s) j = (if j = i then f (spclist s i) else spclist s j)"
  by (simp add: upd_spc_def)

lemma waiters_set_worker:
  "t < length (workers s) \<Longrightarrow>
   waiters j (set_worker t p s) = (if waiting j p then insert t (waiters j s) else waiters j s - {t})"
  by (auto simp: waiters_def nth_list_update)

lemma jobs_set_worker:
  "t < length (workers s) \<Longrightarrow>
   jobs j (set_worker t p s) = jobs j s - of_bool (holds j (workers s ! t)) + of_bool (holds j p)"
  by (simp add: jobs_def)

lemma jobs_upd [simp]: "jobs j (upd_spc i f s) = jobs j s" "jobs j (s\<lparr>disco := d\<rparr>) = jobs j s"
  by (simp_all add: jobs_def)

lemma waiters_upd [simp]: "waiters j (upd_spc i f s) = waiters j s" "waiters j (s\<lparr>disco := d\<rparr>) = waiters j s"
  by (simp_all add: waiters_def)

lemma used_upd:
  "i \<in> slots \<Longrightarrow> used (upd_spc i f s) = (if spc_refcnt (f (spclist s i)) = 0 then used s - {i} else insert i (used s))"
  by (auto simp: used_def spclist_upd)

lemma used_set_worker [simp]: "used (set_worker t p s) = used s" "used (s\<lparr>disco := d\<rparr>) = used s"
  by (simp_all add: used_def)

lemma card_used_remove: "i \<in> used s \<Longrightarrow> int (card (used s - {i})) = int (card (used s)) - 1"
  using card_Suc_Diff1 [of "used s" i] by simp

lemma waiters_not: "\<not> waiting j (workers s ! t) \<Longrightarrow> t \<notin> waiters j s"
  by (simp add: waiters_def)

lemma jobs_pos: "t < length (workers s) \<Longrightarrow> work (workers s ! t) = Some b \<Longrightarrow> 1 \<le> jobs (sba_spc b) s"
  using cnt_nth [of t "workers s" "holds (sba_spc b)"] by (simp add: jobs_def holds_def add_increasing)

lemma work_slot: "sp_inv s \<Longrightarrow> t < length (workers s) \<Longrightarrow> work (workers s ! t) = Some b \<Longrightarrow> sba_spc b \<in> slots"
  by (auto simp: sp_inv_def work_ok_def)

lemma work_ok_set_worker:
  assumes "work_ok s" and "\<And>b. work p = Some b \<Longrightarrow> sba_spc b \<in> slots"
  shows "work_ok (set_worker t p s)"
  using assms set_update_subset_insert [of "workers s" t p] by (auto simp: work_ok_def)

lemma pool_ok_set_worker:
  assumes "pool_ok s" and "t < length (workers s)" and "workers s ! t \<notin> {WIdle, WNone}" and "p \<notin> {WIdle, WNone}"
  shows "pool_ok (set_worker t p s)"
  using assms by (auto simp: pool_ok_def)

lemma sba_slot_work:
  assumes "sp_inv s" and "t < length (workers s)" and "work (workers s ! t) = Some b"
  shows "slot_ok (pfd s (sba_spc b)) (spclist s (sba_spc b)) (jobs (sba_spc b) s) (waiters (sba_spc b) s)"
    and "sba_spc b \<in> slots" and "1 \<le> jobs (sba_spc b) s" and "workers s ! t \<notin> {WIdle, WNone}"
  using assms work_slot [OF assms] jobs_pos [OF assms(2,3)] sp_inv_slot by auto

lemma worker_done_core:
  assumes "sp_inv s" and "t < length (workers s)" and "work (workers s ! t) = Some b"
  shows "core (worker_done w t b s) = core (set_worker t WTop
    (if spc_refcnt (spclist s (sba_spc b)) > 1 then upd_spc (sba_spc b) (\<lambda>c. c\<lparr>spc_refcnt := spc_refcnt c - 1\<rparr>) s
     else (upd_spc (sba_spc b) (\<lambda>c. c\<lparr>spc_refcnt := spc_refcnt c - 1, spc_fd := - 1, spc_state := SPCSTATE_NEW\<rparr>) s)
       \<lparr>disco := disco s + 1\<rparr>))"
proof -
  have "disco s < 256" using assms(1) by (simp add: sp_inv_def MAXCLI_def)
  then show ?thesis by (simp add: worker_done_def core_release del: core_disco)
qed

lemma inv_worker_done:
  assumes inv: "sp_inv s" and t: "t < length (workers s)" "work (workers s ! t) = Some b" "\<not> waiting (sba_spc b) (workers s ! t)"
  shows "sp_inv (worker_done w t b s)"
proof -
  let ?i = "sba_spc b"
  note slot = sba_slot_work [OF inv t(1,2)]
  have jb: "jobs j (set_worker t WTop s) = jobs j s - of_bool (j = ?i)" for j
    using t by (auto simp: jobs_set_worker holds_def)
  have wt: "waiters j (set_worker t WTop s) = waiters j s" for j
    using t by (cases "workers s ! t") (auto simp: waiters_set_worker waiters_not)
  have pool: "pool_ok (set_worker t WTop s)" and wk: "work_ok (set_worker t WTop s)"
    using inv t slot(4) by (auto simp: sp_inv_def intro: pool_ok_set_worker work_ok_set_worker)
  have ref: "spc_refcnt (spclist s ?i) \<ge> 1" using slot(1,3) by (simp add: slot_ok_def)
  then have iu: "?i \<in> used s" using slot(2) by (simp add: used_def)
  have "sp_inv (set_worker t WTop
    (if spc_refcnt (spclist s ?i) > 1 then upd_spc ?i (\<lambda>c. c\<lparr>spc_refcnt := spc_refcnt c - 1\<rparr>) s
     else (upd_spc ?i (\<lambda>c. c\<lparr>spc_refcnt := spc_refcnt c - 1, spc_fd := - 1, spc_state := SPCSTATE_NEW\<rparr>) s)
       \<lparr>disco := disco s + 1\<rparr>))" (is "sp_inv ?s'")
  proof (rule sp_inv_change [OF inv, where i = ?i])
    have j: "jobs j ?s' = jobs j s - of_bool (j = ?i)" and w: "waiters j ?s' = waiters j s" for j
      using jb [of j] wt [of j] by (simp_all add: jobs_def waiters_def)
    show "spclist ?s' j = spclist s j \<and> pfd ?s' j = pfd s j \<and> jobs j ?s' = jobs j s \<and> waiters j ?s' = waiters j s"
      if "j \<noteq> ?i" for j using that j [of j] w [of j] by (simp add: spclist_upd)
    show "slot_ok (pfd ?s' ?i) (spclist ?s' ?i) (jobs ?i ?s') (waiters ?i ?s')"
      unfolding j w using slot by (auto simp: slot_ok_def)
    show "work_ok ?s'" using wk by (simp add: work_ok_def)
    show "pool_ok ?s'" using pool by (simp add: pool_ok_def)
    show "poll_ok ?s'" using inv by (simp add: sp_inv_def poll_ok_def)
    have "used ?s' = (if spc_refcnt (spclist s ?i) > 1 then used s else used s - {?i})"
      using ref iu slot(2) by (simp add: used_upd insert_absorb)
    then show "nfds ?s' = 1 + int (card (used ?s')) + int (disco ?s')" "nfds ?s' \<le> int MAXCLI"
      using inv card_used_remove [OF iu] by (simp_all add: sp_inv_def)
  qed
  then show ?thesis by (rule sp_inv_cong [OF worker_done_core [OF inv t(1,2), symmetric]])
qed

lemma inv_set_worker:
  assumes inv: "sp_inv s" and t: "t < length (workers s)" "work (workers s ! t) = Some b" "work p = Some b"
    and wt: "\<And>j. \<not> waiting j (workers s ! t)" "\<And>j. \<not> waiting j p"
  shows "sp_inv (set_worker t p s)"
proof -
  note slot = sba_slot_work [OF inv t(1,2)]
  have "p \<notin> {WIdle, WNone}" using t(3) by auto
  moreover have "jobs j (set_worker t p s) = jobs j s" for j using t by (simp add: jobs_set_worker holds_def)
  moreover have "waiters j (set_worker t p s) = waiters j s" for j using t wt by (simp add: waiters_set_worker waiters_not)
  ultimately show ?thesis
    using inv t slot(2,4) by (auto simp: sp_inv_def poll_ok_def intro!: pool_ok_set_worker work_ok_set_worker)
qed

section \<open>The worker pool\<close>

lemma inv_worker_top:
  assumes inv: "sp_inv s" and t: "t < length (workers s)" "workers s ! t = WTop"
  shows "sp_inv (worker_top t s)"
proof -
  have "jobs j (worker_top t s) = jobs j s" and "waiters j (worker_top t s) = waiters j s" for j
    using t by (auto simp: worker_top_def jobs_def waiters_def nth_list_update)
  moreover have "spclist (worker_top t s) = spclist s" "pfd (worker_top t s) = pfd s" "disco (worker_top t s) = disco s"
    "nfds (worker_top t s) = nfds s" by (simp_all add: worker_top_def)
  moreover have "used (worker_top t s) = used s" by (simp add: used_def worker_top_def)
  moreover have "work_ok (worker_top t s)" "poll_ok (worker_top t s)"
    using inv set_update_subset_insert [of "workers s" t WIdle] set_update_subset_insert [of "workers s" t WNone]
    by (auto simp: sp_inv_def worker_top_def work_ok_def poll_ok_def)
  moreover have "pool_ok (worker_top t s)" using inv t by (auto simp: sp_inv_def worker_top_def pool_ok_def)
  ultimately show ?thesis using inv by (simp add: sp_inv_def)
qed

lemma inv_worker_take:
  assumes inv: "sp_inv s" and t: "t < length (workers s)" "workers s ! t = WIdle" and "worker_take t s = Some s'"
  shows "sp_inv s'"
proof -
  obtain b r where b: "wrklist s = b # r" using assms(4) by (cases "wrklist s") (auto simp: worker_take_def)
  let ?p = "if sba_type b = SBA_SYSCALL then WStart b else WExec b True"
  have s': "s' = set_worker t ?p (s\<lparr>idleworker := idleworker s - 1, wrklist := r, nwork := nwork s - 1\<rparr>)"
    using assms(4) b by (simp add: worker_take_def)
  have "jobs j s' = jobs j s" and "waiters j s' = waiters j s" for j
    using t b by (auto simp: s' jobs_def waiters_def nth_list_update)
  moreover have "spclist s' = spclist s" "pfd s' = pfd s" "disco s' = disco s" "nfds s' = nfds s" by (simp_all add: s')
  moreover have "used s' = used s" by (simp add: used_def s')
  moreover have "work_ok s'" "poll_ok s'"
    using inv b set_update_subset_insert [of "workers s" t ?p] by (auto simp: sp_inv_def s' work_ok_def poll_ok_def split: if_splits)
  moreover have "pool_ok s'" using inv t b by (auto simp: sp_inv_def s' pool_ok_def)
  ultimately show ?thesis using inv by (simp add: sp_inv_def)
qed

text \<open>Queueing work for a connected client, and starting a worker.\<close>

lemma inv_queue:
  assumes inv: "sp_inv s" and i: "i \<in> slots" "pfd s i \<noteq> - 1" "spc_state (spclist s i) \<noteq> SPCSTATE_NEW" and b: "sba_spc b = i"
  shows "sp_inv ((spcref i s)\<lparr>wrklist := wrklist s @ [b], nwork := nwork s + 1\<rparr>)" (is "sp_inv ?s'")
proof (rule sp_inv_change [OF inv, where i = i])
  have j: "jobs j ?s' = jobs j s + of_bool (j = i)" and w: "waiters j ?s' = waiters j s" for j
    using b by (auto simp: jobs_def waiters_def spcref_def)
  show "spclist ?s' j = spclist s j \<and> pfd ?s' j = pfd s j \<and> jobs j ?s' = jobs j s \<and> waiters j ?s' = waiters j s"
    if "j \<noteq> i" for j using that j [of j] w [of j] by (simp add: spclist_upd spcref_def)
  show "slot_ok (pfd ?s' i) (spclist ?s' i) (jobs i ?s') (waiters i ?s')"
    unfolding j w using sp_inv_slot [OF inv i(1)] i by (auto simp: slot_ok_def spcref_def)
  show "work_ok ?s'" "pool_ok ?s'" "poll_ok ?s'" using inv i b by (auto simp: sp_inv_def work_ok_def pool_ok_def poll_ok_def spcref_def)
  have r: "spc_refcnt (spclist s i) \<ge> 1" using sp_inv_slot [OF inv i(1)] i(2) by (simp add: slot_ok_def jobs_ge_0)
  then have "used ?s' = used s" using i(1) by (auto simp: used_def spclist_upd spcref_def)
  then show "nfds ?s' = 1 + int (card (used ?s')) + int (disco ?s')" "nfds ?s' \<le> int MAXCLI"
    using inv by (simp_all add: sp_inv_def spcref_def)
qed

lemma inv_spawn:
  assumes inv: "sp_inv s" and "nworker s < MAXWORKER"
  shows "sp_inv (s\<lparr>nworker := nworker s + 1, workers := workers s @ [WTop]\<rparr>)" (is "sp_inv ?s'")
proof -
  have "jobs j ?s' = jobs j s" and "waiters j ?s' = waiters j s" for j
    by (auto simp: jobs_def waiters_def nth_append split: if_splits)
  moreover have "used ?s' = used s" by (simp add: used_def)
  moreover have "work_ok ?s'" "pool_ok ?s'" "poll_ok ?s'"
    using assms by (auto simp: sp_inv_def work_ok_def pool_ok_def poll_ok_def)
  ultimately show ?thesis using inv by (simp add: sp_inv_def)
qed

section \<open>Connections\<close>

lemma core_pfd: "core (s\<lparr>pfd := p\<rparr>) = (core s)\<lparr>pfd := p\<rparr>"
  by (simp add: core_def)

lemma core_handledisco:
  assumes "spc_ostatus (spclist s i) = SPCSTATUS_FREE" and "disco s < 256"
  shows "core (serv_handledisco w i s) = core
    (if spc_refcnt (spclist s i) > 1 then
       upd_spc i (\<lambda>c. c\<lparr>spc_state := SPCSTATE_DYING, spc_refcnt := spc_refcnt c - 1\<rparr>) (s\<lparr>pfd := (pfd s)(i := - 1)\<rparr>)
     else (upd_spc i (\<lambda>c. c\<lparr>spc_refcnt := spc_refcnt c - 1, spc_fd := - 1, spc_state := SPCSTATE_NEW\<rparr>) (s\<lparr>pfd := (pfd s)(i := - 1)\<rparr>))
       \<lparr>disco := disco s + 1\<rparr>)"
proof -
  define s1 where "s1 = upd_spc i (\<lambda>c. c\<lparr>spc_state := SPCSTATE_DYING, spc_ostatus := SPCSTATUS_FREE\<rparr>) (s\<lparr>pfd := (pfd s)(i := - 1)\<rparr>)"
  define s2 where "s2 = (if \<not> spc_inexec (spclist s i) \<and> spc_mainlwp (spclist s i) \<noteq> 0
    then lwproc_switch w 0 (lwproc_lwpexit w (lwproc_switch w (spc_mainlwp (spclist s i)) s1)) else s1)"
  have c: "core s2 = core s1" "spclist s2 = spclist s1" "disco s2 = disco s"
    by (auto simp: s2_def s1_def lwproc_def lwproc_lwpexit_def lwproc_switch_def ev_def upd_spc_def)
  have "serv_handledisco w i s = spcrelease w i (upd_spc i zero_spc s2)"
    using assms(1) by (simp add: serv_handledisco_def Let_def sendunlockl_def upd_spc_twice s2_def s1_def comp_def)
  then show ?thesis
    using assms c by (simp add: core_release core_upd_eq s1_def core_pfd zero_spc_def) (simp add: core_spc_def zero_spc_def)
qed

lemma pfd_upd_view [simp]: "jobs j (s\<lparr>pfd := p\<rparr>) = jobs j s" "waiters j (s\<lparr>pfd := p\<rparr>) = waiters j s" "used (s\<lparr>pfd := p\<rparr>) = used s"
  by (simp_all add: jobs_def waiters_def used_def)

lemma slots_0 [simp]: "0 \<notin> slots"
  by (simp add: slots_def)

lemma inv_handledisco:
  assumes inv: "sp_inv s" and i: "i \<in> slots" "pfd s i \<noteq> - 1"
  shows "sp_inv (serv_handledisco w i s)"
proof -
  note slot = sp_inv_slot [OF inv i(1)]
  have ref: "spc_refcnt (spclist s i) \<ge> 1" using slot i(2) by (simp add: slot_ok_def jobs_ge_0)
  then have iu: "i \<in> used s" using i(1) by (simp add: used_def)
  have free: "spc_ostatus (spclist s i) = SPCSTATUS_FREE" using slot by (simp add: slot_ok_def)
  have d: "disco s < 256" using inv by (simp add: sp_inv_def MAXCLI_def)
  have "sp_inv (if spc_refcnt (spclist s i) > 1 then
       upd_spc i (\<lambda>c. c\<lparr>spc_state := SPCSTATE_DYING, spc_refcnt := spc_refcnt c - 1\<rparr>) (s\<lparr>pfd := (pfd s)(i := - 1)\<rparr>)
     else (upd_spc i (\<lambda>c. c\<lparr>spc_refcnt := spc_refcnt c - 1, spc_fd := - 1, spc_state := SPCSTATE_NEW\<rparr>) (s\<lparr>pfd := (pfd s)(i := - 1)\<rparr>))
       \<lparr>disco := disco s + 1\<rparr>)" (is "sp_inv ?s'")
  proof (rule sp_inv_change [OF inv, where i = i])
    have j: "jobs j ?s' = jobs j s" and w: "waiters j ?s' = waiters j s" for j by simp_all
    show "spclist ?s' j = spclist s j \<and> pfd ?s' j = pfd s j \<and> jobs j ?s' = jobs j s \<and> waiters j ?s' = waiters j s"
      if "j \<noteq> i" for j using that j [of j] w [of j] by (simp add: spclist_upd)
    show "slot_ok (pfd ?s' i) (spclist ?s' i) (jobs i ?s') (waiters i ?s')"
      unfolding j w using slot i(2) jobs_ge_0 [of i s] by (auto simp: slot_ok_def)
    show "work_ok ?s'" "pool_ok ?s'" using inv by (simp_all add: sp_inv_def work_ok_def pool_ok_def)
    show "poll_ok ?s'" using inv i(1) by (auto simp: sp_inv_def poll_ok_def slots_def)
    have "used ?s' = (if spc_refcnt (spclist s i) > 1 then used s else used s - {i})"
      using ref iu i(1) by (simp add: used_upd insert_absorb)
    then show "nfds ?s' = 1 + int (card (used ?s')) + int (disco ?s')" "nfds ?s' \<le> int MAXCLI"
      using inv card_used_remove [OF iu] by (simp_all add: sp_inv_def)
  qed
  then show ?thesis by (rule sp_inv_cong [OF core_handledisco [OF free d, symmetric]])
qed

text \<open>As long as there are fewer than \<open>MAXCLI\<close> descriptors, a slot is free.\<close>

lemma free_slot_exists:
  assumes inv: "sp_inv s" and "nfds s \<noteq> int MAXCLI"
  shows "\<exists>i. free_slot s = Some i \<and> i \<in> slots \<and> pfd s i = - 1 \<and> spc_state (spclist s i) = SPCSTATE_NEW"
proof -
  have "Suc (card slots) = MAXCLI" by (simp add: slots_def MAXCLI_def)
  moreover have "1 + int (card (used s)) + int (disco s) < int MAXCLI" using inv assms(2) unfolding sp_inv_def by linarith
  ultimately have "card (used s) < card slots" by linarith
  then have "\<not> slots \<subseteq> used s" using card_mono [OF finite_used, of slots s] by linarith
  then obtain k where "k \<in> slots" "k \<notin> used s" by blast
  then have "spc_refcnt (spclist s k) = 0" by (simp add: used_def)
  moreover have "spc_refcnt (spclist s k) = of_bool (pfd s k \<noteq> - 1) + jobs k s"
    and "pfd s k = - 1 \<and> jobs k s = 0 \<longrightarrow> spc_state (spclist s k) = SPCSTATE_NEW"
    using sp_inv_slot [OF inv \<open>k \<in> slots\<close>] unfolding slot_ok_def by (iprover)+
  ultimately have "pfd s k = - 1 \<and> spc_state (spclist s k) = SPCSTATE_NEW"
    using jobs_ge_0 [of k s] by (cases "pfd s k = - 1") auto
  moreover have "k < MAXCLI" using \<open>k \<in> slots\<close> by (simp add: slots_def)
  ultimately have "free_slot s \<noteq> None" by (auto simp: free_slot_def find_None_iff)
  then obtain i where i: "free_slot s = Some i" by blast
  then have p: "i < MAXCLI" "pfd s i = - 1" "spc_state (spclist s i) = SPCSTATE_NEW"
    by (auto simp: free_slot_def find_Some_iff)
  moreover have "i \<noteq> 0" using p(2) inv unfolding sp_inv_def poll_ok_def by metis
  ultimately show ?thesis using i by (auto simp: slots_def)
qed

text \<open>A connection is dropped, or it gets a free slot; the server never aborts.\<close>

lemma handleconn_cases:
  assumes "sp_inv s" and "busy \<longleftrightarrow> nfds s = int MAXCLI"
  shows "\<exists>idx s'. serv_handleconn w fd busy s = Some (idx, s') \<and>
    (idx = 0 \<and> core s' = core s \<or>
     idx \<in> slots \<and> pfd s idx = - 1 \<and> spc_state (spclist s idx) = SPCSTATE_NEW \<and> nfds s \<noteq> int MAXCLI \<and>
     (\<exists>newfd. newfd \<noteq> - 1 \<and> core s' = core (upd_spc idx
        (\<lambda>c. c\<lparr>spc_fd := newfd, spc_istatus := SPCSTATUS_BUSY, spc_refcnt := 1, spc_respwait := []\<rparr>) (s\<lparr>pfd := (pfd s)(idx := newfd)\<rparr>))))"
proof (cases busy)
  case True
  then show ?thesis by (simp add: serv_handleconn_def Let_def split_beta)
next
  case False
  then obtain i where i: "free_slot s = Some i" "i \<in> slots" "pfd s i = - 1" "spc_state (spclist s i) = SPCSTATE_NEW"
    using free_slot_exists assms by blast
  have f: "free_slot (s\<lparr>log := l\<rparr>) = free_slot s" for l by (simp add: free_slot_def)
  show ?thesis using False i assms(2)
    by (auto simp: serv_handleconn_def Let_def ev_def f core_upd_eq core_pfd split: if_splits)
qed

end
