(* ===== verification/Sp_Server_Steps.thy ===== *)
theory Sp_Server_Steps
  imports Sp_Server_Inv
begin

text \<open>
  Every transition of the proxy server keeps the invariant: connections and their collection, the
  requests that workers wait for, and the requests of the clients.
\<close>

section \<open>Accepting and collecting\<close>

lemma waiters_no_jobs: "jobs i s = 0 \<Longrightarrow> waiters i s = {}"
proof -
  assume "jobs i s = 0"
  then have "cnt (holds i) (workers s) = 0"
    using cnt_ge_0 [of "holds i" "workers s"] cnt_ge_0 [of "\<lambda>b. sba_spc b = i" "wrklist s"] unfolding jobs_def by linarith
  then have h: "\<forall>p \<in> set (workers s). \<not> holds i p" by (simp add: cnt_0)
  have "\<not> waiting i p" if "\<not> holds i p" for p using that by (cases p) auto
  then show ?thesis using h by (auto simp: waiters_def)
qed

lemma core_counters [simp]:
  "core (s\<lparr>nfds := n\<rparr>) = (core s)\<lparr>nfds := n\<rparr>" "core (s\<lparr>maxidx := m\<rparr>) = (core s)\<lparr>maxidx := m\<rparr>"
  by (simp_all add: core_def)

lemma core_cong_counters: "core s = core s' \<Longrightarrow> nfds s = nfds s' \<and> maxidx s = maxidx s' \<and> pfd s = pfd s' \<and> disco s = disco s'"
  by (metis core_sel(2-5))

lemma inv_new_client:
  assumes inv: "sp_inv s" and i: "i \<in> slots" "pfd s i = - 1" "spc_state (spclist s i) = SPCSTATE_NEW"
    and "nfds s \<noteq> int MAXCLI" and "newfd \<noteq> - 1"
  shows "sp_inv ((upd_spc i (\<lambda>c. c\<lparr>spc_fd := newfd, spc_istatus := SPCSTATUS_BUSY, spc_refcnt := 1, spc_respwait := []\<rparr>)
    (s\<lparr>pfd := (pfd s)(i := newfd)\<rparr>))\<lparr>nfds := nfds s + 1, maxidx := max i (maxidx s)\<rparr>)" (is "sp_inv ?s'")
proof (rule sp_inv_change [OF inv, where i = i])
  have n: "jobs i s = 0" using sp_inv_slot [OF inv i(1)] i by (simp add: slot_ok_def)
  then have w: "waiters i s = {}" by (rule waiters_no_jobs)
  have v: "jobs j ?s' = jobs j s" "waiters j ?s' = waiters j s" for j by (simp_all add: jobs_def waiters_def)
  show "spclist ?s' j = spclist s j \<and> pfd ?s' j = pfd s j \<and> jobs j ?s' = jobs j s \<and> waiters j ?s' = waiters j s"
    if "j \<noteq> i" for j using that v [of j] by (simp add: spclist_upd)
  show "slot_ok (pfd ?s' i) (spclist ?s' i) (jobs i ?s') (waiters i ?s')"
    unfolding v n w using sp_inv_slot [OF inv i(1)] i assms(6) by (auto simp: slot_ok_def)
  show "work_ok ?s'" "pool_ok ?s'" using inv by (simp_all add: sp_inv_def work_ok_def pool_ok_def)
  show "poll_ok ?s'" using inv i(1) by (auto simp: sp_inv_def poll_ok_def slots_def)
  have "spc_refcnt (spclist s i) = 0" using sp_inv_slot [OF inv i(1)] i(2) n by (simp add: slot_ok_def)
  then have "i \<notin> used s" by (simp add: used_def)
  moreover have "used ?s' = insert i (used s)" using i(1) by (auto simp: used_def spclist_upd)
  ultimately show "nfds ?s' = 1 + int (card (used ?s')) + int (disco ?s')" "nfds ?s' \<le> int MAXCLI"
    using inv assms(5) by (auto simp: sp_inv_def)
qed

lemma inv_server_conn:
  assumes inv: "sp_inv s" and "server_conn w s = Some s'"
  shows "sp_inv s'"
proof -
  obtain idx s1 where s1: "serv_handleconn w (pfd s 0) (nfds s = int MAXCLI) s = Some (idx, s1)"
    using handleconn_cases [OF inv refl, of w "pfd s 0"] by blast
  define s2 where "s2 = (if idx \<noteq> 0 then s1\<lparr>nfds := nfds s1 + 1\<rparr> else s1)"
  have s': "s' = (if idx > maxidx s2 then s2\<lparr>maxidx := idx\<rparr> else s2)"
    using assms(2) s1 unfolding server_conn_def s2_def by (simp only: Option.bind.simps split_beta fst_conv snd_conv Let_def option.inject)
  consider "idx = 0" "core s1 = core s"
    | newfd where "idx \<in> slots" "pfd s idx = - 1" "spc_state (spclist s idx) = SPCSTATE_NEW" "nfds s \<noteq> int MAXCLI" "newfd \<noteq> - 1"
      "core s1 = core (upd_spc idx
        (\<lambda>c. c\<lparr>spc_fd := newfd, spc_istatus := SPCSTATUS_BUSY, spc_refcnt := 1, spc_respwait := []\<rparr>) (s\<lparr>pfd := (pfd s)(idx := newfd)\<rparr>))"
    using handleconn_cases [OF inv refl, of w "pfd s 0"] s1 by auto
  then show ?thesis
  proof cases
    case 1
    then show ?thesis using inv s' s2_def sp_inv_cong by (metis less_nat_zero_code)
  next
    case 2
    note c = core_cong_counters [OF 2(6)]
    have "idx \<noteq> 0" using 2(1) slots_0 by metis
    then have "s' = s1\<lparr>nfds := nfds s + 1, maxidx := max idx (maxidx s)\<rparr>"
      using c unfolding s' s2_def by (cases s1) (auto simp: max_def)
    then have "core s' = core ((upd_spc idx
        (\<lambda>c. c\<lparr>spc_fd := newfd, spc_istatus := SPCSTATUS_BUSY, spc_refcnt := 1, spc_respwait := []\<rparr>) (s\<lparr>pfd := (pfd s)(idx := newfd)\<rparr>))
        \<lparr>nfds := nfds s + 1, maxidx := max idx (maxidx s)\<rparr>)"
      by (simp only: core_counters 2(6))
    then show ?thesis using inv_new_client [OF inv 2(1-5)] sp_inv_cong by metis
  qed
qed

lemma top_slot_covers:
  assumes "k \<le> m" and "\<And>i. k < i \<Longrightarrow> i \<le> m \<Longrightarrow> p i = - 1"
  shows "top_slot p m k \<le> m \<and> (\<forall>i \<le> m. p i \<noteq> - 1 \<longrightarrow> i \<le> top_slot p m k)"
  using assms
proof (induction k)
  case 0
  then show ?case by auto
next
  case (Suc k)
  show ?case
  proof (cases "p (Suc k) = - 1")
    case True
    have "p i = - 1" if "k < i" "i \<le> m" for i using that True Suc.prems(2) [of i] by (cases "i = Suc k") auto
    with Suc True show ?thesis by simp
  next
    case False
    have "i \<le> Suc k" if "i \<le> m" "p i \<noteq> - 1" for i using that Suc.prems(2) [of i] by (cases "i \<le> Suc k") auto
    with Suc.prems(1) False show ?thesis by auto
  qed
qed

definition covers :: "(nat \<Rightarrow> int) \<Rightarrow> nat \<Rightarrow> bool" where
  "covers p m \<longleftrightarrow> m < MAXCLI \<and> (\<forall>i < MAXCLI. p i \<noteq> - 1 \<longrightarrow> i \<le> m)"

lemma top_slot_covers_all: "covers p m \<Longrightarrow> covers p (top_slot p m m)"
  using top_slot_covers [of m m p] unfolding covers_def by auto

lemma gc_loop:
  "covers (pfd s) (maxidx s) \<Longrightarrow>
   \<exists>m. covers (pfd s) m \<and>
     ((\<lambda>s. s\<lparr>nfds := nfds s - 1, maxidx := top_slot (pfd s) (maxidx s) (maxidx s)\<rparr>) ^^ n) s = s\<lparr>nfds := nfds s - int n, maxidx := m\<rparr>"
proof (induction n)
  case 0
  then show ?case by (intro exI [of _ "maxidx s"]) simp
next
  case (Suc n)
  then obtain m where m: "covers (pfd s) m"
    "((\<lambda>s. s\<lparr>nfds := nfds s - 1, maxidx := top_slot (pfd s) (maxidx s) (maxidx s)\<rparr>) ^^ n) s = s\<lparr>nfds := nfds s - int n, maxidx := m\<rparr>" by blast
  then show ?case by (intro exI [of _ "top_slot (pfd s) m m"]) (simp add: top_slot_covers_all)
qed

lemma inv_server_gc:
  assumes inv: "sp_inv s"
  shows "sp_inv (server_gc s)"
proof -
  have "covers (pfd (s\<lparr>disco := 0\<rparr>)) (maxidx (s\<lparr>disco := 0\<rparr>))" using inv by (simp add: sp_inv_def poll_ok_def covers_def)
  from gc_loop [OF this, of "disco s"] obtain m where m: "covers (pfd s) m"
    and s': "server_gc s = s\<lparr>disco := 0, nfds := nfds s - int (disco s), maxidx := m\<rparr>" (is "_ = ?s'")
    unfolding server_gc_def Let_def by auto
  have "jobs j ?s' = jobs j s" "waiters j ?s' = waiters j s" for j by (simp_all add: jobs_def waiters_def)
  moreover have "used ?s' = used s" by (simp add: used_def)
  moreover have "poll_ok ?s'" using inv m by (simp add: sp_inv_def poll_ok_def covers_def)
  moreover have "work_ok ?s'" "pool_ok ?s'" using inv by (simp_all add: sp_inv_def work_ok_def pool_ok_def)
  ultimately show ?thesis using inv unfolding s' by (simp add: sp_inv_def)
qed

section \<open>Requests of a system call\<close>

lemma respwait_waiters: "sp_inv s \<Longrightarrow> i \<in> slots \<Longrightarrow> set (spc_respwait (spclist s i)) = waiters i s"
  using sp_inv_slot [of s i] by (simp add: slot_ok_def)

lemma upd_spc_outside:
  "upd_spc i f (s\<lparr>log := l\<rparr>) = (upd_spc i f s)\<lparr>log := l\<rparr>" "upd_spc i f (s\<lparr>waits := x\<rparr>) = (upd_spc i f s)\<lparr>waits := x\<rparr>"
  by (simp_all add: upd_spc_def)

lemma send_req_core:
  assumes "send_req w i t iov s = Some (rv, s')" and "t \<notin> set (spc_respwait (spclist s i))"
  shows "core s' = core (if rv \<noteq> 0 then s else upd_spc i (\<lambda>c. c\<lparr>spc_respwait := spc_respwait c @ [t]\<rparr>) s)"
proof -
  have free: "spc_ostatus (spclist s i) = SPCSTATUS_FREE"
    using assms(1) by (auto simp: send_req_def putwait_def doputwait_def sendlockl_def Let_def upd_spc_def split: if_splits)
  have "remove1 t (spc_respwait (spclist s i) @ [t]) = spc_respwait (spclist s i)"
    using assms(2) by (simp add: remove1_append)
  then show ?thesis
    using assms(1) free
    by (auto simp: send_req_def putwait_def doputwait_def sendlockl_def Let_def ev_def unputwait_def dounputwait_def sendunlockl_def
        upd_spc_outside upd_spc_twice comp_def split: if_splits intro!: core_upd)
      (auto simp: core_upd_eq core_spc_def zero_spc_def)
qed

lemma slot_ok_wait:
  "slot_ok p c n W \<Longrightarrow> t \<notin> W \<Longrightarrow> slot_ok p (c\<lparr>spc_respwait := spc_respwait c @ [t]\<rparr>) n (insert t W)"
  "slot_ok p c n W \<Longrightarrow> slot_ok p (c\<lparr>spc_respwait := remove1 t (spc_respwait c)\<rparr>) n (W - {t})"
  unfolding slot_ok_def by simp_all

lemma inv_wait:
  assumes inv: "sp_inv s" and t: "t < length (workers s)" "workers s ! t = WSys b"
  shows "sp_inv (set_worker t (WAwait b q) (upd_spc (sba_spc b) (\<lambda>c. c\<lparr>spc_respwait := spc_respwait c @ [t]\<rparr>) s))" (is "sp_inv ?s'")
proof -
  let ?i = "sba_spc b"
  have wk: "work (workers s ! t) = Some b" using t by simp
  note slot = sba_slot_work [OF inv t(1) wk]
  have nt: "t \<notin> waiters j s" for j using t by (simp add: waiters_def)
  have j: "jobs j ?s' = jobs j s" and w: "waiters j ?s' = (if j = ?i then insert t (waiters j s) else waiters j s)" for j
    using t nt [of j] by (auto simp: jobs_set_worker waiters_set_worker)
  show ?thesis
  proof (rule sp_inv_change [OF inv, where i = ?i])
    show "spclist ?s' j = spclist s j \<and> pfd ?s' j = pfd s j \<and> jobs j ?s' = jobs j s \<and> waiters j ?s' = waiters j s"
      if "j \<noteq> ?i" for j using that j [of j] w [of j] by (simp add: spclist_upd)
    show "slot_ok (pfd ?s' ?i) (spclist ?s' ?i) (jobs ?i ?s') (waiters ?i ?s')"
      unfolding j w using slot_ok_wait(1) [OF slot(1) nt] by simp
    show "work_ok ?s'" using inv slot(2) by (intro work_ok_set_worker) (auto simp: sp_inv_def work_ok_def)
    show "pool_ok ?s'" using inv t by (intro pool_ok_set_worker) (auto simp: sp_inv_def pool_ok_def)
    show "poll_ok ?s'" using inv by (simp add: sp_inv_def poll_ok_def)
    have "used ?s' = used s" by (auto simp: used_def spclist_upd)
    then show "nfds ?s' = 1 + int (card (used ?s')) + int (disco ?s')" "nfds ?s' \<le> int MAXCLI"
      using inv by (simp_all add: sp_inv_def)
  qed
qed

lemma inv_unwait:
  assumes inv: "sp_inv s" and t: "t < length (workers s)" "workers s ! t = WAwait b q"
  shows "sp_inv (set_worker t (WSys b) (dounputwait (sba_spc b) t s))" (is "sp_inv ?s'")
proof -
  let ?i = "sba_spc b"
  have wk: "work (workers s ! t) = Some b" using t by simp
  note slot = sba_slot_work [OF inv t(1) wk]
  have nt: "t \<notin> waiters j s" if "j \<noteq> ?i" for j using t that by (simp add: waiters_def)
  have j: "jobs j ?s' = jobs j s" and w: "waiters j ?s' = (if j = ?i then waiters j s - {t} else waiters j s)" for j
    using t nt [of j] by (auto simp: jobs_set_worker waiters_set_worker dounputwait_def)
  show ?thesis
  proof (rule sp_inv_change [OF inv, where i = ?i])
    show "spclist ?s' j = spclist s j \<and> pfd ?s' j = pfd s j \<and> jobs j ?s' = jobs j s \<and> waiters j ?s' = waiters j s"
      if "j \<noteq> ?i" for j using that j [of j] w [of j] by (simp add: spclist_upd dounputwait_def)
    show "slot_ok (pfd ?s' ?i) (spclist ?s' ?i) (jobs ?i ?s') (waiters ?i ?s')"
      unfolding j w using slot_ok_wait(2) [OF slot(1)] by (simp add: dounputwait_def)
    show "work_ok ?s'" using inv slot(2) by (intro work_ok_set_worker) (auto simp: sp_inv_def work_ok_def dounputwait_def)
    show "pool_ok ?s'" using inv t by (intro pool_ok_set_worker) (auto simp: sp_inv_def pool_ok_def dounputwait_def)
    show "poll_ok ?s'" using inv by (simp add: sp_inv_def poll_ok_def dounputwait_def)
    have "used ?s' = used s" by (auto simp: used_def spclist_upd dounputwait_def)
    then show "nfds ?s' = 1 + int (card (used ?s')) + int (disco ?s')" "nfds ?s' \<le> int MAXCLI"
      using inv by (simp_all add: sp_inv_def dounputwait_def)
  qed
qed

text \<open>A request that is refused leaves the core as it is; otherwise its worker waits.\<close>

lemma inv_request:
  assumes inv: "sp_inv s" and t: "t < length (workers s)" "workers s ! t = WSys b"
    and req: "send_req w (sba_spc b) t iov s0 = Some (rv, s1)" and s0: "core s0 = core s"
    and s': "core s' = core (if rv \<noteq> 0 then s1 else set_worker t (WAwait b q) s1)"
  shows "sp_inv s'"
proof -
  have i: "sba_spc b \<in> slots" using sba_slot_work(2) [OF inv t(1)] t(2) by simp
  have "t \<notin> waiters (sba_spc b) s" using t by (simp add: waiters_def)
  then have "t \<notin> set (spc_respwait (spclist s (sba_spc b)))" using respwait_waiters [OF inv i] by simp
  moreover have "spc_respwait (spclist s0 (sba_spc b)) = spc_respwait (spclist s (sba_spc b))"
    using arg_cong [OF s0, of "\<lambda>s. spc_respwait (spclist s (sba_spc b))"] by simp
  ultimately have c: "core s1 = core (if rv \<noteq> 0 then s0 else upd_spc (sba_spc b) (\<lambda>c. c\<lparr>spc_respwait := spc_respwait c @ [t]\<rparr>) s0)"
    using send_req_core [OF req] by simp
  show ?thesis
  proof (cases "rv \<noteq> 0")
    case True
    with c s' s0 have "core s = core s'" by simp
    then show ?thesis using inv by (rule sp_inv_cong)
  next
    case False
    have inv0: "sp_inv s0" using s0 [symmetric] inv by (rule sp_inv_cong)
    have "map calm (workers s0) = map calm (workers s)" using arg_cong [OF s0, of workers] by simp
    then have l: "t < length (workers s0)" "calm (workers s0 ! t) = calm (WSys b)" using t by (metis length_map, metis length_map nth_map)
    then have "workers s0 ! t = WSys b" by (cases "workers s0 ! t") auto
    note w = inv_wait [OF inv0 l(1) this, of q]
    have "core s' = core (set_worker t (WAwait b q) (upd_spc (sba_spc b) (\<lambda>c. c\<lparr>spc_respwait := spc_respwait c @ [t]\<rparr>) s0))"
      using False c s' by simp
    then show ?thesis using w by (metis sp_inv_cong)
  qed
qed

lemma inv_sp_copyin:
  assumes inv: "sp_inv s" and t: "t < length (workers s)" "workers s ! t = WSys b" and "sp_copyin w t b raddr len wantstr s = Some s'"
  shows "sp_inv s'"
proof -
  define s0 where "s0 = snd (ev w (Sys ''rumpkern_unsched'' []) s)"
  obtain rv s1 where r: "copyin_req w (sba_spc b) t raddr len wantstr s0 = Some (rv, s1)"
    and s': "s' = (if rv \<noteq> 0 then give t (errno_val EFAULT) [] (snd (ev w (Sys ''rumpkern_sched'' []) s1))
      else set_worker t (WAwait b (CopyIn len wantstr)) s1)"
    using assms(4) by (auto simp: sp_copyin_def s0_def split_beta Option.bind_eq_Some_conv)
  show ?thesis
    by (rule inv_request [OF inv t r [unfolded copyin_req_def], where q = "CopyIn len wantstr"]) (simp_all add: s0_def s')
qed

lemma inv_sp_anonmmap:
  assumes inv: "sp_inv s" and t: "t < length (workers s)" "workers s ! t = WSys b" and "rumpuser_sp_anonmmap w t b howmuch s = Some s'"
  shows "sp_inv s'"
proof -
  define s0 where "s0 = snd (ev w (Sys ''rumpkern_unsched'' []) s)"
  obtain rv s1 where r: "anonmmap_req w (sba_spc b) t howmuch s0 = Some (rv, s1)"
    and s': "s' = (if rv \<noteq> 0 then give t (errno_val EFAULT) [] (snd (ev w (Sys ''rumpkern_sched'' []) s1))
      else set_worker t (WAwait b AnonMmap) s1)"
    using assms(4) by (auto simp: rumpuser_sp_anonmmap_def s0_def split_beta Option.bind_eq_Some_conv)
  show ?thesis
    by (rule inv_request [OF inv t r [unfolded anonmmap_req_def], where q = AnonMmap]) (simp_all add: s0_def s')
qed

lemma inv_req_end:
  assumes inv: "sp_inv s" and t: "t < length (workers s)" "workers s ! t = WAwait b q" and "req_end w t b q s = Some s'"
  shows "sp_inv s'"
proof -
  have "core s' = core (set_worker t (WSys b) (dounputwait (sba_spc b) t s))"
    using assms(4) by (auto simp: req_end_def waitresp_def Let_def split_beta Option.bind_eq_Some_conv)
  then show ?thesis using inv_unwait [OF inv t] by (metis sp_inv_cong)
qed

section \<open>Workers\<close>

lemma core_cong_worker:
  assumes "core s0 = core s" and "t < length (workers s)" and "\<And>b r. workers s ! t \<noteq> WExec b r"
  shows "t < length (workers s0)" and "workers s0 ! t = workers s ! t"
proof -
  have e: "map calm (workers s0) = map calm (workers s)" using arg_cong [OF assms(1), of workers] by simp
  then show l: "t < length (workers s0)" using assms(2) by (metis length_map)
  have "calm (workers s0 ! t) = calm (workers s ! t)" using e l assms(2) by (metis nth_map)
  then show "workers s0 ! t = workers s ! t" using assms(3) by (cases "workers s0 ! t"; cases "workers s ! t") auto
qed

lemma core_cong_work:
  assumes "core s0 = core s" and "t < length (workers s)" and "workers s ! t = WExec b r"
  shows "t < length (workers s0)" and "work (workers s0 ! t) = Some b" and "\<not> waiting j (workers s0 ! t)"
proof -
  have e: "map calm (workers s0) = map calm (workers s)" using arg_cong [OF assms(1), of workers] by simp
  then show l: "t < length (workers s0)" using assms(2) by (metis length_map)
  have "calm (workers s0 ! t) = calm (workers s ! t)" using e l assms(2) by (metis nth_map)
  then show "work (workers s0 ! t) = Some b" "\<not> waiting j (workers s0 ! t)" using assms(3) by (cases "workers s0 ! t"; simp)+
qed

lemma inv_syscall_begin:
  assumes inv: "sp_inv s" and t: "t < length (workers s)" "workers s ! t = WStart b" and "syscall_begin w t b s = Some s'"
  shows "sp_inv s'"
proof -
  define s0 where "s0 = snd (lwproc_newlwp w (spc_pid (spclist s (sba_spc b))) s)"
  have c0: "core s0 = core s" by (simp add: s0_def)
  consider (fail) rv x s1 where "send_syscall_resp w (sba_spc b) (rsp_reqno (sba_hdr b)) rv (- 1, 0) s0 = Some (x, s1)" "s' = worker_done w t b s1"
    | (ok) "s' = set_worker t (WSys b) (upd_spc (sba_spc b) (\<lambda>c. c\<lparr>spc_syscallreq := rsp_reqno (sba_hdr b)\<rparr>) s0)"
    using assms(4) by (auto simp: syscall_begin_def s0_def Let_def split_beta Option.bind_eq_Some_conv split: if_splits)
  then show ?thesis
  proof cases
    case fail
    then have c1: "core s1 = core s" using core_sends(3) c0 by metis
    have "t < length (workers s1)" "workers s1 ! t = WStart b" using core_cong_worker [OF c1 t(1)] t(2) by auto
    then show ?thesis using fail(2) sp_inv_cong [OF c1 [symmetric] inv] by (auto intro: inv_worker_done)
  next
    case ok
    define s1 where "s1 = upd_spc (sba_spc b) (\<lambda>c. c\<lparr>spc_syscallreq := rsp_reqno (sba_hdr b)\<rparr>) s0"
    have c1: "core s1 = core s" using c0 by (simp add: s1_def core_upd core_spc_def zero_spc_def)
    have "t < length (workers s1)" "workers s1 ! t = WStart b" using core_cong_worker [OF c1 t(1)] t(2) by auto
    then show ?thesis using ok s1_def sp_inv_cong [OF c1 [symmetric] inv] by (auto intro: inv_set_worker)
  qed
qed

lemma inv_syscall_end:
  assumes inv: "sp_inv s" and t: "t < length (workers s)" "workers s ! t = WSys b" and "syscall_end w t b rv retval s = Some s'"
  shows "sp_inv s'"
proof -
  obtain x s1 where s1: "send_syscall_resp w (sba_spc b) (rsp_reqno (sba_hdr b)) rv retval
      (lwproc_release w (upd_spc (sba_spc b) (\<lambda>c. c\<lparr>spc_syscallreq := 0\<rparr>) s)) = Some (x, s1)" "s' = worker_done w t b s1"
    using assms(4) by (auto simp: syscall_end_def Let_def split_beta Option.bind_eq_Some_conv)
  have c1: "core s1 = core s" using core_sends(3) [OF s1(1)] by (simp add: core_upd core_spc_def zero_spc_def)
  have "t < length (workers s1)" "workers s1 ! t = WSys b" using core_cong_worker [OF c1 t(1)] t(2) by auto
  then show ?thesis using s1(2) sp_inv_cong [OF c1 [symmetric] inv] by (auto intro: inv_worker_done)
qed

lemma core_terminate: "terminate c n s = Some (x, s') \<Longrightarrow> core s' = core s"
  by (auto simp: terminate_def split: bind_splits if_splits)

lemma inv_handleexec:
  assumes inv: "sp_inv s" and t: "t < length (workers s)" "workers s ! t = WExec b True" and "serv_handleexec w t b s = Some s'"
  shows "sp_inv s'"
proof (cases "spc_refcnt (spclist s (sba_spc b)) > 2")
  case True
  then show ?thesis using assms by (auto simp: serv_handleexec_def intro: inv_set_worker)
next
  case False
  let ?i = "sba_spc b"
  obtain comm s0 x s1 where s0: "terminate (sba_data b) (size_sub (rsp_len (sba_hdr b)) HDRSZ) s = Some (comm, s0)"
    and s1: "send_handshake_resp w ?i (rsp_reqno (sba_hdr b)) 0 (upd_spc ?i (\<lambda>c. c\<lparr>spc_inexec := False\<rparr>)
      (lwproc_switch w 0 (lwproc_execnotify w comm (lwproc_switch w (spc_mainlwp (spclist s0 ?i)) s0)))) = Some (x, s1)"
    and s': "s' = worker_done w t b s1"
    using assms(4) False by (auto simp: serv_handleexec_def Let_def split_beta Option.bind_eq_Some_conv)
  have c1: "core s1 = core s"
    using core_sends(2) [OF s1] core_terminate [OF s0] by (simp add: core_upd core_spc_def zero_spc_def)
  show ?thesis
    using s' core_cong_work [OF c1 t] sp_inv_cong [OF c1 [symmetric] inv] by (auto intro: inv_worker_done)
qed

lemma core_copyout: "sp_copyout w t b data raddr s = Some s' \<Longrightarrow> core s' = core s"
  by (auto simp: sp_copyout_def send_copyout_req_def nextreq_def Let_def split_beta Option.bind_eq_Some_conv core_upd core_spc_def zero_spc_def
      dest!: core_send_locked)

lemma core_raise: "rumpuser_sp_raise w t b signo s = Some s' \<Longrightarrow> core s' = core s"
  by (auto simp: rumpuser_sp_raise_def send_raise_req_def Let_def split_beta Option.bind_eq_Some_conv dest!: core_send_locked)

section \<open>Requests of a client\<close>

lemma core_sba_alloc: "sba_alloc w s = Some r \<Longrightarrow> core (snd r) = core s"
proof (rule sba_alloc.raw_induct [where P = "\<lambda>w s r. core (snd r) = core s"], goal_cases)
  case (1 f w s r)
  from 1(3) show ?case by (auto split: if_splits dest!: 1(2))
qed

lemma inv_queue_work:
  assumes inv: "sp_inv s" and i: "sba_spc b \<in> slots" "pfd s (sba_spc b) \<noteq> - 1" "spc_state (spclist s (sba_spc b)) \<noteq> SPCSTATE_NEW"
  shows "sp_inv (queue_work w b s)"
proof -
  define s3 where "s3 = (spcref (sba_spc b) s)\<lparr>wrklist := wrklist s @ [b], nwork := nwork s + 1\<rparr>"
  define s4 where "s4 = snd (ev w (Sys ''pthread_create'' []) s3)"
  have inv3: "sp_inv s3" unfolding s3_def using inv i by (intro inv_queue) simp_all
  then have inv4: "sp_inv s4" unfolding s4_def by (rule sp_inv_cong [OF core_ev [symmetric]])
  have "queue_work w b s \<in> {s3, s4} \<or>
    nworker s4 < MAXWORKER \<and> queue_work w b s = s4\<lparr>nworker := nworker s4 + 1, workers := workers s4 @ [WTop]\<rparr>"
    by (simp add: queue_work_def Let_def split_beta s3_def s4_def spcref_def ev_def)
  then show ?thesis using inv3 inv4 inv_spawn [of s4] by auto
qed

lemma inv_schedulework:
  assumes inv: "sp_inv s" and i: "i \<in> slots" "pfd s i \<noteq> - 1" "spc_state (spclist s i) \<noteq> SPCSTATE_NEW"
    and "schedulework w i typ s = Some s'"
  shows "sp_inv s'"
proof -
  obtain ok s1 where a: "sba_alloc w s = Some (ok, s1)" using assms(5) by (auto simp: schedulework_def Let_def Option.bind_eq_Some_conv)
  have c1: "core s1 = core s" using core_sba_alloc [OF a] by simp
  show ?thesis
  proof (cases ok)
    case False
    then obtain s2 where "send_error_resp w i (rsp_reqno (hdr i s)) RUMPSP_ERR_TRYAGAIN s1 = Some s2" "s' = spcfreebuf i s2"
      using assms(5) a by (auto simp: schedulework_def Let_def)
    then have "core s = core s'" using core_send_error c1 by (metis core_resetbuf(2))
    then show ?thesis using inv by (rule sp_inv_cong)
  next
    case True
    define s2 where "s2 = spcresetbuf i s1"
    have c2: "core s2 = core s" using c1 by (simp add: s2_def)
    have "sp_inv s2" using c2 [symmetric] inv by (rule sp_inv_cong)
    moreover have "pfd s2 i \<noteq> - 1" "spc_state (spclist s2 i) \<noteq> SPCSTATE_NEW"
      using core_cong_counters [OF c2] core_cong_sel(2) [OF c2] i by auto
    moreover have "s' = queue_work w \<lparr>sba_spc = i, sba_hdr = hdr i s1, sba_type = typ, sba_data = buf i s1\<rparr> s2"
      using assms(5) a True by (simp add: schedulework_def Let_def s2_def)
    ultimately show ?thesis using i(1) by (auto intro: inv_queue_work)
  qed
qed

text \<open>A handshake leaves the core as it is or completes.\<close>

definition run_spc :: "nat \<Rightarrow> srv \<Rightarrow> srv" where
  "run_spc i = upd_spc i (\<lambda>c. c\<lparr>spc_state := SPCSTATE_RUNNING\<rparr>)"

lemma core_handshake_done: "core s0 = core s \<Longrightarrow> core (handshake_done w i s0) = core (run_spc i s)"
proof -
  assume "core s0 = core s"
  then have "core_spc (spclist s0 i) = core_spc (spclist s i)" by (metis core_sel(1))
  then have "core_spc (spclist s0 i\<lparr>spc_pid := p, spc_state := SPCSTATE_RUNNING\<rparr>) = core_spc (spclist s i\<lparr>spc_state := SPCSTATE_RUNNING\<rparr>)" for p
    by (cases "spclist s0 i"; cases "spclist s i") (simp add: core_spc_def zero_spc_def)
  with \<open>core s0 = core s\<close> show ?thesis
    by (simp add: handshake_done_def run_spc_def Let_def split_beta core_upd_eq)
qed

lemma core_set_mainlwp [simp]: "core (upd_spc i (\<lambda>c. c\<lparr>spc_mainlwp := l\<rparr>) s) = core s"
  by (simp add: core_upd core_spc_def zero_spc_def)

lemma core_set_inexec [simp]: "core (upd_spc i (\<lambda>c. c\<lparr>spc_inexec := x\<rparr>) s) = core s"
  by (simp add: core_upd core_spc_def zero_spc_def)

lemma core_handshake_guest:
  assumes "handshake_guest w i s = Some s'"
  shows "core s' = core s \<or> core s' = core (run_spc i s)"
proof -
  obtain comm s0 where t: "terminate (buf i s) (size_sub (rsp_len (hdr i s)) HDRSZ) s = Some (comm, s0)"
    using assms by (auto simp: handshake_guest_def Option.bind_eq_Some_conv)
  note c0 = core_terminate [OF t]
  show ?thesis
    using assms t c0
    by (auto simp: handshake_guest_def Let_def split_beta Option.bind_eq_Some_conv core_handshake_done dest!: core_sends(2) split: if_splits)
qed

lemma core_handshake_fork:
  assumes "handshake_fork w i s = Some s'"
  shows "core s' = core s \<or> core s' = core (run_spc i s)"
  using assms
  by (auto simp: handshake_fork_def Let_def split_beta Option.bind_eq_Some_conv core_handshake_done
      dest!: core_sends(1) core_sends(2) split: if_splits option.splits)

lemma core_handle_prefork: "handle_prefork w i s = Some s' \<Longrightarrow> core s' = core s"
  by (auto simp: handle_prefork_def Let_def split_beta dest!: core_sends(1) core_sends(4) split: if_splits)

lemma inv_handle_exec:
  assumes inv: "sp_inv s" and i: "i \<in> slots" "pfd s i \<noteq> - 1" "spc_state (spclist s i) \<noteq> SPCSTATE_NEW" and "handle_exec w i s = Some s'"
  shows "sp_inv s'"
proof -
  define s0 where "s0 = lwproc_switch w 0 (lwproc_lwpexit w (lwproc_switch w (spc_mainlwp (spclist s i))
    (upd_spc i (\<lambda>c. c\<lparr>spc_inexec := True\<rparr>) s)))"
  have c0: "core s0 = core s" by (simp add: s0_def)
  consider "core s = core s'" | "schedulework w i SBA_EXEC s0 = Some s'"
    using assms(5) by (auto simp: handle_exec_def Let_def s0_def dest!: core_sends(1) split: if_splits)
  then show ?thesis
  proof cases
    case 1
    then show ?thesis using inv by (rule sp_inv_cong)
  next
    case 2
    have "sp_inv s0" using c0 [symmetric] inv by (rule sp_inv_cong)
    then show ?thesis using i core_cong_counters [OF c0] core_cong_sel(2) [OF c0] 2 by (auto intro: inv_schedulework)
  qed
qed

lemma inv_run_spc:
  assumes inv: "sp_inv s" and i: "i \<in> slots" "pfd s i \<noteq> - 1"
  shows "sp_inv (run_spc i s)" (is "sp_inv ?s'")
proof (rule sp_inv_change [OF inv, where i = i])
  have v: "jobs j ?s' = jobs j s" "waiters j ?s' = waiters j s" for j by (simp_all add: run_spc_def)
  show "spclist ?s' j = spclist s j \<and> pfd ?s' j = pfd s j \<and> jobs j ?s' = jobs j s \<and> waiters j ?s' = waiters j s"
    if "j \<noteq> i" for j using that v [of j] by (simp add: spclist_upd run_spc_def)
  show "slot_ok (pfd ?s' i) (spclist ?s' i) (jobs i ?s') (waiters i ?s')"
    unfolding v using sp_inv_slot [OF inv i(1)] i(2) by (simp add: slot_ok_def run_spc_def)
  show "work_ok ?s'" "pool_ok ?s'" "poll_ok ?s'" using inv by (simp_all add: sp_inv_def work_ok_def pool_ok_def poll_ok_def run_spc_def)
  have "used ?s' = used s" by (auto simp: used_def spclist_upd run_spc_def)
  then show "nfds ?s' = 1 + int (card (used ?s')) + int (disco ?s')" "nfds ?s' \<le> int MAXCLI"
    using inv by (simp_all add: sp_inv_def run_spc_def)
qed

lemma inv_handlereq:
  assumes inv: "sp_inv s" and i: "i \<in> slots" "pfd s i \<noteq> - 1" and "handlereq w i s = Some s'"
  shows "sp_inv s'"
proof -
  have same: "sp_inv s'" if "core s' = core s" using that [symmetric] inv by (rule sp_inv_cong)
  have run: "sp_inv s'" if "core s' = core (run_spc i s)" using that [symmetric] inv_run_spc [OF inv i] by (rule sp_inv_cong)
  show ?thesis
  proof (cases "spc_state (spclist s i) = SPCSTATE_NEW")
    case True
    then have "core s' = core s \<or> core s' = core (run_spc i s)"
      using assms(4) core_handshake_guest core_handshake_fork by (auto simp: handlereq_def Let_def dest!: core_sends(1) split: if_splits)
    then show ?thesis using same run by blast
  next
    case False
    then show ?thesis
      using assms(4) same core_handle_prefork inv_handle_exec [OF inv i False] inv_schedulework [OF inv i False]
      by (auto simp: handlereq_def Let_def dest!: core_sends(1) split: if_splits)
  qed
qed

lemma core_kickwaiter [simp]: "core (kickwaiter i s) = core s"
  by (simp add: kickwaiter_def Let_def split: option.split)

lemma inv_server_read:
  assumes inv: "sp_inv s" and i: "i \<in> slots" "pfd s i \<noteq> - 1" and "server_read w alloc sk i s = Some s'"
  shows "sp_inv s'"
proof -
  obtain r c sk' where rd: "readframe alloc (spc_rcv (spclist s i)) sk = Some (r, c, sk')"
    using assms(4) by (auto simp: server_read_def Option.bind_eq_Some_conv)
  define s0 where "s0 = upd_spc i (\<lambda>x. x\<lparr>spc_rcv := c\<rparr>) s"
  have c0: "core s0 = core s" by (simp add: s0_def core_upd core_spc_def zero_spc_def)
  have inv0: "sp_inv s0" using c0 [symmetric] inv by (rule sp_inv_cong)
  have p0: "pfd s0 i \<noteq> - 1" using i core_cong_counters [OF c0] by simp
  have same: "sp_inv s'" if "core s' = core s0" using that [symmetric] inv0 by (rule sp_inv_cong)
  have "(if r = 0 then Some s0 else if r = - 1 then Some (serv_handledisco w i s0) else server_frame w i s0) = Some s'"
    using assms(4) unfolding server_read_def rd s0_def by (simp only: Option.bind.simps split_conv Let_def)
  then consider "s' = s0" | "s' = serv_handledisco w i s0" | "server_frame w i s0 = Some s'"
    by (cases "r = 0"; cases "r = - 1") auto
  then show ?thesis
  proof cases
    case 3
    then show ?thesis
      using same inv_handlereq [OF inv0 i(1) p0, of w s']
      by (auto simp: server_frame_def dest!: core_sends(1) split: if_splits)
  qed (simp_all add: inv0 inv_handledisco [OF inv0 i(1) p0])
qed

section \<open>All transitions\<close>

lemma sp_inv_step:
  assumes "sp_inv s" and "sp_step s s'"
  shows "sp_inv s'"
  using assms(2)
proof cases
  case gc
  then show ?thesis using inv_server_gc [OF assms(1)] by (simp only:)
next
  case (conn w)
  then show ?thesis by (rule inv_server_conn [OF assms(1)])
next
  case (read i w alloc sk)
  have "i \<in> slots" using read(1,2) by (simp add: slots_def)
  then show ?thesis using read(3,4) by (rule inv_server_read [OF assms(1)])
next
  case (top t)
  then show ?thesis using inv_worker_top [OF assms(1)] by (simp only:)
next
  case (copyout t b w data raddr)
  then show ?thesis by (intro sp_inv_cong [OF core_copyout [symmetric] assms(1)])
next
  case (raise t b w signo)
  then show ?thesis by (intro sp_inv_cong [OF core_raise [symmetric] assms(1)])
next
  case (resume t b q w)
  then show ?thesis by (intro inv_req_end [OF assms(1)])
next
  case (wakeup t b)
  then have "core s' = core s" by (simp add: core_def set_worker_def map_update list_update_same_conv)
  then show ?thesis by (intro sp_inv_cong [OF _ assms(1)]) simp
qed (erule (2) inv_worker_take [OF assms(1)] inv_syscall_begin [OF assms(1)] inv_syscall_end [OF assms(1)]
    inv_sp_copyin [OF assms(1)] inv_sp_anonmmap [OF assms(1)] inv_handleexec [OF assms(1)])+

lemma sp_reach_inv: "sp_reach n s \<Longrightarrow> sp_inv s"
  by (induction rule: sp_reach.induct) (auto intro: sp_inv_init sp_inv_step)

end
