(* ===== verification/Sp_Server_Props.thy ===== *)
theory Sp_Server_Props
  imports Sp_Server_Steps
begin

text \<open>
  Properties of the proxy server in all its reachable states: reference counts and slots, new
  connections, shutting down, an exec whose client goes away, and which worker gets an answer.
\<close>

section \<open>A run\<close>

text \<open>
  A host and a kernel in which every call succeeds: descriptor 7 for the connection, lwp 5 and
  process 2 for the client.
\<close>

definition calm_world :: world where
  "calm_world = \<lparr>w_int = \<lambda>l e. (case e of
       Sys f as \<Rightarrow> if f = ''accept'' then 7 else if f = ''send_banner'' then 1 else if f = ''malloc'' then 1 else 0
     | Hyp f as str \<Rightarrow> if f = ''hyp_lwproc_curlwp'' then 5 else if f = ''hyp_getpid'' then 2 else 0
     | _ \<Rightarrow> 0), w_rand = \<lambda>l. replicate 16 0, w_stack = 0\<rparr>"

definition frame_of :: "nat \<Rightarrow> nat \<Rightarrow> nat \<Rightarrow> nat \<Rightarrow> bytes \<Rightarrow> rsp_hdr" where
  "frame_of reqno cls typ u body = \<lparr>rsp_len = HDRSZ + length body, rsp_reqno = reqno, rsp_class = cls, rsp_type = typ, rsp_u = u\<rparr>"

text \<open>A whole frame arrives at slot 1.\<close>

definition recv :: "rsp_hdr \<Rightarrow> bytes \<Rightarrow> srv \<Rightarrow> srv option" where
  "recv h body s =
     server_read calm_world (\<lambda>_. True) \<lparr>sk_in = enc_hdr h @ body, sk_caps = [], sk_closed = False, sk_fail = False\<rparr> 1 s"

text \<open>What the run depends on, for slot 1.\<close>

definition client_view :: "srv \<Rightarrow> spcstate \<times> spcstatus \<times> bool \<times> int \<times> bytes option \<times> nat \<times> nat" where
  "client_view s =
     (let c = spclist s 1
      in (spc_state c, spc_ostatus c, spc_inexec c, spc_refcnt c, spc_buf (spc_rcv c), spc_off (spc_rcv c), length (spc_hdr (spc_rcv c))))"

definition pool_view :: "srv \<Rightarrow> int \<times> servbouncearg list \<times> int \<times> int \<times> int \<times> wphase list" where
  "pool_view s = (pfd s 1, wrklist s, nwork s, nworker s, idleworker s, workers s)"

lemma recv_frame:
  assumes "client_view s = (st, os, ex, n, None, 0, HDRSZ)" and "hdr_ok h" and "body \<noteq> []" and "rsp_len h = HDRSZ + length body"
  shows "recv h body s = server_frame calm_world 1
    (upd_spc 1 (\<lambda>c. c\<lparr>spc_rcv := \<lparr>spc_hdr = enc_hdr h, spc_buf = Some body, spc_off = HDRSZ + length body\<rparr>\<rparr>) s)"
proof -
  have v: "spc_buf (spc_rcv (spclist s 1)) = None" "spc_off (spc_rcv (spclist s 1)) = 0" "length (spc_hdr (spc_rcv (spclist s 1))) = HDRSZ"
    using assms(1) by (simp_all add: client_view_def Let_def)
  have "readframe (\<lambda>_. True) (spc_rcv (spclist s 1)) \<lparr>sk_in = enc_hdr h @ body, sk_caps = [], sk_closed = False, sk_fail = False\<rparr> =
    Some (1, \<lparr>spc_hdr = enc_hdr h, spc_buf = Some body, spc_off = HDRSZ + length body\<rparr>,
      \<lparr>sk_in = [], sk_caps = [], sk_closed = False, sk_fail = False\<rparr>)"
    using v assms(2-4)
    by (cases "spc_rcv (spclist s 1)")
      (simp add: readframe_def readframe_body_def host_read_def Let_def put_at_def dec_enc_hdr size_sub_def HDRSZ_def)
  then show ?thesis by (simp add: recv_def server_read_def Let_def)
qed

lemma run_conn:
  "map_option (\<lambda>s. (client_view s, pool_view s)) (server_conn calm_world (spserver_init 3)) =
   Some ((SPCSTATE_NEW, SPCSTATUS_FREE, False, 1, None, 0, HDRSZ), (7, [], 0, 0, 0, []))"
  by code_simp

lemma hdr_recv [simp]: "hdr_ok h \<Longrightarrow> hdr i (upd_spc i (\<lambda>c. c\<lparr>spc_rcv := \<lparr>spc_hdr = enc_hdr h, spc_buf = b, spc_off = n\<rparr>\<rparr>) s) = h"
  by (simp add: hdr_def dec_enc_hdr)

lemma calm_world_ev [simp]:
  "ev calm_world (Hyp f as str) s =
     (if f = ''hyp_lwproc_curlwp'' then 5 else if f = ''hyp_getpid'' then 2 else 0, s\<lparr>log := log s @ [Hyp f as str]\<rparr>)"
  "ev calm_world (Tx i iov) s = (0, s\<lparr>log := log s @ [Tx i iov]\<rparr>)"
  "ev calm_world (Sys f is) s =
     (if f = ''accept'' then 7 else if f = ''send_banner'' then 1 else if f = ''malloc'' then 1 else 0, s\<lparr>log := log s @ [Sys f is]\<rparr>)"
  by (simp_all add: ev_def calm_world_def)

lemmas kernel_defs = lwproc_def lwproc_rfork_def lwproc_curlwp_def lwproc_getpid_def lwproc_switch_def lwproc_newlwp_def lwproc_lwpexit_def

lemma send_locked_calm:
  "spc_ostatus (spclist s i) = SPCSTATUS_FREE \<Longrightarrow>
   send_locked calm_world i iov s = Some (0, (upd_spc i (\<lambda>c. c\<lparr>spc_ostatus := SPCSTATUS_FREE\<rparr>) s)\<lparr>log := log s @ [Tx i iov]\<rparr>)"
  by (simp add: send_locked_def sendlockl_def sendunlockl_def upd_spc_def)

lemma recv_frame_of:
  assumes "client_view s = (st, os, ex, n, None, 0, HDRSZ)" and "body \<noteq> []" and "length body < 2 ^ 32"
    and "reqno < 2 ^ 64" "cls < 2 ^ 16" "typ < 2 ^ 16" "u < 2 ^ 32"
  shows "recv (frame_of reqno cls typ u body) body s = server_frame calm_world 1
      (upd_spc 1 (\<lambda>c. c\<lparr>spc_rcv := \<lparr>spc_hdr = enc_hdr (frame_of reqno cls typ u body), spc_buf = Some body,
        spc_off = HDRSZ + length body\<rparr>\<rparr>) s)"
    and "hdr_ok (frame_of reqno cls typ u body)"
proof -
  show "hdr_ok (frame_of reqno cls typ u body)" using assms(3-) by (simp add: hdr_ok_def frame_of_def HDRSZ_def)
  then show "recv (frame_of reqno cls typ u body) body s = server_frame calm_world 1
      (upd_spc 1 (\<lambda>c. c\<lparr>spc_rcv := \<lparr>spc_hdr = enc_hdr (frame_of reqno cls typ u body), spc_buf = Some body,
        spc_off = HDRSZ + length body\<rparr>\<rparr>) s)"
    using assms(2) by (intro recv_frame [OF assms(1)]) (simp_all add: frame_of_def)
qed

lemma recv_handshake:
  assumes "client_view s = (SPCSTATE_NEW, SPCSTATUS_FREE, False, n, None, 0, HDRSZ)"
  shows "\<exists>s'. recv (frame_of 0 0 0 0 [97]) [97] s = Some s' \<and>
    client_view s' = (SPCSTATE_RUNNING, SPCSTATUS_FREE, False, n, None, 0, HDRSZ) \<and> pool_view s' = pool_view s"
proof -
  have h: "hdr_ok (frame_of 0 0 0 0 [97])" and r: "recv (frame_of 0 0 0 0 [97]) [97] s = server_frame calm_world 1
      (upd_spc 1 (\<lambda>c. c\<lparr>spc_rcv := \<lparr>spc_hdr = enc_hdr (frame_of 0 0 0 0 [97]), spc_buf = Some [97], spc_off = HDRSZ + length [97 :: 8 word]\<rparr>\<rparr>) s)"
    using recv_frame_of [OF assms, of "[97]" 0 0 0 0] by simp_all
  have f: "rsp_class (frame_of 0 0 0 0 [97]) = 0" "rsp_type (frame_of 0 0 0 0 [97]) = 0" "rsp_u (frame_of 0 0 0 0 [97]) = 0"
    by (simp_all add: frame_of_def)
  show ?thesis
    unfolding r using assms
    by (simp add: h f server_frame_def handlereq_def handshake_guest_def handshake_done_def terminate_def kernel_defs buf_def
        send_handshake_resp_def send_locked_calm client_view_def pool_view_def Let_def spcfreebuf_def spcresetbuf_def)
qed

lemma sba_alloc_calm: "sba_alloc calm_world s = Some (True, s\<lparr>log := log s @ [Sys ''malloc'' []]\<rparr>)"
  by (subst sba_alloc.simps) simp

text \<open>The second frame is a system call; the first worker is started for it.\<close>

definition sys_sba :: servbouncearg where
  "sys_sba = \<lparr>sba_spc = 1, sba_hdr = frame_of 1 0 1 20 [0], sba_type = SBA_SYSCALL, sba_data = Some [0]\<rparr>"

definition exec_sba :: servbouncearg where
  "exec_sba = \<lparr>sba_spc = 1, sba_hdr = frame_of 2 0 0 3 [98], sba_type = SBA_EXEC, sba_data = Some [98]\<rparr>"

lemma recv_syscall:
  assumes "client_view s = (SPCSTATE_RUNNING, SPCSTATUS_FREE, False, 1, None, 0, HDRSZ)" and "pool_view s = (7, [], 0, 0, 0, [])"
  shows "\<exists>s'. recv (frame_of 1 0 1 20 [0]) [0] s = Some s' \<and>
    client_view s' = (SPCSTATE_RUNNING, SPCSTATUS_FREE, False, 2, None, 0, HDRSZ) \<and> pool_view s' = (7, [sys_sba], 1, 1, 0, [WTop])"
proof -
  have h: "hdr_ok (frame_of 1 0 1 20 [0])" and r: "recv (frame_of 1 0 1 20 [0]) [0] s = server_frame calm_world 1
      (upd_spc 1 (\<lambda>c. c\<lparr>spc_rcv := \<lparr>spc_hdr = enc_hdr (frame_of 1 0 1 20 [0]), spc_buf = Some [0], spc_off = HDRSZ + length [0 :: 8 word]\<rparr>\<rparr>) s)"
    using recv_frame_of [OF assms(1), of "[0]" 1 0 1 20] by simp_all
  have f: "rsp_class (frame_of 1 0 1 20 [0]) = 0" "rsp_type (frame_of 1 0 1 20 [0]) = 1"
    by (simp_all add: frame_of_def)
  have hd: "hdr 1 (t\<lparr>log := l\<rparr>) = hdr 1 t" for t l by (simp add: hdr_def)
  show ?thesis
    unfolding r using assms
    by (simp add: h f hd server_frame_def handlereq_def schedulework_def sba_alloc_calm queue_work_def buf_def sys_sba_def
        spcref_def client_view_def pool_view_def Let_def spcresetbuf_def MAXWORKER_def del: One_nat_def)
qed

lemma recv_exec:
  assumes "client_view s = (SPCSTATE_RUNNING, SPCSTATUS_FREE, False, 2, None, 0, HDRSZ)" and "pool_view s = (7, [], 0, 1, 0, [WStart sys_sba])"
  shows "\<exists>s'. recv (frame_of 2 0 0 3 [98]) [98] s = Some s' \<and>
    client_view s' = (SPCSTATE_RUNNING, SPCSTATUS_FREE, True, 3, None, 0, HDRSZ) \<and> pool_view s' = (7, [exec_sba], 1, 2, 0, [WStart sys_sba, WTop])"
proof -
  have h: "hdr_ok (frame_of 2 0 0 3 [98])" and r: "recv (frame_of 2 0 0 3 [98]) [98] s = server_frame calm_world 1
      (upd_spc 1 (\<lambda>c. c\<lparr>spc_rcv := \<lparr>spc_hdr = enc_hdr (frame_of 2 0 0 3 [98]), spc_buf = Some [98], spc_off = HDRSZ + length [98 :: 8 word]\<rparr>\<rparr>) s)"
    using recv_frame_of [OF assms(1), of "[98]" 2 0 0 3] by simp_all
  have f: "rsp_class (frame_of 2 0 0 3 [98]) = 0" "rsp_type (frame_of 2 0 0 3 [98]) = 0" "rsp_u (frame_of 2 0 0 3 [98]) = 3"
    by (simp_all add: frame_of_def)
  have hd: "hdr 1 (t\<lparr>log := l\<rparr>) = hdr 1 t" "hdr 1 (upd_spc 1 (\<lambda>c. c\<lparr>spc_inexec := x\<rparr>) t) = hdr 1 t" for t l x by (simp_all add: hdr_def)
  show ?thesis
    unfolding r using assms
    by (simp add: h f hd server_frame_def handlereq_def handle_exec_def schedulework_def sba_alloc_calm queue_work_def buf_def
        exec_sba_def kernel_defs spcref_def client_view_def pool_view_def Let_def spcresetbuf_def MAXWORKER_def del: One_nat_def)
qed

lemma worker_gets_work:
  assumes "client_view s = v" and "pool_view s = (p, [b], 1, n, 0, ws)" and "t < length ws"
  shows "\<exists>s'. worker_take t (worker_top t s) = Some s' \<and> client_view s' = v \<and>
    pool_view s' = (p, [], 0, n, 0, ws[t := if sba_type b = SBA_SYSCALL then WStart b else WExec b True])"
  using assms by (auto simp: worker_top_def worker_take_def client_view_def pool_view_def Let_def IDLEWORKER_def set_worker_def)

lemma exec_waits:
  assumes "client_view s = (st, os, ex, 3, x)" and "pool_view s = (p, l, n, m, k, ws)"
  shows "\<exists>s'. serv_handleexec calm_world t exec_sba s = Some s' \<and> client_view s' = client_view s \<and>
    pool_view s' = (p, l, n, m, k, ws[t := WExec exec_sba False])"
  using assms by (auto simp: serv_handleexec_def exec_sba_def client_view_def pool_view_def Let_def set_worker_def)

lemma step_recv:
  assumes "recv h body s = Some s'" and "pool_view s = (7, x)"
  shows "sp_step s s'"
  using assms sp_step.read [of 1 s] by (auto simp: recv_def pool_view_def MAXCLI_def)

lemma step_work:
  assumes "worker_take t (worker_top t s) = Some s'" and "pool_view s = (p, [b], 1, n, 0, ws)" and "t < length ws" and "ws ! t = WTop"
  shows "sp_step s (worker_top t s)" and "sp_step (worker_top t s) s'"
  using assms sp_step.top [of t s] sp_step.take [of t "worker_top t s" s']
  by (auto simp: pool_view_def worker_top_def IDLEWORKER_def set_worker_def)

lemma reach_next: "sp_reach n s \<Longrightarrow> sp_step s s' \<Longrightarrow> m = Suc n \<Longrightarrow> sp_reach m s'"
  by (auto intro: sp_reach.step)

text \<open>After five transitions a worker has taken a system call of the client.\<close>

lemma syscall_taken_reachable:
  "\<exists>s. sp_reach 5 s \<and> client_view s = (SPCSTATE_RUNNING, SPCSTATUS_FREE, False, 2, None, 0, HDRSZ) \<and>
     pool_view s = (7, [], 0, 1, 0, [WStart sys_sba])"
proof -
  obtain s1 where s1: "server_conn calm_world (spserver_init 3) = Some s1"
    "client_view s1 = (SPCSTATE_NEW, SPCSTATUS_FREE, False, 1, None, 0, HDRSZ)" "pool_view s1 = (7, [], 0, 0, 0, [])"
    using run_conn by auto
  obtain s2 where s2: "recv (frame_of 0 0 0 0 [97]) [97] s1 = Some s2"
    "client_view s2 = (SPCSTATE_RUNNING, SPCSTATUS_FREE, False, 1, None, 0, HDRSZ)" "pool_view s2 = (7, [], 0, 0, 0, [])"
    using recv_handshake [OF s1(2)] s1(3) by auto
  obtain s3 where s3: "recv (frame_of 1 0 1 20 [0]) [0] s2 = Some s3"
    "client_view s3 = (SPCSTATE_RUNNING, SPCSTATUS_FREE, False, 2, None, 0, HDRSZ)" "pool_view s3 = (7, [sys_sba], 1, 1, 0, [WTop])"
    using recv_syscall [OF s2(2,3)] by auto
  obtain s5 where s5: "worker_take 0 (worker_top 0 s3) = Some s5"
    "client_view s5 = (SPCSTATE_RUNNING, SPCSTATUS_FREE, False, 2, None, 0, HDRSZ)" "pool_view s5 = (7, [], 0, 1, 0, [WStart sys_sba])"
    using worker_gets_work [OF s3(2,3), of 0] by (auto simp: sys_sba_def)
  have "sp_reach 0 (spserver_init 3)" by (rule sp_reach.start) simp
  then have "sp_reach 1 s1" by (rule reach_next [OF _ sp_step.conn [OF s1(1)]]) simp
  then have "sp_reach 2 s2" by (rule reach_next [OF _ step_recv [OF s2(1) s1(3)]]) simp
  then have "sp_reach 3 s3" by (rule reach_next [OF _ step_recv [OF s3(1) s2(3)]]) simp
  then have "sp_reach 4 (worker_top 0 s3)" by (rule reach_next [OF _ step_work(1) [OF s5(1) s3(3)]]) simp_all
  then have "sp_reach 5 s5" by (rule reach_next [OF _ step_work(2) [OF s5(1) s3(3)]]) simp_all
  with s5 show ?thesis by blast
qed

text \<open>After four more, another worker waits to exec.\<close>

lemma exec_waits_reachable:
  "\<exists>s. sp_reach 9 s \<and> client_view s = (SPCSTATE_RUNNING, SPCSTATUS_FREE, True, 3, None, 0, HDRSZ) \<and>
     pool_view s = (7, [], 0, 2, 0, [WStart sys_sba, WExec exec_sba False])"
proof -
  obtain s5 where s5: "sp_reach 5 s5" "client_view s5 = (SPCSTATE_RUNNING, SPCSTATUS_FREE, False, 2, None, 0, HDRSZ)"
    "pool_view s5 = (7, [], 0, 1, 0, [WStart sys_sba])"
    using syscall_taken_reachable by blast
  obtain s6 where s6: "recv (frame_of 2 0 0 3 [98]) [98] s5 = Some s6"
    "client_view s6 = (SPCSTATE_RUNNING, SPCSTATUS_FREE, True, 3, None, 0, HDRSZ)"
    "pool_view s6 = (7, [exec_sba], 1, 2, 0, [WStart sys_sba, WTop])"
    using recv_exec [OF s5(2,3)] by auto
  obtain s8 where s8: "worker_take 1 (worker_top 1 s6) = Some s8"
    "client_view s8 = (SPCSTATE_RUNNING, SPCSTATUS_FREE, True, 3, None, 0, HDRSZ)"
    "pool_view s8 = (7, [], 0, 2, 0, [WStart sys_sba, WExec exec_sba True])"
    using worker_gets_work [OF s6(2,3), of 1] by (auto simp: exec_sba_def)
  obtain s9 where s9: "serv_handleexec calm_world 1 exec_sba s8 = Some s9"
    "client_view s9 = (SPCSTATE_RUNNING, SPCSTATUS_FREE, True, 3, None, 0, HDRSZ)"
    "pool_view s9 = (7, [], 0, 2, 0, [WStart sys_sba, WExec exec_sba False])"
    using exec_waits [OF s8(2,3), of 1] s8(2) by auto
  have "sp_reach 6 s6" by (rule reach_next [OF s5(1) step_recv [OF s6(1) s5(3)]]) simp
  then have "sp_reach 7 (worker_top 1 s6)" by (rule reach_next [OF _ step_work(1) [OF s8(1) s6(3)]]) simp_all
  then have "sp_reach 8 s8" by (rule reach_next [OF _ step_work(2) [OF s8(1) s6(3)]]) simp_all
  moreover have "sp_step s8 s9" using s8(3) sp_step.exec [of 1 s8 exec_sba, OF _ _ s9(1)] by (auto simp: pool_view_def)
  ultimately have "sp_reach 9 s9" by (rule reach_next) simp
  with s9 show ?thesis by blast
qed

text \<open>After two more instead, the system call waits for an answer of the client.\<close>

lemma copyin_waits_reachable:
  "\<exists>s. sp_reach 7 s \<and> spc_state (spclist s 1) = SPCSTATE_RUNNING \<and> pfd s 1 = 7 \<and> workers s = [WAwait sys_sba (CopyIn 2 False)] \<and>
     wrklist s = [] \<and> rw_error (waits s 0) = 0"
proof -
  obtain s5 where s5: "sp_reach 5 s5" "client_view s5 = (SPCSTATE_RUNNING, SPCSTATUS_FREE, False, 2, None, 0, HDRSZ)"
    "pool_view s5 = (7, [], 0, 1, 0, [WStart sys_sba])"
    using syscall_taken_reachable by blast
  have "\<exists>s6. syscall_begin calm_world 0 sys_sba s5 = Some s6 \<and> client_view s6 = client_view s5 \<and> pool_view s6 = (7, [], 0, 1, 0, [WSys sys_sba])"
    using s5 by (simp add: syscall_begin_def Let_def kernel_defs client_view_def pool_view_def sys_sba_def set_worker_def)
  then obtain s6 where s6: "syscall_begin calm_world 0 sys_sba s5 = Some s6" "client_view s6 = client_view s5"
    "pool_view s6 = (7, [], 0, 1, 0, [WSys sys_sba])" by blast
  have "\<exists>s7. sp_copyin calm_world 0 sys_sba 4096 2 False s6 = Some s7 \<and> spc_state (spclist s7 1) = SPCSTATE_RUNNING \<and> pfd s7 1 = 7 \<and>
      workers s7 = [WAwait sys_sba (CopyIn 2 False)] \<and> wrklist s7 = [] \<and> rw_error (waits s7 0) = 0"
    using s6 s5(2)
    by (simp add: sp_copyin_def copyin_req_def send_req_def putwait_def doputwait_def sendlockl_def sendunlockl_def Let_def
        client_view_def pool_view_def sys_sba_def set_worker_def)
  then obtain s7 where s7: "sp_copyin calm_world 0 sys_sba 4096 2 False s6 = Some s7" "spc_state (spclist s7 1) = SPCSTATE_RUNNING" "pfd s7 1 = 7"
    "workers s7 = [WAwait sys_sba (CopyIn 2 False)]" "wrklist s7 = []" "rw_error (waits s7 0) = 0" by blast
  have "sp_step s5 s6" using s5(3) by (intro sp_step.sys_begin [OF _ _ s6(1)]) (simp_all add: pool_view_def)
  with s5(1) have "sp_reach 6 s6" by (rule reach_next) simp
  moreover have "sp_step s6 s7" using s6(3) by (intro sp_step.copyin [OF _ _ s7(1)]) (simp_all add: pool_view_def)
  ultimately have "sp_reach 7 s7" by (rule reach_next) simp
  with s7 show ?thesis by blast
qed

section \<open>Slots and references\<close>

text \<open>
  C6: the server's invariant.  In every reachable state and for every slot, the reference count is one
  for the connection plus one for each piece of work, queued or running; there is no work for a client
  before its handshake; the descriptor is held exactly as long as there are references; the poll list
  covers every connected slot; the workers that wait for the client's answers are queued once each;
  and the counters of the worker pool are right, with at most 128 workers.
\<close>

theorem sp_server_invariant:
  assumes "sp_reach n s" and "0 < i" and "i < MAXCLI"
  shows "spc_refcnt (spclist s i) = of_bool (pfd s i \<noteq> - 1) + jobs i s \<and>
    (jobs i s = 0 \<or> spc_state (spclist s i) \<noteq> SPCSTATE_NEW) \<and>
    (spc_fd (spclist s i) = - 1 \<longleftrightarrow> spc_refcnt (spclist s i) = 0) \<and>
    (pfd s i = - 1 \<or> spc_fd (spclist s i) = pfd s i \<and> i \<le> maxidx s) \<and> maxidx s < MAXCLI \<and>
    distinct (spc_respwait (spclist s i)) \<and> set (spc_respwait (spclist s i)) = waiters i s \<and>
    nwork s = int (length (wrklist s)) \<and> nworker s = cnt (\<lambda>p. p \<noteq> WNone) (workers s) \<and> nworker s \<le> MAXWORKER"
proof -
  have inv: "sp_inv s" using assms(1) by (rule sp_reach_inv)
  have slot: "slot_ok (pfd s i) (spclist s i) (jobs i s) (waiters i s)"
    using assms(2,3) by (intro sp_inv_slot [OF inv]) (simp add: slots_def)
  have fd: "spc_fd (spclist s i) = - 1 \<longleftrightarrow> spc_refcnt (spclist s i) = 0"
    using slot jobs_ge_0 [of i s] by (cases "pfd s i = - 1"; cases "jobs i s = 0") (simp_all add: slot_ok_def)
  have "pfd s i = - 1 \<or> i \<le> maxidx s" "maxidx s < MAXCLI" using inv assms(3) by (auto simp: sp_inv_def poll_ok_def)
  moreover have "nwork s = int (length (wrklist s))" "nworker s = cnt (\<lambda>p. p \<noteq> WNone) (workers s)" "nworker s \<le> MAXWORKER"
    using inv by (simp_all add: sp_inv_def pool_ok_def)
  ultimately show ?thesis using slot fd unfolding slot_ok_def by blast
qed

theorem sp_server_invariant_witness:
  "\<exists>s. sp_reach 9 s \<and> spc_refcnt (spclist s 1) = 3 \<and> jobs 1 s = 2 \<and> pfd s 1 = 7 \<and> spc_fd (spclist s 1) = 7 \<and> nworker s = 2"
proof -
  obtain s where s: "sp_reach 9 s" "client_view s = (SPCSTATE_RUNNING, SPCSTATUS_FREE, True, 3, None, 0, HDRSZ)"
    "pool_view s = (7, [], 0, 2, 0, [WStart sys_sba, WExec exec_sba False])"
    using exec_waits_reachable by blast
  from sp_server_invariant [OF s(1), of 1] s show ?thesis
    by (intro exI [of _ s]) (simp add: MAXCLI_def client_view_def pool_view_def Let_def)
qed

text \<open>
  C24: a connection never aborts the server.  In every reachable state, with any answers of the host,
  \<open>serv_handleconn\<close> returns: either it drops the connection and leaves all slots as they were, or it
  takes a slot without connection, references and work.
\<close>

theorem handleconn_never_aborts:
  assumes "sp_reach n s"
  shows "\<exists>idx s'. serv_handleconn w fd (nfds s = int MAXCLI) s = Some (idx, s') \<and>
    (idx = 0 \<and> spclist s' = spclist s \<and> pfd s' = pfd s \<or>
     idx \<in> {1..<MAXCLI} \<and> pfd s idx = - 1 \<and> spc_refcnt (spclist s idx) = 0 \<and> jobs idx s = 0 \<and>
     pfd s' idx \<noteq> - 1 \<and> spc_fd (spclist s' idx) = pfd s' idx \<and> spc_refcnt (spclist s' idx) = 1 \<and>
     (\<forall>j. j \<noteq> idx \<longrightarrow> spclist s' j = spclist s j \<and> pfd s' j = pfd s j))"
proof (cases "nfds s = int MAXCLI")
  case True
  then show ?thesis by (simp add: serv_handleconn_def Let_def ev_def)
next
  case False
  have inv: "sp_inv s" using assms by (rule sp_reach_inv)
  obtain i where i: "free_slot s = Some i" "i \<in> slots" "pfd s i = - 1" "spc_state (spclist s i) = SPCSTATE_NEW"
    using free_slot_exists [OF inv False] by blast
  have "jobs i s = 0 \<and> spc_refcnt (spclist s i) = 0" using sp_inv_slot [OF inv i(2)] i(3,4) by (auto simp: slot_ok_def)
  moreover have "free_slot (s\<lparr>log := l\<rparr>) = free_slot s" for l by (simp add: free_slot_def)
  ultimately show ?thesis using False i
    by (auto simp: serv_handleconn_def Let_def ev_def slots_def spclist_upd)
qed

theorem handleconn_never_aborts_witness:
  "\<exists>idx s'. serv_handleconn calm_world 3 (nfds (spserver_init 3) = int MAXCLI) (spserver_init 3) = Some (idx, s')"
  using handleconn_never_aborts [OF sp_reach.start [of 3], of calm_world 3] by auto

section \<open>Shutting down\<close>

lemma release_refcnt: "spc_refcnt (spclist (spcrelease w i s) i) = spc_refcnt (spclist s i) - 1"
  by (simp add: spcrelease_def Let_def split_beta)

lemma release_other: "j \<noteq> i \<Longrightarrow> spclist (spcrelease w i s) j = spclist s j"
  by (simp add: spcrelease_def Let_def split_beta spclist_upd)

lemma disco_spclist:
  "spc_refcnt (spclist (serv_handledisco w i s) i) = spc_refcnt (spclist s i) - 1"
  "j \<noteq> i \<Longrightarrow> spclist (serv_handledisco w i s) j = spclist s j"
  by (simp_all add: serv_handledisco_def Let_def release_refcnt release_other sendunlockl_def spclist_upd zero_spc_def)

lemma shutdown_other: "i \<notin> set is \<Longrightarrow> spclist (shutdown_from w is s) i = spclist s i"
proof (induction "is" arbitrary: s)
  case (Cons k "is")
  then show ?case by (simp add: Let_def split_beta release_other disco_spclist)
qed simp

lemma shutdown_refcnt:
  assumes "i \<in> set is" and "distinct is" and "spc_fd (spclist s i) \<noteq> - 1"
  shows "spc_refcnt (spclist (shutdown_from w is s) i) = spc_refcnt (spclist s i) - 2"
  using assms
proof (induction "is" arbitrary: s)
  case (Cons k "is")
  show ?case
  proof (cases "k = i")
    case True
    then show ?thesis using Cons.prems by (simp add: Let_def split_beta shutdown_other release_refcnt disco_spclist)
  next
    case False
    then show ?thesis using Cons by (simp add: Let_def split_beta release_other disco_spclist)
  qed
qed simp

text \<open>
  C26: shutting down releases every client twice.  \<open>serv_handledisco\<close> gives up the reference of the
  connection, and \<open>serv_shutdown\<close> then gives up another one that nobody holds: the count of a connected
  client ends one below the number of its pieces of work, so that it is -1 without work and reaches 0,
  with the descriptor closed, while a worker still uses the client.
\<close>

theorem shutdown_releases_twice:
  assumes "sp_reach n s" and "0 < i" and "i < MAXCLI" and "pfd s i \<noteq> - 1"
  shows "spc_refcnt (spclist (serv_shutdown w s) i) = jobs i s - 1"
proof -
  have "slot_ok (pfd s i) (spclist s i) (jobs i s) (waiters i s)"
    using assms(2,3) by (intro sp_inv_slot [OF sp_reach_inv [OF assms(1)]]) (simp add: slots_def)
  then have "spc_refcnt (spclist s i) = 1 + jobs i s" "spc_fd (spclist s i) \<noteq> - 1" using assms(4) by (simp_all add: slot_ok_def)
  moreover have "i \<in> set [1..<MAXCLI]" using assms(2,3) by simp
  ultimately show ?thesis unfolding serv_shutdown_def by (simp add: shutdown_refcnt del: set_upt)
qed

theorem shutdown_releases_twice_witness:
  "\<exists>s. sp_reach 7 s \<and> jobs 1 s = 1 \<and> spc_refcnt (spclist (serv_shutdown calm_world s) 1) = 0"
proof -
  obtain s where s: "sp_reach 7 s" "pfd s 1 = 7" "workers s = [WAwait sys_sba (CopyIn 2 False)]" "wrklist s = []"
    using copyin_waits_reachable by blast
  then have "jobs 1 s = 1" by (simp add: jobs_def sys_sba_def)
  with shutdown_releases_twice [OF s(1), of 1 calm_world] s(1,2) show ?thesis by (auto simp: MAXCLI_def)
qed

end
