(* ===== verification/Sp_Server_Req.thy ===== *)
theory Sp_Server_Req
  imports Sp_Server_Props
begin

text \<open>
  Two further invariants of the proxy server: the request numbers that workers wait for are
  distinct, and a worker that waits to exec for a client that is gone waits for ever.  \<open>shape\<close>
  hides what neither depends on.
\<close>

section \<open>The shape of a state\<close>

definition shape_spc :: "spclient \<Rightarrow> spclient" where
  "shape_spc c = (zero_spc c)\<lparr>spc_ostatus := spc_ostatus c, spc_inexec := spc_inexec c, spc_nextreq := spc_nextreq c, spc_mainlwp := 0, spc_pid := 0\<rparr>"

definition shape_rw :: "respwait \<Rightarrow> respwait" where
  "shape_rw rw = \<lparr>rw_reqno = rw_reqno rw, rw_data = None, rw_dlen = 0, rw_done = False, rw_error = 0\<rparr>"

definition shape :: "srv \<Rightarrow> srv" where
  "shape s = s\<lparr>spclist := shape_spc \<circ> spclist s, waits := shape_rw \<circ> waits s, preforks := [], log := [], oob := 0\<rparr>"

lemma shape_spc_sel [simp]:
  "spc_fd (shape_spc c) = spc_fd c" "spc_refcnt (shape_spc c) = spc_refcnt c" "spc_state (shape_spc c) = spc_state c"
  "spc_respwait (shape_spc c) = spc_respwait c" "spc_ostatus (shape_spc c) = spc_ostatus c" "spc_inexec (shape_spc c) = spc_inexec c"
  "spc_nextreq (shape_spc c) = spc_nextreq c"
  by (simp_all add: shape_spc_def zero_spc_def)

lemma shape_sel [simp]:
  "spclist (shape s) i = shape_spc (spclist s i)" "pfd (shape s) = pfd s" "workers (shape s) = workers s" "rw_reqno (waits (shape s) t) = rw_reqno (waits s t)"
  by (simp_all add: shape_def shape_rw_def)

lemma shape_quiet [simp]:
  "shape (s\<lparr>log := l\<rparr>) = shape s" "shape (s\<lparr>oob := n\<rparr>) = shape s" "shape (s\<lparr>preforks := p\<rparr>) = shape s"
  by (simp_all add: shape_def)

lemma shape_ev [simp]: "shape (snd (ev w e s)) = shape s"
  by (simp add: ev_def)

lemma shape_upd: "shape_spc (f (spclist s i)) = shape_spc (spclist s i) \<Longrightarrow> shape (upd_spc i f s) = shape s"
  by (auto simp: shape_def upd_spc_def fun_eq_iff intro!: arg_cong [where f = "\<lambda>x. spclist_update x _"])

lemma shape_lwproc [simp]: "shape (snd (lwproc w f a b s)) = shape s"
  by (simp add: lwproc_def ev_def)

lemma shape_lwproc_ops [simp]:
  "shape (lwproc_switch w l s) = shape s" "shape (lwproc_release w s) = shape s" "shape (lwproc_execnotify w c s) = shape s"
  "shape (lwproc_lwpexit w s) = shape s" "shape (snd (lwproc_rfork w i fl c s)) = shape s" "shape (snd (lwproc_newlwp w pid s)) = shape s"
  "shape (snd (lwproc_curlwp w s)) = shape s" "shape (snd (lwproc_getpid w s)) = shape s"
  by (simp_all add: lwproc_switch_def lwproc_release_def lwproc_execnotify_def lwproc_lwpexit_def lwproc_rfork_def
      lwproc_newlwp_def lwproc_curlwp_def lwproc_getpid_def)

lemma shape_fields [simp]:
  "shape (spcresetbuf i s) = shape s" "shape (spcfreebuf i s) = shape s" "shape (upd_spc i (\<lambda>c. c\<lparr>spc_mainlwp := l\<rparr>) s) = shape s"
  "shape (upd_spc i (\<lambda>c. c\<lparr>spc_pid := p\<rparr>) s) = shape s" "shape (upd_spc i (\<lambda>c. c\<lparr>spc_syscallreq := n\<rparr>) s) = shape s"
  "shape (upd_spc i (\<lambda>c. c\<lparr>spc_rcv := r\<rparr>) s) = shape s"
  by (simp_all add: spcfreebuf_def spcresetbuf_def shape_upd shape_spc_def zero_spc_def)

lemma shape_small [simp]: "shape (shutdown_spc w i s) = shape s" "shape (give t rv d s) = shape s"
  by (simp_all add: shutdown_spc_def give_def)

lemma shape_send_locked:
  assumes "send_locked w i iov s = Some (rv, s')"
  shows "shape s' = shape s"
proof -
  have "spc_ostatus (spclist s i) = SPCSTATUS_FREE" and
    "s' = upd_spc i (\<lambda>c. c\<lparr>spc_ostatus := SPCSTATUS_FREE\<rparr>) (s\<lparr>log := log s @ [Tx i iov],
        spclist := (spclist s)(i := spclist s i\<lparr>spc_ostatus := SPCSTATUS_BUSY\<rparr>)\<rparr>)"
    using assms by (auto simp: send_locked_def sendlockl_def sendunlockl_def ev_def upd_spc_def split: if_splits)
  then show ?thesis by (auto simp: shape_def upd_spc_def shape_spc_def zero_spc_def fun_eq_iff)
qed

lemma shape_sends:
  "send_error_resp w i n e s = Some s' \<Longrightarrow> shape s' = shape s"
  "send_handshake_resp w i n x s = Some (rv, s') \<Longrightarrow> shape s' = shape s"
  "send_syscall_resp w i n x r s = Some (rv, s') \<Longrightarrow> shape s' = shape s"
  "send_prefork_resp w i n a s = Some (rv, s') \<Longrightarrow> shape s' = shape s"
  by (auto simp: send_error_resp_def send_handshake_resp_def send_syscall_resp_def send_prefork_resp_def dest: shape_send_locked)

lemma shape_terminate: "terminate c n s = Some (x, s') \<Longrightarrow> shape s' = shape s"
  by (auto simp: terminate_def split: bind_splits if_splits)

lemma shape_sba_alloc: "sba_alloc w s = Some r \<Longrightarrow> shape (snd r) = shape s"
proof (rule sba_alloc.raw_induct [where P = "\<lambda>w s r. shape (snd r) = shape s"], goal_cases)
  case (1 f w s r)
  from 1(3) show ?case by (auto split: if_splits dest!: 1(2))
qed

lemma shape_set_worker: "shape (set_worker t p s) = set_worker t p (shape s)"
  by (simp add: shape_def set_worker_def)

lemma shape_cong:
  assumes "shape s = shape s'"
  shows "pfd s = pfd s'" and "workers s = workers s'" and "shape_spc (spclist s i) = shape_spc (spclist s' i)"
    and "rw_reqno (waits s t) = rw_reqno (waits s' t)"
  using arg_cong [OF assms, of pfd] arg_cong [OF assms, of workers] arg_cong [OF assms, of "\<lambda>s. spclist s i"]
    arg_cong [OF assms, of "\<lambda>s. rw_reqno (waits s t)"] by simp_all

lemma shape_kickwaiter [simp]: "shape (kickwaiter i s) = shape s"
proof -
  have "shape (s\<lparr>waits := (waits s)(t := rw)\<rparr>) = shape s" if "rw_reqno rw = rw_reqno (waits s t)" for t rw
    using that by (auto simp: shape_def shape_rw_def fun_eq_iff intro!: arg_cong [where f = "\<lambda>x. waits_update x _"])
  then show ?thesis by (auto simp: kickwaiter_def Let_def split: option.split)
qed

lemma shape_upd_eq: "shape (upd_spc i f s) = (shape s)\<lparr>spclist := (spclist (shape s))(i := shape_spc (f (spclist s i)))\<rparr>"
  by (auto simp: shape_def upd_spc_def fun_eq_iff intro!: arg_cong [where f = "\<lambda>x. spclist_update x _"])

lemma shape_upd_cong:
  assumes "shape s = shape s'" and "\<And>c c'. shape_spc c = shape_spc c' \<Longrightarrow> shape_spc (f c) = shape_spc (f c')"
  shows "shape (upd_spc i f s) = shape (upd_spc i f s')"
  using assms(1) assms(2) [OF shape_cong(3) [OF assms(1), of i]] by (simp add: shape_upd_eq)

lemma shape_spc_state: "shape_spc c = shape_spc c' \<Longrightarrow> shape_spc (c\<lparr>spc_state := x\<rparr>) = shape_spc (c'\<lparr>spc_state := x\<rparr>)"
proof -
  have "shape_spc (c\<lparr>spc_state := x\<rparr>) = (shape_spc c)\<lparr>spc_state := x\<rparr>" for c by (cases c) (simp add: shape_spc_def zero_spc_def)
  then show "shape_spc c = shape_spc c' \<Longrightarrow> shape_spc (c\<lparr>spc_state := x\<rparr>) = shape_spc (c'\<lparr>spc_state := x\<rparr>)" by (simp only:)
qed

lemma shape_handshake_done: "shape s0 = shape s \<Longrightarrow> shape (handshake_done w i s0) = shape (run_spc i s)"
  unfolding handshake_done_def run_spc_def Let_def split_beta
  by (rule shape_upd_cong [OF _ shape_spc_state]) (simp, assumption)

lemma shape_handshake_guest:
  assumes "handshake_guest w i s = Some s'"
  shows "shape s' = shape s \<or> shape s' = shape (run_spc i s)"
proof -
  obtain comm s0 where t: "terminate (buf i s) (size_sub (rsp_len (hdr i s)) HDRSZ) s = Some (comm, s0)"
    using assms by (auto simp: handshake_guest_def Option.bind_eq_Some_conv)
  show ?thesis
    using assms t shape_terminate [OF t]
    by (auto simp: handshake_guest_def Let_def split_beta Option.bind_eq_Some_conv shape_handshake_done dest!: shape_sends(2) split: if_splits)
qed

lemma shape_handshake_fork:
  assumes "handshake_fork w i s = Some s'"
  shows "shape s' = shape s \<or> shape s' = shape (run_spc i s)"
  using assms
  by (auto simp: handshake_fork_def Let_def split_beta Option.bind_eq_Some_conv shape_handshake_done
      dest!: shape_sends(1) shape_sends(2) split: if_splits option.splits)

lemma shape_handle_prefork: "handle_prefork w i s = Some s' \<Longrightarrow> shape s' = shape s"
  by (auto simp: handle_prefork_def Let_def split_beta dest!: shape_sends(1) shape_sends(4) split: if_splits)

lemma shape_handleconn:
  assumes "sp_inv s" and "serv_handleconn w fd (nfds s = int MAXCLI) s = Some (idx, s')"
  shows "shape s' = shape s \<or>
    idx \<in> slots \<and> pfd s idx = - 1 \<and> spc_state (spclist s idx) = SPCSTATE_NEW \<and>
     (\<exists>newfd. shape s' = shape (upd_spc idx
        (\<lambda>c. c\<lparr>spc_fd := newfd, spc_istatus := SPCSTATUS_BUSY, spc_refcnt := 1, spc_respwait := []\<rparr>) (s\<lparr>pfd := (pfd s)(idx := newfd)\<rparr>)))"
proof (cases "nfds s = int MAXCLI")
  case True
  then show ?thesis using assms(2) by (auto simp: serv_handleconn_def Let_def split_beta split: if_splits)
next
  case False
  then obtain i where i: "free_slot s = Some i" "i \<in> slots" "pfd s i = - 1" "spc_state (spclist s i) = SPCSTATE_NEW"
    using free_slot_exists assms by blast
  have f: "free_slot (s\<lparr>log := l\<rparr>) = free_slot s" for l by (simp add: free_slot_def)
  show ?thesis using False i assms(2)
    by (auto simp: serv_handleconn_def Let_def ev_def f upd_spc_outside split: if_splits) (auto simp: shape_def upd_spc_def)
qed

section \<open>Properties kept by every transition\<close>

text \<open>
  What it takes for a property of the state, indexed by a bound on the number of transitions, to be
  kept: it depends on the shape only, and the few operations that change the shape keep it.
\<close>

locale kept =
  fixes P :: "nat \<Rightarrow> srv \<Rightarrow> bool"
  assumes later: "P k s \<Longrightarrow> P (Suc k) s"
    and shape: "shape s' = shape s \<Longrightarrow> P k s \<Longrightarrow> P k s'"
    and gc: "P k s \<Longrightarrow> P k (server_gc s)"
    and counters: "P k s \<Longrightarrow> P k (s\<lparr>nfds := n\<rparr>)" "P k s \<Longrightarrow> P k (s\<lparr>maxidx := m\<rparr>)"
    and new_client: "sp_inv s \<Longrightarrow> P k s \<Longrightarrow> i \<in> slots \<Longrightarrow> pfd s i = - 1 \<Longrightarrow> spc_state (spclist s i) = SPCSTATE_NEW \<Longrightarrow>
      P k (upd_spc i (\<lambda>c. c\<lparr>spc_fd := newfd, spc_istatus := SPCSTATUS_BUSY, spc_refcnt := 1, spc_respwait := []\<rparr>)
        (s\<lparr>pfd := (pfd s)(i := newfd)\<rparr>))"
    and disconnect: "sp_inv s \<Longrightarrow> P k s \<Longrightarrow> i \<in> slots \<Longrightarrow> pfd s i \<noteq> - 1 \<Longrightarrow> P k (serv_handledisco w i s)"
    and running: "sp_inv s \<Longrightarrow> P k s \<Longrightarrow> i \<in> slots \<Longrightarrow> pfd s i \<noteq> - 1 \<Longrightarrow> spc_state (spclist s i) = SPCSTATE_NEW \<Longrightarrow> P k (run_spc i s)"
    and exec_begin: "P k s \<Longrightarrow> pfd s i \<noteq> - 1 \<Longrightarrow> P k (upd_spc i (\<lambda>c. c\<lparr>spc_inexec := True\<rparr>) s)"
    and exec_end: "P k s \<Longrightarrow> P k (upd_spc i (\<lambda>c. c\<lparr>spc_inexec := False\<rparr>) s)"
    and queue: "P k s \<Longrightarrow> P k (queue_work w b s)"
    and top: "P k s \<Longrightarrow> t < length (workers s) \<Longrightarrow> workers s ! t = WTop \<Longrightarrow> P k (worker_top t s)"
    and take: "P k s \<Longrightarrow> t < length (workers s) \<Longrightarrow> workers s ! t = WIdle \<Longrightarrow> worker_take t s = Some s' \<Longrightarrow> P k s'"
    and phase: "P k s \<Longrightarrow> t < length (workers s) \<Longrightarrow> (\<And>b. workers s ! t \<noteq> WExec b False) \<Longrightarrow> P k (set_worker t p s)"
    and finish: "P k s \<Longrightarrow> t < length (workers s) \<Longrightarrow> work (workers s ! t) = Some b \<Longrightarrow> (\<And>b. workers s ! t \<noteq> WExec b False) \<Longrightarrow>
      P k (worker_done w t b s)"
    and request: "sp_inv s \<Longrightarrow> P k s \<Longrightarrow> t < length (workers s) \<Longrightarrow> workers s ! t = WSys b \<Longrightarrow>
      send_req w (sba_spc b) t iov s = Some (rv, s') \<Longrightarrow> P (Suc k) s'"
    and number: "P k s \<Longrightarrow> P (Suc k) (snd (nextreq i s))"
    and unwait: "P k s \<Longrightarrow> P k (dounputwait i t s)"
begin

lemma quiet: "P k s \<Longrightarrow> shape s' = shape s \<Longrightarrow> P k s'"
  by (rule shape)

lemma schedulework_kept:
  assumes "P k s" and "schedulework w i typ s = Some s'"
  shows "P k s'"
proof -
  obtain ok s1 where a: "sba_alloc w s = Some (ok, s1)" using assms(2) by (auto simp: schedulework_def Let_def Option.bind_eq_Some_conv)
  have p1: "P k s1" using shape_sba_alloc [OF a] by (intro quiet [OF assms(1)]) simp
  show ?thesis
  proof (cases ok)
    case False
    then obtain s2 where "send_error_resp w i (rsp_reqno (hdr i s)) RUMPSP_ERR_TRYAGAIN s1 = Some s2" "s' = spcfreebuf i s2"
      using assms(2) a by (auto simp: schedulework_def Let_def)
    then show ?thesis using shape_sends(1) by (intro quiet [OF p1]) simp
  next
    case True
    then have "s' = queue_work w \<lparr>sba_spc = i, sba_hdr = hdr i s1, sba_type = typ, sba_data = buf i s1\<rparr> (spcresetbuf i s1)"
      using assms(2) a by (simp add: schedulework_def Let_def)
    moreover have "P k (spcresetbuf i s1)" by (rule quiet [OF p1]) simp
    ultimately show ?thesis using queue by simp
  qed
qed

lemma handle_exec_kept:
  assumes "P k s" and "pfd s i \<noteq> - 1" and "handle_exec w i s = Some s'"
  shows "P k s'"
proof -
  define s0 where "s0 = lwproc_switch w 0 (lwproc_lwpexit w (lwproc_switch w (spc_mainlwp (spclist s i))
    (upd_spc i (\<lambda>c. c\<lparr>spc_inexec := True\<rparr>) s)))"
  have "P k s0" unfolding s0_def by (rule quiet [OF exec_begin [OF assms(1,2)]]) simp
  moreover consider "shape s' = shape s" | "schedulework w i SBA_EXEC s0 = Some s'"
    using assms(3) by (auto simp: handle_exec_def Let_def s0_def dest!: shape_sends(1) split: if_splits)
  ultimately show ?thesis using quiet [OF assms(1)] schedulework_kept by metis
qed

end

context kept
begin

lemma handlereq_kept:
  assumes inv: "sp_inv s" and p: "P k s" and i: "i \<in> slots" "pfd s i \<noteq> - 1" and "handlereq w i s = Some s'"
  shows "P k s'"
proof (cases "spc_state (spclist s i) = SPCSTATE_NEW")
  case True
  then have "shape s' = shape s \<or> shape s' = shape (run_spc i s)"
    using assms(5) shape_handshake_guest shape_handshake_fork by (auto simp: handlereq_def Let_def dest!: shape_sends(1) split: if_splits)
  then show ?thesis using quiet [OF p] quiet [OF running [OF inv p i True]] by blast
next
  case False
  then consider "shape s' = shape s" | "handle_exec w i s = Some s'" | "schedulework w i SBA_SYSCALL s = Some s'"
    using assms(5) shape_handle_prefork by (auto simp: handlereq_def Let_def dest!: shape_sends(1) split: if_splits)
  then show ?thesis using quiet [OF p] handle_exec_kept [OF p i(2)] schedulework_kept [OF p] by cases blast+
qed

lemma server_read_kept:
  assumes inv: "sp_inv s" and p: "P k s" and i: "i \<in> slots" "pfd s i \<noteq> - 1" and "server_read w alloc sk i s = Some s'"
  shows "P k s'"
proof -
  obtain r c sk' where rd: "readframe alloc (spc_rcv (spclist s i)) sk = Some (r, c, sk')"
    using assms(5) by (auto simp: server_read_def Option.bind_eq_Some_conv)
  define s0 where "s0 = upd_spc i (\<lambda>x. x\<lparr>spc_rcv := c\<rparr>) s"
  have "core s0 = core s" by (simp add: s0_def core_upd core_spc_def zero_spc_def)
  then have inv0: "sp_inv s0" using inv by (metis sp_inv_cong)
  have p0: "P k s0" by (rule quiet [OF p]) (simp add: s0_def)
  have i0: "pfd s0 i \<noteq> - 1" using i by (simp add: s0_def)
  have "(if r = 0 then Some s0 else if r = - 1 then Some (serv_handledisco w i s0) else server_frame w i s0) = Some s'"
    using assms(5) unfolding server_read_def rd s0_def by (simp only: Option.bind.simps split_conv Let_def)
  then consider "s' = s0" | "s' = serv_handledisco w i s0" | "server_frame w i s0 = Some s'"
    by (cases "r = 0"; cases "r = - 1") auto
  then show ?thesis
  proof cases
    case 3
    then consider "shape s' = shape s0" | "handlereq w i s0 = Some s'"
      by (auto simp: server_frame_def dest!: shape_sends(1) split: if_splits)
    then show ?thesis using quiet [OF p0] handlereq_kept [OF inv0 p0 i(1) i0] by cases
  qed (simp_all add: p0 disconnect [OF inv0 p0 i(1) i0])
qed

lemma server_conn_kept:
  assumes inv: "sp_inv s" and p: "P k s" and "server_conn w s = Some s'"
  shows "P k s'"
proof -
  obtain idx s1 where s1: "serv_handleconn w (pfd s 0) (nfds s = int MAXCLI) s = Some (idx, s1)"
    using handleconn_cases [OF inv refl, of w "pfd s 0"] by blast
  have p1: "P k s1"
    using shape_handleconn [OF inv s1] quiet [OF p] quiet [OF new_client [OF inv p]] by blast
  have "s' = (let s2 = (if idx \<noteq> 0 then s1\<lparr>nfds := nfds s1 + 1\<rparr> else s1) in if idx > maxidx s2 then s2\<lparr>maxidx := idx\<rparr> else s2)"
    using assms(3) s1 unfolding server_conn_def by (simp only: Option.bind.simps split_beta fst_conv snd_conv Let_def option.inject)
  then show ?thesis using p1 counters by (simp add: Let_def)
qed

lemma request_kept:
  assumes inv: "sp_inv s" and p: "P k s" and t: "t < length (workers s)" "workers s ! t = WSys b"
    and "send_req w (sba_spc b) t iov (snd (ev w e s)) = Some (rv, s1)"
  shows "P (Suc k) s1" and "rv = 0 \<Longrightarrow> P (Suc k) (set_worker t (WAwait b q) s1)"
proof -
  define s0 where "s0 = snd (ev w e s)"
  have "sp_inv s0" using inv by (metis sp_inv_cong core_ev s0_def)
  moreover have "P k s0" by (rule quiet [OF p]) (simp add: s0_def)
  moreover have w0: "workers s0 = workers s" by (simp add: s0_def ev_def)
  ultimately show p1: "P (Suc k) s1" using t assms(5) by (intro request [of s0 k t b w iov rv]) (simp_all add: s0_def)
  show "P (Suc k) (set_worker t (WAwait b q) s1)" if "rv = 0"
  proof (rule phase [OF p1])
    have "workers s1 = workers s0"
      using assms(5) that unfolding s0_def [symmetric]
      by (auto simp: send_req_def putwait_def doputwait_def sendlockl_def sendunlockl_def Let_def ev_def broadcast_def split: if_splits)
    then show "t < length (workers s1)" "workers s1 ! t \<noteq> WExec b' False" for b' using t w0 by simp_all
  qed
qed

lemma copyin_kept:
  assumes "sp_inv s" and "P k s" and "t < length (workers s)" "workers s ! t = WSys b" and "sp_copyin w t b raddr len wantstr s = Some s'"
  shows "P (Suc k) s'"
proof -
  obtain rv s1 where r: "copyin_req w (sba_spc b) t raddr len wantstr (snd (ev w (Sys ''rumpkern_unsched'' []) s)) = Some (rv, s1)"
    and s': "s' = (if rv \<noteq> 0 then give t (errno_val EFAULT) [] (snd (ev w (Sys ''rumpkern_sched'' []) s1))
      else set_worker t (WAwait b (CopyIn len wantstr)) s1)"
    using assms(5) by (auto simp: sp_copyin_def split_beta Option.bind_eq_Some_conv)
  note q = request_kept [OF assms(1-4) r [unfolded copyin_req_def]]
  show ?thesis using q(2) quiet [OF q(1)] unfolding s' by (cases "rv = 0") simp_all
qed

lemma anonmmap_kept:
  assumes "sp_inv s" and "P k s" and "t < length (workers s)" "workers s ! t = WSys b" and "rumpuser_sp_anonmmap w t b howmuch s = Some s'"
  shows "P (Suc k) s'"
proof -
  obtain rv s1 where r: "anonmmap_req w (sba_spc b) t howmuch (snd (ev w (Sys ''rumpkern_unsched'' []) s)) = Some (rv, s1)"
    and s': "s' = (if rv \<noteq> 0 then give t (errno_val EFAULT) [] (snd (ev w (Sys ''rumpkern_sched'' []) s1))
      else set_worker t (WAwait b AnonMmap) s1)"
    using assms(5) by (auto simp: rumpuser_sp_anonmmap_def split_beta Option.bind_eq_Some_conv)
  note q = request_kept [OF assms(1-4) r [unfolded anonmmap_req_def]]
  show ?thesis using q(2) quiet [OF q(1)] unfolding s' by (cases "rv = 0") simp_all
qed

lemma copyout_kept:
  assumes "P k s" and "sp_copyout w t b data raddr s = Some s'"
  shows "P (Suc k) s'"
proof -
  define s0 where "s0 = snd (ev w (Sys ''rumpkern_unsched'' []) s)"
  have "P k s0" by (rule quiet [OF assms(1)]) (simp add: s0_def)
  then have "P (Suc k) (snd (nextreq (sba_spc b) s0))" by (rule number)
  moreover have "shape s' = shape (snd (nextreq (sba_spc b) s0))"
    using assms(2)
    by (auto simp: sp_copyout_def send_copyout_req_def Let_def split_beta Option.bind_eq_Some_conv s0_def dest!: shape_send_locked)
  ultimately show ?thesis by (rule quiet)
qed

end

context kept
begin

lemma syscall_begin_kept:
  assumes p: "P k s" and t: "t < length (workers s)" "workers s ! t = WStart b" and "syscall_begin w t b s = Some s'"
  shows "P k s'"
proof -
  define s0 where "s0 = snd (lwproc_newlwp w (spc_pid (spclist s (sba_spc b))) s)"
  have c0: "shape s0 = shape s" by (simp add: s0_def)
  consider (fail) rv x s1 where "send_syscall_resp w (sba_spc b) (rsp_reqno (sba_hdr b)) rv (- 1, 0) s0 = Some (x, s1)" "s' = worker_done w t b s1"
    | (ok) "s' = set_worker t (WSys b) (upd_spc (sba_spc b) (\<lambda>c. c\<lparr>spc_syscallreq := rsp_reqno (sba_hdr b)\<rparr>) s0)"
    using assms(4) by (auto simp: syscall_begin_def s0_def Let_def split_beta Option.bind_eq_Some_conv split: if_splits)
  then show ?thesis
  proof cases
    case fail
    then have c1: "shape s1 = shape s" using shape_sends(3) c0 by metis
    then show ?thesis using fail(2) t shape_cong(2) [OF c1] by (auto intro!: finish [OF quiet [OF p c1]])
  next
    case ok
    define s1 where "s1 = upd_spc (sba_spc b) (\<lambda>c. c\<lparr>spc_syscallreq := rsp_reqno (sba_hdr b)\<rparr>) s0"
    have c1: "shape s1 = shape s" using c0 by (simp add: s1_def)
    then show ?thesis using ok t shape_cong(2) [OF c1] unfolding s1_def [symmetric] by (auto intro!: phase [OF quiet [OF p c1]])
  qed
qed

lemma syscall_end_kept:
  assumes p: "P k s" and t: "t < length (workers s)" "workers s ! t = WSys b" and "syscall_end w t b rv retval s = Some s'"
  shows "P k s'"
proof -
  obtain x s1 where s1: "send_syscall_resp w (sba_spc b) (rsp_reqno (sba_hdr b)) rv retval
      (lwproc_release w (upd_spc (sba_spc b) (\<lambda>c. c\<lparr>spc_syscallreq := 0\<rparr>) s)) = Some (x, s1)" "s' = worker_done w t b s1"
    using assms(4) by (auto simp: syscall_end_def Let_def split_beta Option.bind_eq_Some_conv)
  have c1: "shape s1 = shape s" using shape_sends(3) [OF s1(1)] by simp
  then show ?thesis using s1(2) t shape_cong(2) [OF c1] by (auto intro!: finish [OF quiet [OF p c1]])
qed

lemma handleexec_kept:
  assumes p: "P k s" and t: "t < length (workers s)" "workers s ! t = WExec b True" and "serv_handleexec w t b s = Some s'"
  shows "P k s'"
proof (cases "spc_refcnt (spclist s (sba_spc b)) > 2")
  case True
  then show ?thesis using assms by (auto simp: serv_handleexec_def intro!: phase)
next
  case False
  let ?i = "sba_spc b"
  obtain comm s0 x s1 where s0: "terminate (sba_data b) (size_sub (rsp_len (sba_hdr b)) HDRSZ) s = Some (comm, s0)"
    and s1: "send_handshake_resp w ?i (rsp_reqno (sba_hdr b)) 0 (upd_spc ?i (\<lambda>c. c\<lparr>spc_inexec := False\<rparr>)
      (lwproc_switch w 0 (lwproc_execnotify w comm (lwproc_switch w (spc_mainlwp (spclist s0 ?i)) s0)))) = Some (x, s1)"
    and s': "s' = worker_done w t b s1"
    using assms(4) False by (auto simp: serv_handleexec_def Let_def split_beta Option.bind_eq_Some_conv)
  define s2 where "s2 = lwproc_switch w 0 (lwproc_execnotify w comm (lwproc_switch w (spc_mainlwp (spclist s0 ?i)) s0))"
  have c2: "shape s2 = shape s" using shape_terminate [OF s0] by (simp add: s2_def)
  have c1: "shape s1 = shape (upd_spc ?i (\<lambda>c. c\<lparr>spc_inexec := False\<rparr>) s2)" using shape_sends(2) [OF s1] by (simp add: s2_def)
  have "P k s1" using quiet [OF exec_end [OF quiet [OF p c2]] c1] .
  moreover have "workers s1 = workers s" using shape_cong(2) [OF c1] shape_cong(2) [OF c2] by simp
  ultimately show ?thesis using s' t by (auto intro!: finish)
qed

lemma req_end_kept:
  assumes p: "P k s" and t: "t < length (workers s)" "workers s ! t = WAwait b q" and "req_end w t b q s = Some s'"
  shows "P k s'"
proof -
  define s0 where "s0 = dounputwait (sba_spc b) t s"
  have p0: "P k s0" unfolding s0_def using p by (rule unwait)
  have "P k (set_worker t (WSys b) s0)" using t by (intro phase [OF p0]) (simp_all add: s0_def dounputwait_def)
  moreover have "shape s' = shape (set_worker t (WSys b) s0)"
    using assms(4) by (auto simp: req_end_def waitresp_def Let_def split_beta Option.bind_eq_Some_conv shape_set_worker s0_def)
  ultimately show ?thesis by (rule quiet)
qed

text \<open>For a worker that is woken out of its wait to exec the property has to be shown anew.\<close>

lemma step_kept:
  assumes inv: "sp_inv s" and p: "P k s" and "sp_step s s'"
    and wake: "\<And>t b. t < length (workers s) \<Longrightarrow> workers s ! t = WExec b False \<Longrightarrow> s' = set_worker t (WExec b True) s \<Longrightarrow> P k s'"
  shows "P (Suc k) s'"
  using assms(3)
proof cases
  case (read i w alloc sk)
  have "i \<in> slots" using read(1,2) by (simp add: slots_def)
  then show ?thesis using read(3,4) by (intro later [OF server_read_kept [OF inv p]])
next
  case (raise t b w signo)
  then have "shape s' = shape s"
    by (auto simp: rumpuser_sp_raise_def send_raise_req_def Let_def split_beta Option.bind_eq_Some_conv dest!: shape_send_locked)
  then show ?thesis by (intro later [OF quiet [OF p]])
next
  case (wakeup t b)
  then show ?thesis by (intro later wake)
qed (auto intro: later gc [OF p] server_conn_kept [OF inv p] top [OF p] take [OF p] syscall_begin_kept [OF p] syscall_end_kept [OF p]
    copyin_kept [OF inv p] anonmmap_kept [OF inv p] copyout_kept [OF p] req_end_kept [OF p] handleexec_kept [OF p])

lemma reach_kept:
  assumes "\<And>sock. sock \<noteq> - 1 \<Longrightarrow> P 0 (spserver_init sock)" and "sp_reach n s"
    and "\<And>k s t b. P k s \<Longrightarrow> t < length (workers s) \<Longrightarrow> workers s ! t = WExec b False \<Longrightarrow> P k (set_worker t (WExec b True) s)"
  shows "P n s"
  using assms(2) by (induction rule: sp_reach.induct) (auto intro: assms(1,3) step_kept sp_reach_inv)

end

section \<open>What the larger operations do to the shape\<close>

lemma quiet_sel [simp]:
  "workers (snd (ev w e s)) = workers s" "waits (snd (ev w e s)) = waits s" "pfd (snd (ev w e s)) = pfd s"
  "workers (lwproc_switch w l s) = workers s" "workers (lwproc_release w s) = workers s" "workers (lwproc_lwpexit w s) = workers s"
  "waits (lwproc_switch w l s) = waits s" "waits (lwproc_release w s) = waits s" "waits (lwproc_lwpexit w s) = waits s"
  "pfd (lwproc_switch w l s) = pfd s" "pfd (lwproc_release w s) = pfd s" "pfd (lwproc_lwpexit w s) = pfd s"
  "waits (broadcast i s) = waits s" "pfd (broadcast i s) = pfd s"
  by (simp_all add: ev_def lwproc_def lwproc_switch_def lwproc_release_def lwproc_lwpexit_def broadcast_def)

lemma release_sel:
  "workers (spcrelease w i s) =
     (if spc_inexec (spclist s i) \<and> spc_refcnt (spclist s i) \<le> 3 then map (wake_exec i) (workers s) else workers s)"
  "pfd (spcrelease w i s) = pfd s" "waits (spcrelease w i s) = waits s"
  "j \<noteq> i \<Longrightarrow> spclist (spcrelease w i s) j = spclist s j"
  "spc_inexec (spclist (spcrelease w i s) j) = spc_inexec (spclist s j)"
  "spc_nextreq (spclist (spcrelease w i s) j) = spc_nextreq (spclist s j)"
  "spc_respwait (spclist (spcrelease w i s) j) = spc_respwait (spclist s j)"
  "spc_state (spclist (spcrelease w i s) i) \<in> {spc_state (spclist s i), SPCSTATE_NEW}"
  by (auto simp: spcrelease_def Let_def split_beta spclist_upd) (simp_all add: broadcast_def)

lemma disco_sel:
  assumes "spc_ostatus (spclist s i) = SPCSTATUS_FREE"
  shows "workers (serv_handledisco w i s) = workers s" "waits (serv_handledisco w i s) = waits s"
    "pfd (serv_handledisco w i s) = (pfd s)(i := - 1)"
    "j \<noteq> i \<Longrightarrow> spclist (serv_handledisco w i s) j = spclist s j"
    "spc_nextreq (spclist (serv_handledisco w i s) i) = 0" "\<not> spc_inexec (spclist (serv_handledisco w i s) i)"
    "spc_state (spclist (serv_handledisco w i s) i) \<noteq> SPCSTATE_RUNNING"
proof -
  define s1 where "s1 = upd_spc i (\<lambda>c. c\<lparr>spc_state := SPCSTATE_DYING, spc_ostatus := SPCSTATUS_FREE\<rparr>) (s\<lparr>pfd := (pfd s)(i := - 1)\<rparr>)"
  define s2 where "s2 = (if \<not> spc_inexec (spclist s i) \<and> spc_mainlwp (spclist s i) \<noteq> 0
    then lwproc_switch w 0 (lwproc_lwpexit w (lwproc_switch w (spc_mainlwp (spclist s i)) s1)) else s1)"
  have c: "spclist s2 = spclist s1" "workers s2 = workers s" "waits s2 = waits s" "pfd s2 = (pfd s)(i := - 1)"
    by (auto simp: s2_def s1_def)
  have d: "serv_handledisco w i s = spcrelease w i (upd_spc i zero_spc s2)"
    using assms by (simp add: serv_handledisco_def Let_def sendunlockl_def upd_spc_twice s2_def s1_def comp_def)
  show "workers (serv_handledisco w i s) = workers s" "waits (serv_handledisco w i s) = waits s"
    "pfd (serv_handledisco w i s) = (pfd s)(i := - 1)" "spc_nextreq (spclist (serv_handledisco w i s) i) = 0"
    "\<not> spc_inexec (spclist (serv_handledisco w i s) i)"
    unfolding d using c by (simp_all add: release_sel zero_spc_def)
  show "spclist (serv_handledisco w i s) j = spclist s j" if "j \<noteq> i"
    unfolding d using c that by (simp add: release_sel upd_spc_other s1_def)
  show "spc_state (spclist (serv_handledisco w i s) i) \<noteq> SPCSTATE_RUNNING"
    unfolding d using c release_sel(8) [of w i "upd_spc i zero_spc s2"] by (auto simp: zero_spc_def s1_def)
qed

lemma queue_work_sel:
  "workers (queue_work w b s) \<in> {workers s, workers s @ [WTop]}" "waits (queue_work w b s) = waits s" "pfd (queue_work w b s) = pfd s"
  "spc_inexec (spclist (queue_work w b s) j) = spc_inexec (spclist s j)" "spc_nextreq (spclist (queue_work w b s) j) = spc_nextreq (spclist s j)"
  "spc_respwait (spclist (queue_work w b s) j) = spc_respwait (spclist s j)" "spc_state (spclist (queue_work w b s) j) = spc_state (spclist s j)"
  by (simp_all add: queue_work_def Let_def split_beta spcref_def ev_def spclist_upd)

lemma send_req_sel:
  assumes "send_req w i t iov s = Some (rv, s')"
  shows "workers s' = workers s" "pfd s' = pfd s" "j \<noteq> i \<Longrightarrow> spclist s' j = spclist s j"
    "spc_inexec (spclist s' i) = spc_inexec (spclist s i)" "spc_state (spclist s' i) = spc_state (spclist s i)"
    "spc_nextreq (spclist s' i) = Suc (spc_nextreq (spclist s i)) mod 2 ^ 64"
    "waits s' = (waits s)(t := \<lparr>rw_reqno = spc_nextreq (spclist s i), rw_data = None, rw_dlen = 0, rw_done = False, rw_error = 0\<rparr>)"
    "spc_respwait (spclist s' i) = (if rv \<noteq> 0 then remove1 t (spc_respwait (spclist s i) @ [t]) else spc_respwait (spclist s i) @ [t])"
  using assms
  by (auto simp: send_req_def putwait_def doputwait_def sendlockl_def Let_def ev_def unputwait_def dounputwait_def sendunlockl_def
      spclist_upd broadcast_def split: if_splits)

lemma gc_sel: "spclist (server_gc s) = spclist s" "waits (server_gc s) = waits s" "pfd (server_gc s) = pfd s" "workers (server_gc s) = workers s"
proof -
  have "spclist ((f ^^ n) s) = spclist s \<and> waits ((f ^^ n) s) = waits s \<and> pfd ((f ^^ n) s) = pfd s \<and> workers ((f ^^ n) s) = workers s"
    if "f = (\<lambda>s. s\<lparr>nfds := nfds s - 1, maxidx := top_slot (pfd s) (maxidx s) (maxidx s)\<rparr>)" for f n and s :: srv
    by (induction n) (simp_all add: that)
  then show "spclist (server_gc s) = spclist s" "waits (server_gc s) = waits s" "pfd (server_gc s) = pfd s" "workers (server_gc s) = workers s"
    by (simp_all add: server_gc_def Let_def)
qed

section \<open>Waiting to exec for a client that is gone\<close>

definition lost :: "nat \<Rightarrow> servbouncearg \<Rightarrow> srv \<Rightarrow> bool" where
  "lost t b s \<longleftrightarrow>
     t < length (workers s) \<and> workers s ! t = WExec b False \<and> pfd s (sba_spc b) = - 1 \<and> \<not> spc_inexec (spclist s (sba_spc b))"

lemma lost_cong:
  assumes "lost t b s" and "workers s' = workers s" and "pfd s' (sba_spc b) = pfd s (sba_spc b)"
    and "spc_inexec (spclist s' (sba_spc b)) = spc_inexec (spclist s (sba_spc b))"
  shows "lost t b s'"
  using assms by (simp add: lost_def)

lemma lost_not_new:
  assumes "sp_inv s" and "lost t b s"
  shows "spc_state (spclist s (sba_spc b)) \<noteq> SPCSTATE_NEW"
proof -
  have "t < length (workers s)" "work (workers s ! t) = Some b" using assms(2) by (simp_all add: lost_def)
  from sba_slot_work [OF assms(1) this] show ?thesis by (auto simp: slot_ok_def)
qed

lemma lost_worker:
  assumes "lost t b s" and "t' < length (workers s)" and "\<And>b. workers s ! t' \<noteq> WExec b False"
  shows "lost t b (set_worker t' p s)"
  using assms by (auto simp: lost_def nth_list_update)

interpretation hang: kept "\<lambda>_. lost t b" for t b
proof unfold_locales
  fix s s' :: srv
  assume "shape s' = shape s" "lost t b s"
  then show "lost t b s'"
    using shape_cong(1,2) [of s' s] arg_cong [OF shape_cong(3) [of s' s "sba_spc b"], of spc_inexec] by (simp add: lost_def)
next
  fix s i newfd
  assume "sp_inv s" "lost t b s" "spc_state (spclist s i) = SPCSTATE_NEW"
  then have "sba_spc b \<noteq> i" using lost_not_new by blast
  then show "lost t b (upd_spc i (\<lambda>c. c\<lparr>spc_fd := newfd, spc_istatus := SPCSTATUS_BUSY, spc_refcnt := 1, spc_respwait := []\<rparr>)
      (s\<lparr>pfd := (pfd s)(i := newfd)\<rparr>))"
    by (intro lost_cong [OF \<open>lost t b s\<close>]) (simp_all add: spclist_upd)
next
  fix s w i
  assume "sp_inv s" "lost t b s" "i \<in> slots" "pfd s i \<noteq> - 1"
  moreover have "spc_ostatus (spclist s i) = SPCSTATUS_FREE" using sp_inv_slot [OF \<open>sp_inv s\<close> \<open>i \<in> slots\<close>] by (simp add: slot_ok_def)
  moreover have "sba_spc b \<noteq> i" using \<open>lost t b s\<close> \<open>pfd s i \<noteq> - 1\<close> by (auto simp: lost_def)
  ultimately show "lost t b (serv_handledisco w i s)" by (intro lost_cong [OF \<open>lost t b s\<close>]) (simp_all add: disco_sel)
next
  fix s i
  assume "lost t b s" "pfd s i \<noteq> - 1"
  then show "lost t b (upd_spc i (\<lambda>c. c\<lparr>spc_inexec := True\<rparr>) s)" by (auto simp: lost_def spclist_upd)
next
  fix s w b'
  assume "lost t b s"
  then show "lost t b (queue_work w b' s)"
    using queue_work_sel [of w b' s] by (auto simp: lost_def nth_append)
next
  fix s t'
  assume l: "lost t b s" and t': "t' < length (workers s)" "workers s ! t' = WTop"
  have "lost t b (set_worker t' p s)" for p using l t' by (intro lost_worker) simp_all
  then show "lost t b (worker_top t' s)" by (simp add: worker_top_def lost_def)
next
  fix s t' s'
  assume l: "lost t b s" and t': "t' < length (workers s)" "workers s ! t' = WIdle" and "worker_take t' s = Some s'"
  moreover have "lost t b (set_worker t' p s)" for p using l t' by (intro lost_worker) simp_all
  ultimately show "lost t b s'" by (auto simp: worker_take_def lost_def split: list.splits)
next
  fix s t' b' w
  assume l: "lost t b s" and t': "t' < length (workers s)" "\<And>b. workers s ! t' \<noteq> WExec b False"
  have n: "t' \<noteq> t" using l t' by (auto simp: lost_def)
  then show "lost t b (worker_done w t' b' s)"
    using l by (cases "sba_spc b = sba_spc b'") (auto simp: lost_def worker_done_def release_sel)
next
  fix s t' b' w iov rv s'
  assume "lost t b s" "send_req w (sba_spc b') t' iov s = Some (rv, s')"
  then show "lost t b s'" using send_req_sel [of w "sba_spc b'" t' iov s rv s'] by (cases "sba_spc b = sba_spc b'") (simp_all add: lost_def)
next
  fix s t' p
  assume "lost t b s" "t' < length (workers s)" "\<And>b. workers s ! t' \<noteq> WExec b False"
  then show "lost t b (set_worker t' p s)" by (rule lost_worker)
qed (auto simp: lost_def gc_sel run_spc_def spclist_upd nextreq_def dounputwait_def Let_def)

text \<open>The transitions other than one that wakes worker \<open>t\<close> out of its wait without a reason.\<close>

definition not_woken :: "nat \<Rightarrow> servbouncearg \<Rightarrow> srv \<Rightarrow> srv \<Rightarrow> bool" where
  "not_woken t b s s' \<longleftrightarrow> sp_step s s' \<and> s' \<noteq> set_worker t (WExec b True) s"

lemma lost_step:
  assumes "sp_inv s" and "lost t b s" and "not_woken t b s s'"
  shows "lost t b s'"
proof (rule hang.step_kept [OF assms(1,2)])
  show "sp_step s s'" using assms(3) by (simp add: not_woken_def)
next
  fix t' b'
  assume w: "t' < length (workers s)" "workers s ! t' = WExec b' False" "s' = set_worker t' (WExec b' True) s"
  have "t' \<noteq> t" using assms(2,3) w by (auto simp: not_woken_def lost_def)
  then show "lost t b s'" using assms(2) w(3) by (simp add: lost_def set_worker_def)
qed

text \<open>The client of the run that waits to exec disconnects; then its system call ends.\<close>

lemma disco_then_end:
  assumes "client_view s = (SPCSTATE_RUNNING, SPCSTATUS_FREE, True, 3, None, 0, HDRSZ)"
    and "workers s = [WStart sys_sba, WExec exec_sba False]"
  shows "\<exists>s1 s2. syscall_begin calm_world 0 sys_sba (serv_handledisco calm_world 1 s) = Some s1 \<and>
    workers s1 = [WSys sys_sba, WExec exec_sba False] \<and>
    syscall_end calm_world 0 sys_sba 0 (0, 0) s1 = Some s2 \<and> workers s2 = [WTop, WExec exec_sba False] \<and>
    spc_refcnt (spclist s2 1) = 1"
proof -
  define s0 where "s0 = serv_handledisco calm_world 1 s"
  have s0: "workers s0 = [WStart sys_sba, WExec exec_sba False]" "spc_refcnt (spclist s0 1) = 2" "\<not> spc_inexec (spclist s0 1)"
    "spc_ostatus (spclist s0 1) = SPCSTATUS_FREE"
    using assms by (simp_all add: s0_def serv_handledisco_def spcrelease_def sendunlockl_def zero_spc_def client_view_def Let_def del: One_nat_def)
  have "\<exists>s1. syscall_begin calm_world 0 sys_sba s0 = Some s1 \<and> workers s1 = [WSys sys_sba, WExec exec_sba False] \<and>
      spc_refcnt (spclist s1 1) = 2 \<and> \<not> spc_inexec (spclist s1 1) \<and> spc_ostatus (spclist s1 1) = SPCSTATUS_FREE"
    using s0 by (simp add: syscall_begin_def Let_def kernel_defs sys_sba_def set_worker_def del: One_nat_def)
  then obtain s1 where s1: "syscall_begin calm_world 0 sys_sba s0 = Some s1" "workers s1 = [WSys sys_sba, WExec exec_sba False]"
    "spc_refcnt (spclist s1 1) = 2" "\<not> spc_inexec (spclist s1 1)" "spc_ostatus (spclist s1 1) = SPCSTATUS_FREE" by blast
  have "\<exists>s2. syscall_end calm_world 0 sys_sba 0 (0, 0) s1 = Some s2 \<and> workers s2 = [WTop, WExec exec_sba False] \<and> spc_refcnt (spclist s2 1) = 1"
    using s1(2-5)
    by (simp add: syscall_end_def send_syscall_resp_def send_locked_calm worker_done_def spcrelease_def kernel_defs lwproc_release_def
        sys_sba_def set_worker_def Let_def del: One_nat_def)
  with s1(1,2) show ?thesis unfolding s0_def by blast
qed

text \<open>
  C20: an exec whose client goes away is not signalled.  When the connection of a client ends while a
  worker waits in \<open>serv_handleexec\<close> for the client's other system calls, \<open>spc_inexec\<close> is cleared,
  so that \<open>spcrelease\<close> does not wake the worker, not even when the last other system call has ended and
  the worker could go on: in every run without a spurious wake-up of that worker and without a contended
  send to the same client, it keeps waiting, and the slot and the descriptor of the client are not released.
\<close>

theorem exec_of_lost_client_not_signalled:
  assumes "sp_reach n s" and "t < length (workers s)" and "workers s ! t = WExec b False" and "pfd s (sba_spc b) \<noteq> - 1"
    and "(not_woken t b)\<^sup>*\<^sup>* (serv_handledisco w (sba_spc b) s) s'"
  shows "workers s' ! t = WExec b False \<and> spc_fd (spclist s' (sba_spc b)) \<noteq> - 1 \<and> spc_state (spclist s' (sba_spc b)) = SPCSTATE_DYING"
proof -
  let ?i = "sba_spc b"
  have inv: "sp_inv s" using assms(1) by (rule sp_reach_inv)
  have i: "?i \<in> slots" using sba_slot_work(2) [OF inv assms(2), of b] assms(3) by simp
  then have "spc_ostatus (spclist s ?i) = SPCSTATUS_FREE" using sp_inv_slot [OF inv] by (simp add: slot_ok_def)
  then have "sp_inv (serv_handledisco w ?i s) \<and> lost t b (serv_handledisco w ?i s)"
    using assms(2-4) inv_handledisco [OF inv i assms(4)] by (simp add: lost_def disco_sel)
  with assms(5) have l: "sp_inv s' \<and> lost t b s'"
  proof (induction rule: rtranclp_induct)
    case (step y z)
    then show ?case using lost_step [of y t b z] sp_inv_step [of y z] by (simp add: not_woken_def)
  qed
  then have f: "t < length (workers s')" "work (workers s' ! t) = Some b" "pfd s' ?i = - 1" by (simp_all add: lost_def)
  from sba_slot_work(1,3) [OF conjunct1 [OF l] f(1,2)] f(3) l show ?thesis by (simp add: slot_ok_def lost_def)
qed

theorem exec_of_lost_client_not_signalled_witness:
  "\<exists>s s'. sp_reach 9 s \<and> workers s ! 1 = WExec exec_sba False \<and> (not_woken 1 exec_sba)\<^sup>*\<^sup>* (serv_handledisco calm_world 1 s) s' \<and>
     spc_refcnt (spclist s' 1) = 1 \<and> workers s' ! 1 = WExec exec_sba False \<and> spc_fd (spclist s' 1) \<noteq> - 1"
proof -
  obtain s where s: "sp_reach 9 s" "client_view s = (SPCSTATE_RUNNING, SPCSTATUS_FREE, True, 3, None, 0, HDRSZ)"
    "pool_view s = (7, [], 0, 2, 0, [WStart sys_sba, WExec exec_sba False])"
    using exec_waits_reachable by blast
  then have w: "1 < length (workers s)" "workers s ! 1 = WExec exec_sba False" "pfd s (sba_spc exec_sba) \<noteq> - 1"
    by (simp_all add: pool_view_def exec_sba_def)
  have ws: "workers s = [WStart sys_sba, WExec exec_sba False]" using s(3) by (simp add: pool_view_def)
  define s0 where "s0 = serv_handledisco calm_world 1 s"
  have "spc_ostatus (spclist s 1) = SPCSTATUS_FREE" using s(2) by (simp add: client_view_def Let_def)
  then have w0: "workers s0 = [WStart sys_sba, WExec exec_sba False]" using ws by (simp only: s0_def disco_sel)
  obtain s1 s2 where e: "syscall_begin calm_world 0 sys_sba s0 = Some s1" "workers s1 = [WSys sys_sba, WExec exec_sba False]"
    "syscall_end calm_world 0 sys_sba 0 (0, 0) s1 = Some s2" "workers s2 = [WTop, WExec exec_sba False]" "spc_refcnt (spclist s2 1) = 1"
    using disco_then_end [OF s(2) ws] unfolding s0_def by blast
  have n: "y \<noteq> set_worker 1 (WExec exec_sba True) x" if "workers y ! 1 = WExec exec_sba False" "1 < length (workers x)" for x y
    using that by (auto simp: set_worker_def)
  have "not_woken 1 exec_sba s0 s1" unfolding not_woken_def
    using w0 e(2) by (intro conjI sp_step.sys_begin [OF _ _ e(1)] n) simp_all
  moreover have "not_woken 1 exec_sba s1 s2" unfolding not_woken_def
    using e(2,4) by (intro conjI sp_step.sys_end [OF _ _ e(3)] n) simp_all
  ultimately have r: "(not_woken 1 exec_sba)\<^sup>*\<^sup>* s0 s2" by (meson converse_rtranclp_into_rtranclp rtranclp.rtrancl_refl)
  moreover have "sba_spc exec_sba = 1" by (simp add: exec_sba_def)
  ultimately show ?thesis
    using exec_of_lost_client_not_signalled [OF s(1) w, of calm_world s2] s(1) w(2) e(5) unfolding s0_def by auto
qed

section \<open>Answers\<close>

text \<open>
  As long as fewer than \<open>2 ^ 64\<close> transitions have been made, request numbers have not wrapped around:
  the workers that wait for a running client have different numbers, all given out already.
\<close>

definition numbered :: "nat \<Rightarrow> srv \<Rightarrow> bool" where
  "numbered i s \<longleftrightarrow>
     inj_on (\<lambda>t. rw_reqno (waits s t)) (set (spc_respwait (spclist s i))) \<and>
     (\<forall>t \<in> set (spc_respwait (spclist s i)). rw_reqno (waits s t) < spc_nextreq (spclist s i))"

definition req_inv :: "nat \<Rightarrow> srv \<Rightarrow> bool" where
  "req_inv k s \<longleftrightarrow>
     (k < 2 ^ 64 \<longrightarrow>
      (\<forall>i \<in> slots. spc_nextreq (spclist s i) \<le> k \<and> (spc_state (spclist s i) = SPCSTATE_RUNNING \<longrightarrow> numbered i s)))"

lemma numbered_cong:
  assumes "spc_respwait (spclist s' i) = spc_respwait (spclist s i)" and "spc_nextreq (spclist s' i) = spc_nextreq (spclist s i)"
    and "\<And>t. t \<in> set (spc_respwait (spclist s i)) \<Longrightarrow> rw_reqno (waits s' t) = rw_reqno (waits s t)"
  shows "numbered i s' = numbered i s"
  using assms by (auto simp: numbered_def inj_on_def)

text \<open>One slot may change; the others keep their numbers and waiting workers.\<close>

lemma req_inv_change:
  assumes "req_inv k s" and "k \<le> k'"
    and "\<And>j. j \<in> slots \<Longrightarrow> j \<noteq> i \<Longrightarrow> spclist s' j = spclist s j"
    and "\<And>j t. j \<in> slots \<Longrightarrow> j \<noteq> i \<Longrightarrow> t \<in> set (spc_respwait (spclist s j)) \<Longrightarrow> rw_reqno (waits s' t) = rw_reqno (waits s t)"
    and "i \<in> slots \<Longrightarrow> k' < 2 ^ 64 \<Longrightarrow> spc_nextreq (spclist s i) \<le> k \<Longrightarrow> (spc_state (spclist s i) = SPCSTATE_RUNNING \<longrightarrow> numbered i s) \<Longrightarrow>
      spc_nextreq (spclist s' i) \<le> k' \<and> (spc_state (spclist s' i) = SPCSTATE_RUNNING \<longrightarrow> numbered i s')"
  shows "req_inv k' s'"
  unfolding req_inv_def
proof (intro impI ballI)
  fix j
  assume k': "k' < 2 ^ 64" and j: "j \<in> slots"
  then have old: "spc_nextreq (spclist s j) \<le> k" "spc_state (spclist s j) = SPCSTATE_RUNNING \<longrightarrow> numbered j s"
    using assms(1,2) by (simp_all add: req_inv_def)
  show "spc_nextreq (spclist s' j) \<le> k' \<and> (spc_state (spclist s' j) = SPCSTATE_RUNNING \<longrightarrow> numbered j s')"
  proof (cases "j = i")
    case True
    then show ?thesis using assms(5) k' j old by blast
  next
    case False
    then have "numbered j s' = numbered j s" using assms(3,4) j by (intro numbered_cong) auto
    then show ?thesis using old assms(2) assms(3) [OF j False] by auto
  qed
qed

lemma req_inv_same:
  assumes "req_inv k s" and "\<And>j. spc_nextreq (spclist s' j) = spc_nextreq (spclist s j)" "\<And>j. spc_respwait (spclist s' j) = spc_respwait (spclist s j)"
    and "\<And>j. spc_state (spclist s' j) = SPCSTATE_RUNNING \<Longrightarrow> spc_state (spclist s j) = SPCSTATE_RUNNING"
    and "\<And>t. rw_reqno (waits s' t) = rw_reqno (waits s t)"
  shows "req_inv k s'"
  using assms numbered_cong [of s' _ s] by (auto simp: req_inv_def)

lemma fresh_number:
  fixes f g :: "nat \<Rightarrow> nat"
  assumes "inj_on f A" and "\<forall>a \<in> A. f a < n" and "t \<notin> A" and "B \<subseteq> insert t A" and "\<And>u. u \<noteq> t \<Longrightarrow> g u = f u" and "g t = n"
  shows "inj_on g B \<and> (\<forall>b \<in> B. g b < Suc n)"
proof -
  have eq: "g b = f b" if "b \<in> A" for b using that assms(3,5) by metis
  then have less: "g b < n" if "b \<in> A" for b using that assms(2) by simp
  have "inj_on g A" using assms(1) eq by (simp add: inj_on_def)
  moreover have "g t \<notin> g ` A" using less assms(6) by fastforce
  ultimately have "inj_on g (insert t A)" using assms(3) by (simp add: inj_on_insert)
  moreover have "\<forall>b \<in> insert t A. g b < Suc n" using less assms(6) by (auto intro: less_SucI)
  ultimately have "inj_on g (insert t A) \<and> (\<forall>b \<in> insert t A. g b < Suc n)" by blast
  then show ?thesis using assms(4) by (meson inj_on_subset subsetD)
qed

lemma req_inv_request:
  assumes inv: "sp_inv s" and p: "req_inv k s" and t: "t < length (workers s)" "workers s ! t = WSys b"
    and req: "send_req w (sba_spc b) t iov s = Some (rv, s')"
  shows "req_inv (Suc k) s'"
proof (rule req_inv_change [OF p, where i = "sba_spc b"])
  let ?i = "sba_spc b"
  note sel = send_req_sel [OF req]
  have nt: "t \<notin> set (spc_respwait (spclist s j))" if "j \<in> slots" for j
    using respwait_waiters [OF inv that] t by (simp add: waiters_def)
  show "spclist s' j = spclist s j" if "j \<noteq> ?i" for j using sel(3) that by simp
  show "rw_reqno (waits s' u) = rw_reqno (waits s u)" if "j \<in> slots" "u \<in> set (spc_respwait (spclist s j))" for j u
    using sel(7) nt [OF that(1)] that(2) by auto
  assume i: "?i \<in> slots" and k: "Suc k < 2 ^ 64" and n: "spc_nextreq (spclist s ?i) \<le> k"
    and old: "spc_state (spclist s ?i) = SPCSTATE_RUNNING \<longrightarrow> numbered ?i s"
  have next': "spc_nextreq (spclist s' ?i) = Suc (spc_nextreq (spclist s ?i))" using sel(6) n k by simp
  have sub: "set (spc_respwait (spclist s' ?i)) \<subseteq> insert t (set (spc_respwait (spclist s ?i)))"
    using sel(8) set_remove1_subset [of t "spc_respwait (spclist s ?i) @ [t]"] by (auto split: if_splits)
  have w: "rw_reqno (waits s' u) = rw_reqno (waits s u)" if "u \<noteq> t" for u using sel(7) that by simp
  have wt: "rw_reqno (waits s' t) = spc_nextreq (spclist s ?i)" using sel(7) by simp
  have "numbered ?i s \<longrightarrow> numbered ?i s'"
    unfolding numbered_def next'
    using fresh_number [of "\<lambda>t. rw_reqno (waits s t)", OF _ _ nt [OF i] sub w wt] by simp
  then show "spc_nextreq (spclist s' ?i) \<le> Suc k \<and> (spc_state (spclist s' ?i) = SPCSTATE_RUNNING \<longrightarrow> numbered ?i s')"
    using next' n sel(5) old by auto
qed simp

interpretation answers: kept req_inv
proof unfold_locales
  fix k s
  assume "req_inv k s"
  then show "req_inv (Suc k) s" by (auto simp: req_inv_def)
next
  fix s s' :: srv and k
  assume e: "shape s' = shape s" and p: "req_inv k s"
  show "req_inv k s'"
    using shape_cong(4) [OF e] arg_cong [OF shape_cong(3) [OF e], of spc_nextreq] arg_cong [OF shape_cong(3) [OF e], of spc_respwait]
      arg_cong [OF shape_cong(3) [OF e], of spc_state] by (intro req_inv_same [OF p]) simp_all
next
  fix k s i newfd
  assume p: "req_inv k s" and "spc_state (spclist s i) = SPCSTATE_NEW"
  then show "req_inv k (upd_spc i (\<lambda>c. c\<lparr>spc_fd := newfd, spc_istatus := SPCSTATUS_BUSY, spc_refcnt := 1, spc_respwait := []\<rparr>)
      (s\<lparr>pfd := (pfd s)(i := newfd)\<rparr>))"
    by (intro req_inv_change [OF p, where i = i]) (simp_all add: spclist_upd)
next
  fix k s i w
  assume inv: "sp_inv s" and p: "req_inv k s" and i: "i \<in> slots" "pfd s i \<noteq> - 1"
  have "spc_ostatus (spclist s i) = SPCSTATUS_FREE" using sp_inv_slot [OF inv i(1)] by (simp add: slot_ok_def)
  note sel = disco_sel [OF this]
  show "req_inv k (serv_handledisco w i s)" using sel by (intro req_inv_change [OF p, where i = i]) simp_all
next
  fix k s i
  assume inv: "sp_inv s" and p: "req_inv k s" and i: "i \<in> slots" "spc_state (spclist s i) = SPCSTATE_NEW"
  have "jobs i s = 0" using sp_inv_slot [OF inv i(1)] i(2) by (auto simp: slot_ok_def)
  then have "set (spc_respwait (spclist s i)) = {}" using respwait_waiters [OF inv i(1)] waiters_no_jobs by simp
  then show "req_inv k (run_spc i s)"
    by (intro req_inv_change [OF p, where i = i]) (simp_all add: run_spc_def spclist_upd numbered_def)
next
  fix k s t w and b :: servbouncearg
  assume p: "req_inv k s"
  have "spc_state (spclist (spcrelease w (sba_spc b) s) j) = SPCSTATE_RUNNING \<Longrightarrow> spc_state (spclist s j) = SPCSTATE_RUNNING" for j
    using release_sel(4) [of j "sba_spc b" w s] release_sel(8) [of w "sba_spc b" s] by (cases "j = sba_spc b") auto
  then show "req_inv k (worker_done w t b s)"
    by (intro req_inv_same [OF p]) (simp_all add: worker_done_def release_sel set_worker_def)
next
  fix s k t b w iov rv s'
  assume "sp_inv s" "req_inv k s" "t < length (workers s)" "workers s ! t = WSys b" "send_req w (sba_spc b) t iov s = Some (rv, s')"
  then show "req_inv (Suc k) s'" by (rule req_inv_request)
next
  fix k s i
  assume p: "req_inv k s"
  show "req_inv (Suc k) (snd (nextreq i s))"
    by (rule req_inv_change [OF p, where i = i]) (auto simp: nextreq_def Let_def spclist_upd numbered_def)
next
  fix k s i t
  assume p: "req_inv k s"
  show "req_inv k (dounputwait i t s)"
    by (rule req_inv_change [OF p, where i = i])
      (auto simp: dounputwait_def spclist_upd numbered_def inj_on_def dest: notin_set_remove1)
qed (erule req_inv_same; auto simp: gc_sel spclist_upd queue_work_sel worker_top_def worker_take_def set_worker_def split: list.splits if_splits)+

lemma reach_req_inv: "sp_reach n s \<Longrightarrow> req_inv n s"
proof (rule answers.reach_kept)
  show "req_inv k (set_worker t (WExec b True) s)" if "req_inv k s" for k s t b
    by (rule req_inv_same [OF that]) (simp_all add: set_worker_def)
qed (auto simp: req_inv_def spserver_init_def init_spc_def zero_spc_def numbered_def slots_def)

lemma reach_numbered:
  assumes "sp_reach n s" and "n < 2 ^ 64" and "i \<in> slots" and "spc_state (spclist s i) = SPCSTATE_RUNNING"
  shows "numbered i s"
  using reach_req_inv [OF assms(1)] assms(2-4) by (simp add: req_inv_def)

text \<open>The answer in the buffer, for the worker that made the request.\<close>

definition answered :: "nat \<Rightarrow> srv \<Rightarrow> respwait \<Rightarrow> respwait" where
  "answered i s rw = rw\<lparr>rw_data := buf i s, rw_done := True, rw_dlen := spc_off (spc_rcv (spclist s i)) - HDRSZ\<rparr>"

lemma find_unique:
  assumes "x \<in> set xs" and "P x" and "\<And>y. y \<in> set xs \<Longrightarrow> P y \<Longrightarrow> y = x"
  shows "find P xs = Some x"
proof -
  obtain y where y: "find P xs = Some y" using assms(1,2) by (cases "find P xs") (auto simp: find_None_iff)
  then have "y \<in> set xs" "P y" by (auto simp: find_Some_iff)
  with y assms(3) show ?thesis by metis
qed

lemma kickwaiter_delivers:
  assumes "numbered i s" and "t \<in> set (spc_respwait (spclist s i))" and "rw_reqno (waits s t) = rsp_reqno (hdr i s)"
    and "rsp_class (hdr i s) = RUMPSP_RESP"
  shows "waits (kickwaiter i s) = (waits s)(t := answered i s (waits s t))"
proof -
  have "find (\<lambda>t. rw_reqno (waits s t) = rsp_reqno (hdr i s)) (spc_respwait (spclist s i)) = Some t"
    using assms(1-3) by (intro find_unique) (auto simp: numbered_def inj_on_def)
  then show ?thesis using assms(4) by (simp add: kickwaiter_def Let_def answered_def spcresetbuf_def)
qed

lemma kickwaiter_sel:
  "workers (kickwaiter i s) = workers s" "spc_state (spclist (kickwaiter i s) j) = spc_state (spclist s j)"
  using shape_cong(2) [OF shape_kickwaiter] arg_cong [OF shape_cong(3) [OF shape_kickwaiter], of spc_state] by simp_all

text \<open>The state with a frame in the receive buffer of a slot.\<close>

definition received :: "nat \<Rightarrow> rsp_hdr \<Rightarrow> bytes \<Rightarrow> srv \<Rightarrow> srv" where
  "received i h d = upd_spc i (\<lambda>c. c\<lparr>spc_rcv := \<lparr>spc_hdr = enc_hdr h, spc_buf = Some d, spc_off = HDRSZ + length d\<rparr>\<rparr>)"

lemma received_sel:
  "hdr_ok h \<Longrightarrow> hdr i (received i h d s) = h" "buf i (received i h d s) = Some d" "waits (received i h d s) = waits s"
  "workers (received i h d s) = workers s" "spc_respwait (spclist (received i h d s) j) = spc_respwait (spclist s j)"
  "spc_state (spclist (received i h d s) j) = spc_state (spclist s j)" "spc_off (spc_rcv (spclist (received i h d s) i)) = HDRSZ + length d"
  "numbered i (received i h d s) = numbered i s"
  by (simp_all add: received_def buf_def spclist_upd numbered_def)

text \<open>
  C9: an answer goes to the worker that asked for it.  In every state reached within \<open>2 ^ 64\<close>
  transitions, when a response with the request number of a waiting worker arrives from a running
  client, exactly that worker gets its data and may resume, and its copyin then returns the bytes
  asked for; a response whose number no worker waits for changes no worker's answer.
\<close>

theorem answer_to_requester:
  assumes "sp_reach n s" and "n < 2 ^ 64" and "0 < i" and "i < MAXCLI" and "spc_state (spclist s i) = SPCSTATE_RUNNING"
    and "hdr_ok h" and "rsp_class h = RUMPSP_RESP"
  shows "(t < length (workers s) \<and> workers s ! t = WAwait b (CopyIn len False) \<and> sba_spc b = i \<and> rw_error (waits s t) = 0 \<and>
      rw_reqno (waits s t) = rsp_reqno h \<and> len \<le> length d \<longrightarrow>
      (\<exists>s1 s2. server_frame w i (received i h d s) = Some s1 \<and>
        waits s1 = (waits s)(t := (waits s t)\<lparr>rw_data := Some d, rw_done := True, rw_dlen := length d\<rparr>) \<and> may_resume i t s1 \<and>
        req_end w t b (CopyIn len False) s1 = Some s2 \<and> workers s2 = (workers s)[t := WSys b] \<and>
        (\<exists>l. log s2 = l @ [Ret t 0 (take len d)]))) \<and>
    ((\<forall>u \<in> set (spc_respwait (spclist s i)). rw_reqno (waits s u) \<noteq> rsp_reqno h) \<longrightarrow>
      (\<exists>s1. server_frame w i (received i h d s) = Some s1 \<and> waits s1 = waits s))"
proof (intro conjI impI)
  let ?s = "received i h d s"
  have f: "server_frame w i ?s = Some (kickwaiter i ?s)" using assms(6,7) by (simp add: server_frame_def received_sel)
  have i: "i \<in> slots" using assms(3,4) by (simp add: slots_def)
  note inv = sp_reach_inv [OF assms(1)] and num = reach_numbered [OF assms(1,2) i assms(5)]
  {
    assume t: "t < length (workers s) \<and> workers s ! t = WAwait b (CopyIn len False) \<and> sba_spc b = i \<and> rw_error (waits s t) = 0 \<and>
        rw_reqno (waits s t) = rsp_reqno h \<and> len \<le> length d"
    then have "t \<in> set (spc_respwait (spclist s i))" using respwait_waiters [OF inv i] by (simp add: waiters_def)
    then have k: "waits (kickwaiter i ?s) = (waits s)(t := (waits s t)\<lparr>rw_data := Some d, rw_done := True, rw_dlen := length d\<rparr>)"
      using t kickwaiter_delivers [of i ?s t] num assms(6,7) by (simp add: received_sel answered_def)
    then have "\<exists>s2. req_end w t b (CopyIn len False) (kickwaiter i ?s) = Some s2 \<and> workers s2 = (workers s)[t := WSys b] \<and>
        (\<exists>l. log s2 = l @ [Ret t 0 (take len d)])"
      using t assms(5)
      by (simp add: req_end_def waitresp_def dounputwait_def answer_def Let_def split_beta ev_def give_def set_worker_def kickwaiter_sel received_sel)
    then show "\<exists>s1 s2. server_frame w i ?s = Some s1 \<and>
        waits s1 = (waits s)(t := (waits s t)\<lparr>rw_data := Some d, rw_done := True, rw_dlen := length d\<rparr>) \<and> may_resume i t s1 \<and>
        req_end w t b (CopyIn len False) s1 = Some s2 \<and> workers s2 = (workers s)[t := WSys b] \<and> (\<exists>l. log s2 = l @ [Ret t 0 (take len d)])"
      using f k by (auto simp: may_resume_def)
  }
  assume "\<forall>u \<in> set (spc_respwait (spclist s i)). rw_reqno (waits s u) \<noteq> rsp_reqno h"
  then have "find (\<lambda>t. rw_reqno (waits ?s t) = rsp_reqno (hdr i ?s)) (spc_respwait (spclist ?s i)) = None"
    using assms(6) by (simp add: find_None_iff received_sel)
  then have "waits (kickwaiter i ?s) = waits s" by (simp add: kickwaiter_def spcfreebuf_def spcresetbuf_def received_sel)
  then show "\<exists>s1. server_frame w i ?s = Some s1 \<and> waits s1 = waits s" using f by blast
qed

theorem answer_to_requester_witness:
  "\<exists>s h s1 s2 l. sp_reach 7 s \<and> server_frame calm_world 1 (received 1 h [1, 2, 3] s) = Some s1 \<and>
     req_end calm_world 0 sys_sba (CopyIn 2 False) s1 = Some s2 \<and> log s2 = l @ [Ret 0 0 [1, 2]]"
proof -
  obtain s where s: "sp_reach 7 s" "spc_state (spclist s 1) = SPCSTATE_RUNNING" "workers s = [WAwait sys_sba (CopyIn 2 False)]"
    "rw_error (waits s 0) = 0"
    using copyin_waits_reachable by blast
  have i: "1 \<in> slots" by (simp add: slots_def MAXCLI_def)
  have "req_inv 7 s" "numbered 1 s" using reach_numbered [OF s(1) _ i s(2)] reach_req_inv [OF s(1)] by simp_all
  moreover have "0 \<in> set (spc_respwait (spclist s 1))"
    using respwait_waiters [OF sp_reach_inv [OF s(1)] i] s(3) by (simp add: waiters_def sys_sba_def)
  ultimately have "rw_reqno (waits s 0) < 7" using i by (auto simp: req_inv_def numbered_def intro: less_le_trans)
  then have h: "hdr_ok (frame_of (rw_reqno (waits s 0)) 1 2 0 [1, 2, 3])" by (simp add: hdr_ok_def frame_of_def HDRSZ_def)
  let ?h = "frame_of (rw_reqno (waits s 0)) 1 2 0 [1, 2, 3]"
  have "rsp_class ?h = RUMPSP_RESP" "rsp_reqno ?h = rw_reqno (waits s 0)" by (simp_all add: frame_of_def)
  with answer_to_requester [OF s(1) _ _ _ s(2) h, of 0 sys_sba 2 "[1, 2, 3]" calm_world] s i
  have "\<exists>s1 s2 l. server_frame calm_world 1 (received 1 ?h [1, 2, 3] s) = Some s1 \<and>
      req_end calm_world 0 sys_sba (CopyIn 2 False) s1 = Some s2 \<and> log s2 = l @ [Ret 0 0 [1, 2]]"
    by (auto simp: slots_def MAXCLI_def sys_sba_def)
  with s(1) show ?thesis by blast
qed

end
