(* ===== verification/Rexec.thy ===== *)
theory Rexec
  imports Fdtable
begin

text \<open>
  The launcher rexec, tools/rexec.c: command line, search of the program, privileges, the files
  passed in and the environment that describes them, and the order in which \<open>main\<close> calls the
  layer of the operating system.  That layer (tools/linux.c, tools/freebsd.c, tools/netbsd.c,
  tools/darwin.c) is a record of operations, \<open>os_ops\<close>.  The host is a parameter: \<open>r_ans\<close> answers
  a call from the calls made before, \<open>r_bytes\<close> and \<open>r_mode\<close> are what the last call wrote
  through its pointer, \<open>r_stack\<close> is the content of local variables that are not initialised and \<open>r_ptr\<close> the address
  of an object.  Flag arguments are named as in the source.  Strings are the values of C
  strings of the host's libc; messages are left out.
\<close>

section \<open>Runs\<close>

text \<open>A rule of the system call filter: the name of the call and the comparisons of its arguments.\<close>

datatype scmp = CMP_EQ nat "64 word" | CMP_MASKED_EQ nat "64 word" "64 word"

datatype rule = Allow string "scmp list"

record rhost =
  r_ans :: answers
  r_bytes :: "ext list \<Rightarrow> bytes"
  r_mode :: "ext list \<Rightarrow> 32 word"
  r_tmpdir :: string
  r_stack :: "nat \<Rightarrow> bytes"
  r_ptr :: "string \<Rightarrow> 64 word"

text \<open>
  The globals: the environment in its order, \<open>fdinfo_list\<close> with \<open>fdinfo_num\<close> entries, and of the
  layers the descriptor \<open>pfd\<close> and the rules added to \<open>ctx\<close>.
\<close>

record rx =
  rx_calls :: "ext list"
  rx_env :: "(string \<times> string) list"
  fdinfo_list :: "(string \<times> int) list"
  spec_9pfs :: "string option"
  rx_pfd :: int
  rx_ctx :: "rule list"

text \<open>
  The end of a function: it returns, the process exits, the program is executed with its arguments
  and environment, or memory is corrupted.
\<close>

datatype 'a run = Done 'a rx | Exit int rx | Exec arg "string list" "string list" rx | Fault

primrec bnd :: "'a run \<Rightarrow> ('a \<Rightarrow> rx \<Rightarrow> 'b run) \<Rightarrow> 'b run" where
  "bnd (Done x s) f = f x s"
| "bnd (Exit c s) f = Exit c s"
| "bnd (Exec p a e s) f = Exec p a e s"
| "bnd Fault f = Fault"

definition rcall :: "rhost \<Rightarrow> ext \<Rightarrow> rx \<Rightarrow> int \<times> rx" where
  "rcall h c s = (r_ans h (rx_calls s) c, s\<lparr>rx_calls := rx_calls s @ [c]\<rparr>)"

definition rdo :: "rhost \<Rightarrow> ext \<Rightarrow> rx \<Rightarrow> rx" where
  "rdo h c s = snd (rcall h c s)"

text \<open>A call after which the process exits when it fails.\<close>

definition must :: "rhost \<Rightarrow> ext \<Rightarrow> rx \<Rightarrow> int run" where
  "must h c s = (let (r, s) = rcall h c s in if r = - 1 then Exit 1 s else Done r s)"

section \<open>Environment\<close>

definition env_get :: "string \<Rightarrow> rx \<Rightarrow> string option" where
  "env_get n s = map_of (rx_env s) n"

fun env_set :: "string \<Rightarrow> string \<Rightarrow> (string \<times> string) list \<Rightarrow> (string \<times> string) list" where
  "env_set n v [] = [(n, v)]"
| "env_set n v ((k, x) # es) = (if k = n then (n, v) # es else (k, x) # env_set n v es)"

text \<open>\<open>setenv\<close> refuses an empty name and a name with an equals sign; its result is not looked at.\<close>

definition setenv :: "string \<Rightarrow> string \<Rightarrow> bool \<Rightarrow> rx \<Rightarrow> rx" where
  "setenv n v overwrite s =
     (if n = [] \<or> CHR ''='' \<in> set n then s
      else if \<not> overwrite \<and> env_get n s \<noteq> None then s
      else s\<lparr>rx_env := env_set n v (rx_env s)\<rparr>)"

text \<open>\<open>environ\<close>\<close>

definition env_strings :: "rx \<Rightarrow> string list" where
  "env_strings s = map (\<lambda>(n, v). n @ ''='' @ v) (rx_env s)"

text \<open>\<open>atoi\<close> of the host, \<open>(int)strtol(a, NULL, 10)\<close>, and its conversion to \<open>uid_t\<close>.\<close>

definition host_atoi :: "string \<Rightarrow> int" where
  "host_atoi a =
     (let a = dropWhile isspace a;
          neg = (a \<noteq> [] \<and> hd a = CHR ''-'');
          a = (if a \<noteq> [] \<and> (hd a = CHR ''-'' \<or> hd a = CHR ''+'') then tl a else a);
          v = foldl (\<lambda>v c. v * 10 + (of_char c - 48)) 0 (takeWhile isdigit a);
          v = (if neg then - v else v)
      in wrap32 (max (- (2 ^ 63)) (min (2 ^ 63 - 1) v)))"

definition to_id :: "string \<Rightarrow> nat" where
  "to_id a = nat (host_atoi a mod 2 ^ 32)"

section \<open>Descriptions of the descriptors\<close>

definition FDINFO_MAX :: nat where "FDINFO_MAX = 64"
definition FDINFO_NAMELEN :: nat where "FDINFO_NAMELEN = 64"

definition FDINFO_NAME_CONFIGJSON :: string where "FDINFO_NAME_CONFIGJSON = ''__RUMP_FDINFO_CONFIGJSON''"
definition FDINFO_ENV_PREFIX_NET :: string where "FDINFO_ENV_PREFIX_NET = ''__RUMP_FDINFO_NET_''"
definition FDINFO_ENV_PREFIX_DISK :: string where "FDINFO_ENV_PREFIX_DISK = ''__RUMP_FDINFO_DISK_''"
definition FDINFO_ENV_PREFIX_ROOT :: string where "FDINFO_ENV_PREFIX_ROOT = ''__RUMP_FDINFO_ROOT''"

text \<open>A new entry of \<open>fdinfo_list\<close>: neither the index nor the length of the name is checked.\<close>

definition fdinfo_add :: "string \<Rightarrow> int \<Rightarrow> rx \<Rightarrow> unit run" where
  "fdinfo_add name fd s =
     (if length (fdinfo_list s) < FDINFO_MAX \<and> length name < FDINFO_NAMELEN
      then Done () (s\<lparr>fdinfo_list := fdinfo_list s @ [(name, fd)]\<rparr>)
      else Fault)"

text \<open>\<open>fdstr\<close> has eight bytes.\<close>

definition fdinfo_setenv :: "rx \<Rightarrow> rx" where
  "fdinfo_setenv s = fold (\<lambda>(name, fd). setenv name (take 7 (dec_int fd)) True) (fdinfo_list s) s"

section \<open>The layer of the operating system\<close>

record os_ops =
  os_init :: "string \<Rightarrow> bool \<Rightarrow> rx \<Rightarrow> int run"
  os_emptydir :: "rx \<Rightarrow> int run"
  os_dropcaps :: "rx \<Rightarrow> unit run"
  os_extrafiles :: "rx \<Rightarrow> int run"
  os_pre :: "rx \<Rightarrow> int run"
  filter_fd :: "int \<Rightarrow> 32 word \<Rightarrow> 32 word \<Rightarrow> rx \<Rightarrow> int run"
  filter_load_exec :: "string \<Rightarrow> string list \<Rightarrow> string list \<Rightarrow> rx \<Rightarrow> int run"
  os_open :: "string \<Rightarrow> string \<Rightarrow> rx \<Rightarrow> int run"

section \<open>Opening files\<close>

text \<open>The name of the access mode in \<open>mode\<close>.\<close>

definition mode_name :: "32 word \<Rightarrow> string" where
  "mode_name mode = (if mode = O_RDONLY then ''O_RDONLY'' else ''O_RDWR'')"

definition set_nonblock :: "rhost \<Rightarrow> int \<Rightarrow> rx \<Rightarrow> unit run" where
  "set_nonblock h fd s =
     bnd (must h (Ext ''fcntl'' [AI fd, AS ''F_GETFL'']) s) (\<lambda>fl s.
     bnd (must h (Ext ''fcntl'' [AI fd, AS ''F_SETFL'', AI fl, AS ''O_NONBLOCK'']) s) (\<lambda>_ s.
     Done () s))"

text \<open>The branch \<open>console:\<close>; the test after the second \<open>open\<close> looks at the result of \<open>dup2\<close>.\<close>

definition console_open :: "rhost \<Rightarrow> string \<Rightarrow> rx \<Rightarrow> int run" where
  "console_open h post s =
     bnd (must h (Ext ''open'' [AS post, AS ''O_WRONLY|O_CREAT|O_APPEND'', AS ''S_IRUSR|S_IWUSR'']) s) (\<lambda>fd s.
     bnd (must h (Ext ''dup2'' [AI fd, AI 1]) s) (\<lambda>_ s.
     bnd (must h (Ext ''dup2'' [AI fd, AI 2]) s) (\<lambda>ret s.
     let s = rdo h (Ext ''close'' [AI fd]) s;
         (fd, s) = rcall h (Ext ''open'' [AS ''/dev/null'', AS ''O_RDONLY'']) s
     in if ret = - 1 then Exit 1 s
        else bnd (must h (Ext ''dup2'' [AI fd, AI 0]) s) (\<lambda>_ s.
             Done (- 1) (rdo h (Ext ''close'' [AI fd]) s)))))"

definition rootfs_open :: "rhost \<Rightarrow> string \<Rightarrow> 32 word \<Rightarrow> rx \<Rightarrow> int run" where
  "rootfs_open h post mode s =
     bnd (must h (Ext ''open'' [AS post, AS (mode_name mode)]) s) (\<lambda>fd s.
     bnd (set_nonblock h fd s) (\<lambda>_ s.
     bnd (fdinfo_add FDINFO_ENV_PREFIX_ROOT fd s) (\<lambda>_ s.
     Done fd s)))"

definition colon_open :: "os_ops \<Rightarrow> rhost \<Rightarrow> string \<Rightarrow> string \<Rightarrow> 32 word \<Rightarrow> rx \<Rightarrow> int run" where
  "colon_open os h pre post mode s =
     (if pre = ''console'' then console_open h post s
      else if pre = ''config'' then must h (Ext ''open'' [AS post, AS ''O_RDONLY'', AS ''S_IRUSR|S_IWUSR'']) s
      else if pre = ''rootfs'' then rootfs_open h post mode s
      else bnd (os_open os pre post s) (\<lambda>fd s. if fd = - 1 then Exit 1 s else Done fd s))"

text \<open>An argument \<open>pre:post\<close> of \<open>main\<close>, and one without a colon.\<close>

definition open_colon :: "os_ops \<Rightarrow> rhost \<Rightarrow> string \<Rightarrow> 32 word \<Rightarrow> rx \<Rightarrow> unit run" where
  "open_colon os h arg mode s =
     (let pre = takeWhile (\<lambda>c. c \<noteq> CHR '':'') arg; post = tl (dropWhile (\<lambda>c. c \<noteq> CHR '':'') arg)
      in bnd (colon_open os h pre post mode s) (\<lambda>fd s.
         if fd = - 1 then Done () s
         else if pre = ''config'' then fdinfo_add FDINFO_NAME_CONFIGJSON fd s
         else if pre = ''tun'' \<or> pre = ''tap'' \<or> pre = ''packet'' \<or> pre = ''docker''
         then fdinfo_add (FDINFO_ENV_PREFIX_NET @ post) fd s
         else Done () s))"

definition open_disk :: "rhost \<Rightarrow> string \<Rightarrow> 32 word \<Rightarrow> rx \<Rightarrow> unit run" where
  "open_disk h arg mode s =
     bnd (must h (Ext ''open'' [AS arg, AS (mode_name mode)]) s) (\<lambda>fd s.
     bnd (set_nonblock h fd s) (\<lambda>_ s.
     fdinfo_add (FDINFO_ENV_PREFIX_DISK @ arg) fd s))"

section \<open>The command line\<close>

text \<open>The local variables of \<open>main\<close> that the options set.\<close>

record opts =
  o_mode :: "32 word"
  o_nx :: bool
  o_user :: nat
  o_group :: nat

definition opts0 :: opts where
  "opts0 = \<lparr>o_mode = O_RDWR, o_nx = False, o_user = 0, o_group = 0\<rparr>"

definition noroot :: "rhost \<Rightarrow> rx \<Rightarrow> unit run" where
  "noroot h s =
     bnd (must h (Ext ''open'' [AS ''/dev/null'', AS ''O_RDONLY'']) s) (\<lambda>fd s.
     if fd \<noteq> 3 then Exit 1 s else Done () s)"

text \<open>
  The loop over \<open>argv\<close> from its second iteration on; the result has the arguments behind \<open>--\<close>.
\<close>

fun parse_args :: "os_ops \<Rightarrow> rhost \<Rightarrow> string list \<Rightarrow> opts \<Rightarrow> rx \<Rightarrow> (opts \<times> string list) run" where
  "parse_args os h [] ops s = Done (ops, []) s"
| "parse_args os h (arg # args) ops s =
     (if arg = ''-h'' then Exit 1 s
      else if arg = ''-ro'' then parse_args os h args (ops\<lparr>o_mode := O_RDONLY\<rparr>) s
      else if arg = ''-rw'' then parse_args os h args (ops\<lparr>o_mode := O_RDWR\<rparr>) s
      else if arg = ''-nx'' then parse_args os h args (ops\<lparr>o_nx := True\<rparr>) s
      else if arg = ''-u'' then
        (case args of
           [] \<Rightarrow> Exit 1 s
         | a # args \<Rightarrow>
             if to_id a = 0 then Exit 1 s else parse_args os h args (ops\<lparr>o_user := to_id a\<rparr>) s)
      else if arg = ''-g'' then
        (case args of
           [] \<Rightarrow> Exit 1 s
         | a # args \<Rightarrow>
             if to_id a = 0 then Exit 1 s else parse_args os h args (ops\<lparr>o_group := to_id a\<rparr>) s)
      else if arg = ''-noroot'' then bnd (noroot h s) (\<lambda>_ s. parse_args os h args ops s)
      else if arg = ''--'' then Done (ops, args) s
      else if arg = ''-v'' then
        (case args of
           [] \<Rightarrow> Exit 1 s
         | a # args \<Rightarrow> parse_args os h args ops (s\<lparr>spec_9pfs := Some a\<rparr>))
      else if CHR '':'' \<in> set arg then bnd (open_colon os h arg (o_mode ops) s) (\<lambda>_ s. parse_args os h args ops s)
      else bnd (open_disk h arg (o_mode ops) s) (\<lambda>_ s. parse_args os h args ops s))"

text \<open>
  The array \<open>pargs\<close>, with \<open>argc\<close> entries that are not initialised; \<open>None\<close> in the array is a null
  pointer, as the result an access outside of it.
\<close>

fun store_args :: "nat \<Rightarrow> string list \<Rightarrow> string option list \<Rightarrow> (nat \<times> string option list) option" where
  "store_args p [] pargs = Some (p, pargs)"
| "store_args p (a # as) pargs =
     (if p < length pargs then store_args (p + 1) as (pargs[p := Some a]) else None)"

definition build_pargs :: "string option list \<Rightarrow> string \<Rightarrow> string list \<Rightarrow> string option list option" where
  "build_pargs junk program rest =
     do {
       (p, pargs) \<leftarrow> store_args 0 (program # rest) junk;
       if p < length pargs then
         let pargs = pargs[p := Some '''']
         in Some (take p pargs @ replicate (length pargs - p) None)
       else None
     }"

text \<open>The strings up to the null pointer.\<close>

definition c_argv :: "string option list \<Rightarrow> string list option" where
  "c_argv pargs = (if None \<in> set pargs then Some (map the (takeWhile (\<lambda>a. a \<noteq> None) pargs)) else None)"

section \<open>Finding the program\<close>

definition PROGLEN :: nat where "PROGLEN = 4096"

text \<open>The parts that \<open>strtok\<close> finds: maximal non-empty runs without a colon.\<close>

fun strtok_parts :: "string \<Rightarrow> string \<Rightarrow> string list" where
  "strtok_parts part [] = (if part = [] then [] else [part])"
| "strtok_parts part (c # cs) =
     (if c = CHR '':'' then if part = [] then strtok_parts [] cs else part # strtok_parts [] cs
      else strtok_parts (part @ [c]) cs)"

fun path_search :: "rhost \<Rightarrow> string \<Rightarrow> string list \<Rightarrow> rx \<Rightarrow> string option \<times> rx" where
  "path_search h program [] s = (None, s)"
| "path_search h program (part # parts) s =
     (if length part + 1 + length program < PROGLEN then
        let prog = part @ ''/'' @ program;
            (r, s) = rcall h (Ext ''access'' [AS prog, AS ''R_OK|X_OK'']) s
        in if r = 0 then (Some prog, s) else path_search h program parts s
      else path_search h program parts s)"

definition find_program :: "rhost \<Rightarrow> string \<Rightarrow> rx \<Rightarrow> string run" where
  "find_program h program s =
     (if CHR ''/'' \<in> set program then Done program s
      else case env_get ''PATH'' s of
             None \<Rightarrow> Exit 1 s
           | Some path \<Rightarrow>
               (case path_search h program (strtok_parts [] path) s of
                  (None, s) \<Rightarrow> Exit 1 s
                | (Some prog, s) \<Rightarrow> Done prog s))"

definition check_program :: "rhost \<Rightarrow> string \<Rightarrow> rx \<Rightarrow> unit run" where
  "check_program h program s =
     bnd (must h (Ext ''stat'' [AS program]) s) (\<lambda>_ s.
     if r_mode h (rx_calls s) AND S_IFMT = S_IFREG then Done () s else Exit 1 s)"

section \<open>Privileges\<close>

definition choose_user :: "rhost \<Rightarrow> nat \<Rightarrow> rx \<Rightarrow> nat \<times> rx" where
  "choose_user h user s =
     (let (user, s) =
            (if user \<noteq> 0 then (user, s)
             else
               let (eu, s) = rcall h (Ext ''geteuid'' []) s
               in if eu \<noteq> 0 then (user, s)
                  else
                    let (u, s) = rcall h (Ext ''getuid'' []) s
                    in if u = 0 then (user, s)
                       else let (u, s) = rcall h (Ext ''getuid'' []) s in (nat u, s))
      in (case env_get ''SUDO_UID'' s of
            Some v \<Rightarrow> if user = 0 then (to_id v, s) else (user, s)
          | None \<Rightarrow> (user, s)))"

definition drop_ids :: "rhost \<Rightarrow> nat \<Rightarrow> nat \<Rightarrow> rx \<Rightarrow> unit run" where
  "drop_ids h user gid s =
     (let (user, s) = choose_user h user s
      in bnd (if gid \<noteq> 0 then must h (Ext ''setgid'' [AI (int gid)]) s else Done 0 s) (\<lambda>_ s.
         bnd (if user \<noteq> 0 then must h (Ext ''setuid'' [AI (int user)]) s else Done 0 s) (\<lambda>_ s.
         Done () s)))"

text \<open>The tests for root only print a message.\<close>

definition check_root :: "rhost \<Rightarrow> rx \<Rightarrow> rx" where
  "check_root h s =
     (let (u, s) = rcall h (Ext ''getuid'' []) s;
          s = (if u = 0 then s else rdo h (Ext ''geteuid'' []) s)
      in rdo h (Ext ''setuid'' [AI 0]) s)"

section \<open>The remaining steps\<close>

text \<open>\<open>"%02x"\<close>\<close>

definition hex2 :: "8 word \<Rightarrow> string" where
  "hex2 b = (let d = ''0123456789abcdef'' in [d ! (unat b div 16), d ! (unat b mod 16)])"

fun uuid_group :: "nat \<Rightarrow> nat \<Rightarrow> bytes \<Rightarrow> string" where
  "uuid_group 0 c rd = []"
| "uuid_group (Suc n) c rd = hex2 (rd ! c) @ uuid_group n (c + 1) rd"

definition uuid_string :: "bytes \<Rightarrow> string" where
  "uuid_string rd =
     uuid_group 4 0 rd @ ''-'' @ uuid_group 2 4 rd @ ''-'' @ uuid_group 2 6 rd @ ''-'' @ uuid_group 2 8 rd @ ''-'' @
     uuid_group 6 10 rd"

definition uuid :: "rhost \<Rightarrow> rx \<Rightarrow> unit run" where
  "uuid h s =
     (if env_get ''UUID'' s \<noteq> None then Done () s
      else
        bnd (must h (Ext ''open'' [AS ''/dev/urandom'', AS ''O_RDONLY'']) s) (\<lambda>fd s.
        bnd (must h (Ext ''read'' [AI fd, AI 16]) s) (\<lambda>count s.
        let rd = r_bytes h (rx_calls s)
        in if count \<noteq> 16 then Exit 1 s
           else bnd (must h (Ext ''close'' [AI fd]) s) (\<lambda>_ s.
                Done () (setenv ''UUID'' (uuid_string rd) False s)))))"

text \<open>\<open>at_removedir\<close>: the host has \<open>unlinkat\<close>.\<close>

definition emptydir :: "rhost \<Rightarrow> bool \<Rightarrow> rx \<Rightarrow> int run" where
  "emptydir h at_removedir s =
     (let (dirfd, s) = rcall h (Ext ''open'' [AS ''.'', AS ''O_RDONLY|O_DIRECTORY'']) s
      in if dirfd = - 1 then Done 1 s else
      let (dir, s) = rcall h (Ext ''mkdtemp'' [AS ''/tmp/dirXXXXXX'']) s
      in if dir = 0 then Done 1 s else
      let (r, s) = rcall h (Ext ''chdir'' [AS (r_tmpdir h)]) s
      in if r = - 1 then Done 1 s else
      let (r, s) = (if at_removedir then rcall h (Ext ''unlinkat'' [AI dirfd, AS (r_tmpdir h), AS ''AT_REMOVEDIR'']) s else (0, s))
      in if r = - 1 then Done 1 s else
      let (r, s) = rcall h (Ext ''close'' [AI dirfd]) s
      in if r = - 1 then Done 1 s else
      let (r, s) = rcall h (Ext ''chroot'' [AS ''.'']) s
      in if r \<noteq> 0 then Done 0 s else
      let (r, s) = rcall h (Ext ''chdir'' [AS ''/'']) s
      in if r = - 1 then Done 1 s else
      let (r, s) = rcall h (Ext ''chmod'' [AS ''.'', AI 0]) s
      in if r = - 1 then Done (- 1) s else Done 0 s)"

text \<open>Without a colon in the argument of \<open>-v\<close> the string passed to \<open>setenv\<close> is at address 1.\<close>

definition open_9pfs :: "rhost \<Rightarrow> rx \<Rightarrow> unit run" where
  "open_9pfs h s =
     (case spec_9pfs s of
        None \<Rightarrow> Done () s
      | Some spec \<Rightarrow>
          let (sock, s) = rcall h (Ext ''socket'' [AS ''AF_INET'', AS ''SOCK_STREAM'', AI 0]) s
          in if sock < 0 then Exit 1 s else
          let s = rdo h (Ext ''ioctl'' [AI sock, AS ''FIONBIO'', AI 0]) s;
              (r, s) = rcall h (Ext ''connect'' [AI sock, AS ''127.0.0.1'', AI 5640]) s
          in if r \<noteq> 0 then Exit 1 s
             else if CHR '':'' \<notin> set spec then Fault
             else
               let guest = tl (dropWhile (\<lambda>c. c \<noteq> CHR '':'') spec);
                   s = setenv ''9PFS_MNT'' guest False s
               in Done () (setenv ''9PFS_FD'' (dec_int sock) False s))"

section \<open>Main\<close>

text \<open>The flags and the mode of each descriptor, in order.\<close>

fun collect_fds :: "rhost \<Rightarrow> int list \<Rightarrow> rx \<Rightarrow> (int \<times> 32 word \<times> 32 word) list run" where
  "collect_fds h [] s = Done [] s"
| "collect_fds h (fd # fds) s =
     bnd (must h (Ext ''fcntl'' [AI fd, AS ''F_GETFL'']) s) (\<lambda>fl s.
     bnd (must h (Ext ''fstat'' [AI fd]) s) (\<lambda>_ s.
     let mode = r_mode h (rx_calls s)
     in bnd (collect_fds h fds s) (\<lambda>l s. Done ((fd, word_of_int fl, mode) # l) s)))"

fun filter_fds :: "os_ops \<Rightarrow> (int \<times> 32 word \<times> 32 word) list \<Rightarrow> rx \<Rightarrow> unit run" where
  "filter_fds os [] s = Done () s"
| "filter_fds os ((fd, fl, mode) # l) s =
     bnd (filter_fd os fd fl mode s) (\<lambda>ret s. if ret < 0 then Exit 1 s else filter_fds os l s)"

definition alloc_tables :: "rhost \<Rightarrow> int \<Rightarrow> rx \<Rightarrow> unit run" where
  "alloc_tables h nfds s =
     (let (fls, s) = rcall h (Ext ''calloc'' [AS ''int'', AI nfds]) s;
          (stats, s) = rcall h (Ext ''calloc'' [AS ''struct stat'', AI nfds]) s
      in if (fls = 0 \<or> stats = 0) \<and> 0 < nfds then Fault else Done () s)"

text \<open>\<open>main\<close> from the count of the open descriptors on.\<close>

definition launch :: "os_ops \<Rightarrow> rhost \<Rightarrow> string \<Rightarrow> string option list \<Rightarrow> rx \<Rightarrow> int run" where
  "launch os h prog pargs s =
     bnd (must h (Ext ''socket'' [AS ''AF_UNIX'', AS ''SOCK_STREAM'', AI 0]) s) (\<lambda>nfds s.
     bnd (must h (Ext ''close'' [AI nfds]) s) (\<lambda>_ s.
     bnd (alloc_tables h nfds (check_root h s)) (\<lambda>_ s.
     bnd (collect_fds h [0..nfds - 1] s) (\<lambda>fds s.
     bnd (os_pre os s) (\<lambda>_ s.
     bnd (filter_fds os fds s) (\<lambda>_ s.
     let s = fdinfo_setenv s
     in case c_argv pargs of
          None \<Rightarrow> Fault
        | Some argv \<Rightarrow>
            bnd (filter_load_exec os prog argv (env_strings s) s) (\<lambda>ret s.
            if ret < 0 then Exit 1 s else Done 0 s)))))))"

text \<open>\<open>main\<close> behind the loop over the arguments.\<close>

definition main_run :: "os_ops \<Rightarrow> rhost \<Rightarrow> opts \<Rightarrow> string \<Rightarrow> string option list \<Rightarrow> rx \<Rightarrow> int run" where
  "main_run os h ops program pargs s =
     bnd (find_program h program s) (\<lambda>prog s.
     bnd (check_program h prog s) (\<lambda>_ s.
     bnd (os_init os prog (o_nx ops) s) (\<lambda>ret s.
     if ret < 0 then Exit 1 s else
     bnd (os_emptydir os s) (\<lambda>_ s.
     bnd (drop_ids h (o_user ops) (o_group ops) s) (\<lambda>_ s.
     bnd (os_dropcaps os s) (\<lambda>_ s.
     bnd (open_9pfs h s) (\<lambda>_ s.
     bnd (os_extrafiles os s) (\<lambda>_ s.
     launch os h prog pargs s))))))))"

definition rexec_main :: "os_ops \<Rightarrow> rhost \<Rightarrow> string option list \<Rightarrow> string list \<Rightarrow> rx \<Rightarrow> int run" where
  "rexec_main os h junk argv s =
     (case argv of
        name # program # args \<Rightarrow>
          bnd (uuid h s) (\<lambda>_ s.
          if program = ''-h'' then Exit 1 s else
          bnd (parse_args os h args opts0 s) (\<lambda>(ops, rest) s.
          case build_pargs junk program rest of
            None \<Rightarrow> Fault
          | Some pargs \<Rightarrow> main_run os h ops program pargs s))
      | _ \<Rightarrow> Exit 1 s)"

text \<open>The globals at the start, with the environment \<open>env\<close>.\<close>

definition rx0 :: "(string \<times> string) list \<Rightarrow> rx" where
  "rx0 env = \<lparr>rx_calls = [], rx_env = env, fdinfo_list = [], spec_9pfs = None, rx_pfd = - 1, rx_ctx = []\<rparr>"

end
