(* ===== verification/Netlink.thy ===== *)
theory Netlink
  imports Rexec
begin

text \<open>
  The query of the default gateway over a netlink socket, \<open>readRoutes\<close>, \<open>parseRoutes\<close> and
  \<open>get_gateway\<close> of tools/linux.c, on the bytes of the messages.  The macros of the kernel's headers
  (\<open>NLMSG_OK\<close>, \<open>RTA_OK\<close> and the others) are written out, with \<open>len\<close> converted to \<open>__u32\<close> as in
  the source.  A position is an index of the buffer \<open>buf\<close>; \<open>None\<close> is an access outside of it.
\<close>

section \<open>Messages\<close>

definition num_at :: "nat \<Rightarrow> nat \<Rightarrow> bytes \<Rightarrow> nat option" where
  "num_at n i buf = (if i + n \<le> length buf then Some (dec_le (take n (drop i buf))) else None)"

definition bytes_at :: "nat \<Rightarrow> nat \<Rightarrow> bytes \<Rightarrow> bytes option" where
  "bytes_at n i buf = (if i + n \<le> length buf then Some (take n (drop i buf)) else None)"

definition NLMSG_ERROR :: nat where "NLMSG_ERROR = 2"
definition NLMSG_DONE :: nat where "NLMSG_DONE = 3"
definition NLM_F_MULTI :: nat where "NLM_F_MULTI = 2"
definition RTM_GETROUTE :: nat where "RTM_GETROUTE = 26"
definition NLM_F_DUMP_REQUEST :: nat where "NLM_F_DUMP_REQUEST = 0x301"
definition RT_TABLE_MAIN :: nat where "RT_TABLE_MAIN = 254"
definition RTM_AF_INET :: nat where "RTM_AF_INET = 2"
definition RTA_DST :: nat where "RTA_DST = 1"
definition RTA_GATEWAY :: nat where "RTA_GATEWAY = 5"

text \<open>\<open>sizeof(struct nlmsghdr)\<close>, and with \<open>struct rtmsg\<close>; \<open>NLMSG_ALIGN\<close> and \<open>RTA_ALIGN\<close>.\<close>

definition NLHDR :: nat where "NLHDR = 16"
definition RTHDR :: nat where "RTHDR = 28"

definition align4 :: "nat \<Rightarrow> nat" where
  "align4 n = (n + 3) div 4 * 4"

lemma align4_ge: "n \<le> align4 n"
  unfolding align4_def by presburger

definition NLMSG_OK :: "nat \<Rightarrow> int \<Rightarrow> bytes \<Rightarrow> bool option" where
  "NLMSG_OK pos len buf =
     (let len = nat (len mod 2 ^ 32)
      in if len < NLHDR then Some False
         else do { n \<leftarrow> num_at 4 pos buf; Some (NLHDR \<le> n \<and> n \<le> len) })"

definition RTA_OK :: "nat \<Rightarrow> int \<Rightarrow> bytes \<Rightarrow> bool option" where
  "RTA_OK pos len buf =
     (if len < 4 then Some False else do { n \<leftarrow> num_at 2 pos buf; Some (4 \<le> n \<and> int n \<le> len) })"

lemma NLMSG_OK_True:
  "NLMSG_OK pos len buf = Some True \<longleftrightarrow> (\<exists>n. num_at 4 pos buf = Some n \<and> NLHDR \<le> n \<and> n \<le> nat (len mod 2 ^ 32))"
  by (auto simp: NLMSG_OK_def NLHDR_def Let_def bind_eq_Some_conv split: if_splits)

lemma RTA_OK_True:
  "RTA_OK pos len buf = Some True \<longleftrightarrow> (\<exists>n. num_at 2 pos buf = Some n \<and> 4 \<le> n \<and> int n \<le> len)"
  by (auto simp: RTA_OK_def bind_eq_Some_conv split: if_splits)

section \<open>Reading the answer\<close>

text \<open>
  The loop body of \<open>readRoutes\<close> behind \<open>recv\<close>, for \<open>n\<close> bytes at \<open>len\<close>: the value returned, or
  \<open>len\<close> for another turn.
\<close>

definition route_chunk :: "nat \<Rightarrow> nat \<Rightarrow> nat \<Rightarrow> nat \<Rightarrow> bytes \<Rightarrow> (int + nat) option" where
  "route_chunk seq pid len n buf =
     do {
       ok \<leftarrow> NLMSG_OK len (int n) buf;
       if \<not> ok then Some (Inl (- 1))
       else do {
         typ \<leftarrow> num_at 2 (len + 4) buf;
         flags \<leftarrow> num_at 2 (len + 6) buf;
         sq \<leftarrow> num_at 4 (len + 8) buf;
         pd \<leftarrow> num_at 4 (len + 12) buf;
         Some (if typ = NLMSG_ERROR then Inl (- 1)
               else if typ = NLMSG_DONE then Inl (int len)
               else if flags AND NLM_F_MULTI = 0 then Inl (int (len + n))
               else if sq \<noteq> seq \<or> pd \<noteq> pid then Inr (len + n)
               else Inl (int (len + n)))
       }
     }"

lemma NLMSG_OK_len: "NLMSG_OK pos (int n) buf = Some True \<Longrightarrow> n < 2 ^ 32 \<Longrightarrow> 16 \<le> n"
  by (auto simp: NLMSG_OK_def NLHDR_def Let_def bind_eq_Some_conv split: if_splits)

lemma route_chunk_more: "route_chunk seq pid len n buf = Some (Inr len') \<Longrightarrow> n < 2 ^ 32 \<Longrightarrow> len' = len + n \<and> 16 \<le> n"
  using NLMSG_OK_len [of len n buf] by (auto simp: route_chunk_def bind_eq_Some_conv split: if_splits)

text \<open>The bytes of a datagram are copied to \<open>buf + len\<close>; a host that returns more than it was given room for is excluded.\<close>

definition recv_at :: "rhost \<Rightarrow> int \<Rightarrow> nat \<Rightarrow> bytes \<Rightarrow> rx \<Rightarrow> (int \<times> bytes \<times> rx) option" where
  "recv_at h sock len buf s =
     (let (n, s) = rcall h (Ext ''recv'' [AI sock, AI (int (length buf - len))]) s;
          bs = take (nat n) (r_bytes h (rx_calls s))
      in if n = - 1 then Some (- 1, buf, s)
         else if n < 0 \<or> length bs < nat n \<or> n \<ge> 2 ^ 32 then None
         else do { buf \<leftarrow> put_at len bs buf; Some (n, buf, s) })"

lemma put_at_length: "put_at i bs d = Some d' \<Longrightarrow> i + length bs \<le> length d \<and> length d' = length d"
  by (auto simp: put_at_def split: if_splits)

lemma put_at_fits: "i + length bs \<le> length d \<Longrightarrow> \<exists>d'. put_at i bs d = Some d'"
  by (simp add: put_at_def)

lemma recv_at_len:
  assumes "recv_at h sock len buf s = Some (n, buf', s')" and "n \<noteq> - 1"
  shows "0 \<le> n" and "n < 2 ^ 32" and "len + nat n \<le> length buf" and "length buf' = length buf"
proof -
  let ?c = "Ext ''recv'' [AI sock, AI (int (length buf - len))]"
  let ?bs = "take (nat n) (r_bytes h (rx_calls (rdo h ?c s)))"
  have n: "n = fst (rcall h ?c s)" and pos: "\<not> n < 0" and len: "\<not> length ?bs < nat n" "\<not> 2 ^ 32 \<le> n"
    and p: "put_at len ?bs buf = Some buf'"
    using assms by (auto simp: recv_at_def rdo_def Let_def split_beta bind_eq_Some_conv simp del: length_take split: if_splits)
  show "0 \<le> n" "n < 2 ^ 32" using pos len(2) by simp_all
  have "length ?bs = nat n" using len(1) by simp
  with put_at_length [OF p] show "len + nat n \<le> length buf" "length buf' = length buf" by (simp_all only:)
qed

function readRoutes :: "rhost \<Rightarrow> int \<Rightarrow> nat \<Rightarrow> nat \<Rightarrow> nat \<Rightarrow> bytes \<Rightarrow> rx \<Rightarrow> (int \<times> bytes \<times> rx) option" where
  "readRoutes h sock seq pid len buf s =
     (case recv_at h sock len buf s of
        None \<Rightarrow> None
      | Some (n, buf', s') \<Rightarrow>
          if n = - 1 then Some (- 1, buf', s')
          else case route_chunk seq pid len (nat n) buf' of
                 None \<Rightarrow> None
               | Some (Inl r) \<Rightarrow> Some (r, buf', s')
               | Some (Inr len') \<Rightarrow> readRoutes h sock seq pid len' buf' s')"
  by pat_completeness auto
termination
proof (relation "measure (\<lambda>(h, sock, seq, pid, len, buf, s). length buf - len)", simp, goal_cases)
  case (1 h sock seq pid len buf s a n b buf' s' r len')
  then have r: "recv_at h sock len buf s = Some (n, buf', s')" "n \<noteq> - 1"
    "route_chunk seq pid len (nat n) buf' = Some (Inr len')" by simp_all
  with recv_at_len [OF r(1,2)] have n: "nat n < 2 ^ 32" "len + nat n \<le> length buf" "length buf' = length buf"
    by (simp_all add: nat_less_iff)
  with route_chunk_more [OF r(3) n(1)] have "length buf' - len' < length buf - len" by linarith
  then show ?case by simp
qed

declare readRoutes.simps [simp del]

section \<open>Routes\<close>

text \<open>The attributes of a route: \<open>dst\<close> and \<open>gw\<close> are overwritten by the attributes found.\<close>

definition attr_at :: "nat \<Rightarrow> bytes \<Rightarrow> bytes \<times> bytes \<Rightarrow> (bytes \<times> bytes) option" where
  "attr_at pos buf dg =
     do {
       typ \<leftarrow> num_at 2 (pos + 2) buf;
       if typ = RTA_GATEWAY then map_option (\<lambda>gw. (fst dg, gw)) (bytes_at 4 (pos + 4) buf)
       else if typ = RTA_DST then map_option (\<lambda>dst. (dst, snd dg)) (bytes_at 4 (pos + 4) buf)
       else Some dg
     }"

function parse_attrs :: "nat \<Rightarrow> int \<Rightarrow> bytes \<Rightarrow> bytes \<times> bytes \<Rightarrow> (bytes \<times> bytes) option" where
  "parse_attrs pos rtlen buf dg =
     (case RTA_OK pos rtlen buf of
        None \<Rightarrow> None
      | Some False \<Rightarrow> Some dg
      | Some True \<Rightarrow>
          (case (attr_at pos buf dg, num_at 2 pos buf) of
             (Some dg', Some l) \<Rightarrow> parse_attrs (pos + align4 l) (rtlen - int (align4 l)) buf dg'
           | _ \<Rightarrow> None))"
  by pat_completeness auto
termination
proof (relation "measure (\<lambda>(pos, rtlen, buf, dg). nat rtlen)", simp, goal_cases)
  case (1 pos rtlen buf dg ok a b dg' l)
  then have "RTA_OK pos rtlen buf = Some True" "num_at 2 pos buf = Some l" by simp_all
  then have "4 \<le> l" "int l \<le> rtlen" by (simp_all add: RTA_OK_True)
  with align4_ge [of l] have "nat (rtlen - int (align4 l)) < nat rtlen" by linarith
  then show ?case by simp
qed

declare parse_attrs.simps [simp del]

definition parseRoutes :: "nat \<Rightarrow> bytes \<Rightarrow> bytes \<times> bytes \<Rightarrow> (int \<times> bytes \<times> bytes) option" where
  "parseRoutes pos buf dg =
     do {
       family \<leftarrow> num_at 1 (pos + NLHDR) buf;
       if family \<noteq> RTM_AF_INET then Some (- 1, dg)
       else do {
         tab \<leftarrow> num_at 1 (pos + NLHDR + 4) buf;
         if tab \<noteq> RT_TABLE_MAIN then Some (- 1, dg)
         else do {
           len \<leftarrow> num_at 4 pos buf;
           dg \<leftarrow> parse_attrs (pos + RTHDR) (wrap32 (int len - int RTHDR)) buf dg;
           Some (0, dg)
         }
       }
     }"

text \<open>The loop of \<open>get_gateway\<close>; \<open>dest\<close> keeps the value of the last route that had one.\<close>

function gateway_loop :: "nat \<Rightarrow> int \<Rightarrow> bytes \<Rightarrow> bytes \<times> bytes \<Rightarrow> (int \<times> bytes) option" where
  "gateway_loop pos len buf dg =
     (case NLMSG_OK pos len buf of
        None \<Rightarrow> None
      | Some False \<Rightarrow> Some (- 1, snd dg)
      | Some True \<Rightarrow>
          (case (parseRoutes pos buf dg, num_at 4 pos buf) of
             (Some (r, dest, gw), Some l) \<Rightarrow>
               if r \<noteq> - 1 \<and> dest = [0, 0, 0, 0] then Some (0, gw)
               else gateway_loop (pos + align4 l) (wrap32 (len - int (align4 l))) buf (dest, gw)
           | _ \<Rightarrow> None))"
  by pat_completeness auto
termination
proof (relation "measure (\<lambda>(pos, len, buf, dg). length buf - pos)", simp, goal_cases)
  case (1 pos len buf dg ok a b p r d dest gw l)
  then have l: "NLMSG_OK pos len buf = Some True" "num_at 4 pos buf = Some l" by simp_all
  then have "16 \<le> l" by (simp add: NLMSG_OK_True NLHDR_def)
  with l(2) have "pos < length buf" "16 \<le> align4 l" using align4_ge [of l] by (auto simp: num_at_def split: if_splits)
  then show ?case by simp
qed

declare gateway_loop.simps [simp del]

definition GWBUF :: nat where "GWBUF = 8192"

text \<open>
  \<open>r_stack h 0\<close>: the uninitialised \<open>buf\<close>; \<open>r_stack h 1\<close>: \<open>dest\<close>; \<open>gw\<close>: the caller's variable.
\<close>

definition get_gateway :: "rhost \<Rightarrow> bytes \<Rightarrow> rx \<Rightarrow> (int \<times> bytes \<times> rx) option" where
  "get_gateway h gw s =
     (let (sock, s) = rcall h (Ext ''socket'' [AS ''PF_NETLINK'', AS ''SOCK_DGRAM'', AS ''NETLINK_ROUTE'']) s
      in if sock = - 1 then Some (- 1, gw, s)
         else
           let (pid, s) = rcall h (Ext ''getpid'' []) s;
               seq = 0;
               hdr = enc_le 4 RTHDR @ enc_le 2 RTM_GETROUTE @ enc_le 2 NLM_F_DUMP_REQUEST @ enc_le 4 seq @ enc_le 4 (nat pid)
           in do {
                buf \<leftarrow> put_at 0 hdr (take GWBUF (r_stack h 0));
                let (r, s) = rcall h (Ext ''send'' [AI sock, AI (int RTHDR)]) s;
                if r = - 1 then Some (- 1, gw, s)
                else do {
                  (len, buf, s) \<leftarrow> readRoutes h sock seq (nat pid) 0 buf s;
                  if len = - 1 then Some (- 1, gw, s)
                  else do {
                    (ret, gw) \<leftarrow> gateway_loop 0 len buf (take 4 (r_stack h 1), gw);
                    Some (ret, gw, rdo h (Ext ''close'' [AI sock]) s)
                  }
                }
              })"

section \<open>What the messages say\<close>

text \<open>
  A route of a dump: the fields of \<open>struct rtmsg\<close>, of which the code reads the address family and the
  table, and the attributes.
\<close>

record route =
  rt_family :: nat
  rt_dst_len :: "8 word"
  rt_src_len :: "8 word"
  rt_tos :: "8 word"
  rt_table :: nat
  rt_protocol :: "8 word"
  rt_scope :: "8 word"
  rt_type :: "8 word"
  rt_flags :: nat
  rt_attrs :: "(nat \<times> bytes) list"

definition pad4 :: "bytes \<Rightarrow> bytes" where
  "pad4 d = d @ replicate (align4 (length d) - length d) 0"

definition enc_attr :: "nat \<times> bytes \<Rightarrow> bytes" where
  "enc_attr a = enc_le 2 (4 + length (snd a)) @ enc_le 2 (fst a) @ pad4 (snd a)"

definition enc_body :: "route \<Rightarrow> bytes" where
  "enc_body r =
     [word_of_nat (rt_family r), rt_dst_len r, rt_src_len r, rt_tos r, word_of_nat (rt_table r), rt_protocol r, rt_scope r, rt_type r] @
     enc_le 4 (rt_flags r) @ concat (map enc_attr (rt_attrs r))"

definition enc_route :: "nat \<Rightarrow> nat \<Rightarrow> route \<Rightarrow> bytes" where
  "enc_route seq pid r =
     enc_le 4 (NLHDR + length (enc_body r)) @ enc_le 2 24 @ enc_le 2 NLM_F_MULTI @ enc_le 4 seq @ enc_le 4 pid @ enc_body r"

definition enc_dump :: "nat \<Rightarrow> nat \<Rightarrow> route list \<Rightarrow> bytes" where
  "enc_dump seq pid rs = concat (map (enc_route seq pid) rs)"

text \<open>The message that ends a dump; the kernel sends it behind the last route or in a datagram of its own.\<close>

definition enc_done :: "nat \<Rightarrow> nat \<Rightarrow> bytes" where
  "enc_done seq pid =
     enc_le 4 20 @ enc_le 2 NLMSG_DONE @ enc_le 2 NLM_F_MULTI @ enc_le 4 seq @ enc_le 4 pid @ [0, 0, 0, 0]"

definition dump_end :: "nat \<Rightarrow> nat \<Rightarrow> bytes \<Rightarrow> bool" where
  "dump_end seq pid fin \<longleftrightarrow> fin = [] \<or> fin = enc_done seq pid"

definition attr_ok :: "nat \<times> bytes \<Rightarrow> bool" where
  "attr_ok a \<longleftrightarrow> fst a < 2 ^ 16 \<and> length (snd a) < 2 ^ 15 \<and> (fst a = RTA_DST \<or> fst a = RTA_GATEWAY \<longrightarrow> length (snd a) = 4)"

definition route_ok :: "route \<Rightarrow> bool" where
  "route_ok r \<longleftrightarrow> rt_family r < 256 \<and> rt_table r < 256 \<and> list_all attr_ok (rt_attrs r)"

text \<open>The effect of the attributes, and the gateway that the loop finds.\<close>

fun attr_upd :: "nat \<times> bytes \<Rightarrow> bytes \<times> bytes \<Rightarrow> bytes \<times> bytes" where
  "attr_upd (t, d) (dst, gw) = (if t = RTA_GATEWAY then (dst, d) else if t = RTA_DST then (d, gw) else (dst, gw))"

fun find_gateway :: "route list \<Rightarrow> bytes \<times> bytes \<Rightarrow> int \<times> bytes" where
  "find_gateway [] dg = (- 1, snd dg)"
| "find_gateway (r # rs) dg =
     (if rt_family r \<noteq> RTM_AF_INET \<or> rt_table r \<noteq> RT_TABLE_MAIN then find_gateway rs dg
      else let dg = fold attr_upd (rt_attrs r) dg
           in if fst dg = [0, 0, 0, 0] then (0, snd dg) else find_gateway rs dg)"

section \<open>Parsing inverts encoding\<close>

lemma num_at_skip: "num_at n (length xs + i) (xs @ ys) = num_at n i ys"
  by (simp add: num_at_def)

lemma bytes_at_skip: "bytes_at n (length xs + i) (xs @ ys) = bytes_at n i ys"
  by (simp add: bytes_at_def)

lemma num_at_enc: "v < 256 ^ n \<Longrightarrow> num_at n 0 (enc_le n v @ ys) = Some v"
  by (simp add: num_at_def dec_enc_le)

lemma num_at_field: "i = length xs \<Longrightarrow> v < 256 ^ n \<Longrightarrow> num_at n i (xs @ enc_le n v @ ys) = Some v"
  using num_at_skip [of n xs 0] by (simp add: num_at_enc)

lemma length_pad4: "length (pad4 d) = align4 (length d)"
  using align4_ge [of "length d"] by (simp add: pad4_def)

lemma align4_add: "align4 (4 + n) = 4 + align4 n"
  unfolding align4_def by presburger

lemma length_enc_attr: "length (enc_attr a) = align4 (4 + length (snd a))"
  by (simp add: enc_attr_def length_pad4 align4_add)

lemma attr_at_enc:
  assumes "attr_ok a"
  shows "attr_at (length pre) (pre @ enc_attr a @ post) dg = Some (attr_upd a dg)"
proof -
  obtain t d where a: "a = (t, d)" by (cases a)
  have t: "num_at 2 (length pre + 2) (pre @ enc_attr a @ post) = Some t"
    unfolding num_at_skip enc_attr_def a using assms a by (simp add: num_at_field attr_ok_def)
  have d: "bytes_at 4 (length pre + 4) (pre @ enc_attr a @ post) = Some d" if "length d = 4"
    unfolding bytes_at_skip enc_attr_def a using that by (simp add: bytes_at_def pad4_def align4_def)
  show ?thesis
    using assms t d by (cases dg) (auto simp: attr_at_def a attr_ok_def)
qed

lemma parse_attrs_enc:
  assumes "list_all attr_ok as"
  shows "parse_attrs (length pre) (int (length (concat (map enc_attr as)))) (pre @ concat (map enc_attr as) @ post) dg =
    Some (fold attr_upd as dg)"
  using assms
proof (induction as arbitrary: pre dg)
  case Nil
  show ?case by (subst parse_attrs.simps) (simp add: RTA_OK_def)
next
  case (Cons a as)
  let ?l = "4 + length (snd a)" let ?rest = "concat (map enc_attr as)"
  let ?buf = "pre @ enc_attr a @ ?rest @ post"
  have ok: "attr_ok a" "list_all attr_ok as" using Cons.prems by simp_all
  have l: "num_at 2 (length pre) ?buf = Some ?l"
    using ok(1) by (simp add: enc_attr_def attr_ok_def num_at_field)
  have "?l \<le> length (enc_attr a)" using align4_ge [of ?l] by (simp add: length_enc_attr)
  with l have rta: "RTA_OK (length pre) (int (length (enc_attr a) + length ?rest)) ?buf = Some True" by (simp add: RTA_OK_True)
  have "parse_attrs (length (pre @ enc_attr a)) (int (length ?rest)) ((pre @ enc_attr a) @ ?rest @ post) (attr_upd a dg) =
      Some (fold attr_upd as (attr_upd a dg))"
    by (rule Cons.IH [OF ok(2)])
  then have "parse_attrs (length pre + align4 ?l) (int (length ?rest)) ?buf (attr_upd a dg) = Some (fold attr_upd (a # as) dg)"
    by (simp add: length_enc_attr)
  with l rta attr_at_enc [OF ok(1), of pre "?rest @ post" dg] show ?case
    by (subst parse_attrs.simps) (simp add: length_enc_attr)
qed

lemma length_enc_route: "length (enc_route seq pid r) = NLHDR + length (enc_body r)"
  by (simp add: enc_route_def NLHDR_def)

lemma align4_mult: "align4 (4 * k) = 4 * k"
  unfolding align4_def by presburger

lemma enc_route_aligned: "align4 (length (enc_route seq pid r)) = length (enc_route seq pid r)"
proof -
  have "4 dvd length (concat (map enc_attr as))" for as
    by (induction as) (simp_all add: length_enc_attr align4_def)
  then have "4 dvd length (enc_route seq pid r)"
    by (simp add: length_enc_route NLHDR_def enc_body_def)
  then show ?thesis by (auto simp: align4_mult)
qed

text \<open>A single byte of the route's header.\<close>

lemma num_at_byte: "b < 256 \<Longrightarrow> num_at 1 (length xs) (xs @ word_of_nat b # ys) = Some b"
  by (simp add: num_at_def unat_of_nat)

lemma route_fields:
  assumes "route_ok r" and "length (enc_route seq pid r) < 2 ^ 31"
  shows "num_at 4 (length pre) (pre @ enc_route seq pid r @ post) = Some (length (enc_route seq pid r))"
    and "num_at 1 (length pre + NLHDR) (pre @ enc_route seq pid r @ post) = Some (rt_family r)"
    and "num_at 1 (length pre + NLHDR + 4) (pre @ enc_route seq pid r @ post) = Some (rt_table r)"
proof -
  show "num_at 4 (length pre) (pre @ enc_route seq pid r @ post) = Some (length (enc_route seq pid r))"
    using assms(2) by (simp add: length_enc_route) (simp add: enc_route_def num_at_field)
  let ?hdr = "enc_le 4 (NLHDR + length (enc_body r)) @ enc_le 2 24 @ enc_le 2 NLM_F_MULTI @ enc_le 4 seq @ enc_le 4 pid"
  let ?body = "concat (map enc_attr (rt_attrs r)) @ post" and ?mid = "[rt_protocol r, rt_scope r, rt_type r] @ enc_le 4 (rt_flags r)"
  let ?pre = "[word_of_nat (rt_family r), rt_dst_len r, rt_src_len r, rt_tos r]"
  have "num_at 1 (length (pre @ ?hdr)) ((pre @ ?hdr) @ word_of_nat (rt_family r) # [rt_dst_len r, rt_src_len r, rt_tos r, word_of_nat (rt_table r)] @ ?mid @ ?body) =
      Some (rt_family r)"
    using assms(1) by (intro num_at_byte) (simp add: route_ok_def)
  then show "num_at 1 (length pre + NLHDR) (pre @ enc_route seq pid r @ post) = Some (rt_family r)"
    by (simp add: enc_route_def enc_body_def NLHDR_def)
  have "num_at 1 (length (pre @ ?hdr @ ?pre)) ((pre @ ?hdr @ ?pre) @ word_of_nat (rt_table r) # ?mid @ ?body) = Some (rt_table r)"
    using assms(1) by (intro num_at_byte) (simp add: route_ok_def)
  then show "num_at 1 (length pre + NLHDR + 4) (pre @ enc_route seq pid r @ post) = Some (rt_table r)"
    by (simp add: enc_route_def enc_body_def NLHDR_def add.commute)
qed

lemma parseRoutes_enc:
  assumes ok: "route_ok r" and len: "length (enc_route seq pid r) < 2 ^ 31"
  shows "parseRoutes (length pre) (pre @ enc_route seq pid r @ post) dg =
    Some (if rt_family r \<noteq> RTM_AF_INET \<or> rt_table r \<noteq> RT_TABLE_MAIN then (- 1, dg) else (0, fold attr_upd (rt_attrs r) dg))"
proof -
  let ?as = "concat (map enc_attr (rt_attrs r))"
  let ?hdr = "enc_le 4 (NLHDR + length (enc_body r)) @ enc_le 2 24 @ enc_le 2 NLM_F_MULTI @ enc_le 4 seq @ enc_le 4 pid @
    [word_of_nat (rt_family r), rt_dst_len r, rt_src_len r, rt_tos r, word_of_nat (rt_table r), rt_protocol r, rt_scope r, rt_type r] @
    enc_le 4 (rt_flags r)"
  have n: "length (enc_route seq pid r) = RTHDR + length ?as"
    by (simp add: length_enc_route enc_body_def NLHDR_def RTHDR_def)
  have "parse_attrs (length (pre @ ?hdr)) (int (length ?as)) ((pre @ ?hdr) @ ?as @ post) dg = Some (fold attr_upd (rt_attrs r) dg)"
    using ok by (intro parse_attrs_enc) (simp add: route_ok_def)
  then have "parse_attrs (length pre + RTHDR) (int (length ?as)) (pre @ enc_route seq pid r @ post) dg = Some (fold attr_upd (rt_attrs r) dg)"
    by (simp add: enc_route_def enc_body_def RTHDR_def)
  moreover have "wrap32 (int (length (enc_route seq pid r)) - int RTHDR) = int (length ?as)"
    using len n by (simp add: wrap32_id)
  ultimately show ?thesis
    using route_fields [OF ok len, of pre post] by (cases dg) (simp add: parseRoutes_def)
qed

lemma done_fields:
  "num_at 4 (length pre) (pre @ enc_done seq pid @ post) = Some 20"
  "num_at 1 (length pre + NLHDR) (pre @ enc_done seq pid @ post) = Some 0"
proof -
  show "num_at 4 (length pre) (pre @ enc_done seq pid @ post) = Some 20" by (simp add: enc_done_def num_at_field)
  let ?hdr = "enc_le 4 20 @ enc_le 2 NLMSG_DONE @ enc_le 2 NLM_F_MULTI @ enc_le 4 seq @ enc_le 4 pid"
  show "num_at 1 (length pre + NLHDR) (pre @ enc_done seq pid @ post) = Some 0"
    using num_at_byte [of 0 "pre @ ?hdr" "[0, 0, 0] @ post"] by (simp add: enc_done_def NLHDR_def)
qed

lemma length_enc_done: "length (enc_done seq pid) = 20"
  by (simp add: enc_done_def)

lemma gateway_loop_none: "gateway_loop pos 0 buf dg = Some (- 1, snd dg)"
  by (subst gateway_loop.simps) (simp add: NLMSG_OK_def NLHDR_def)

lemma gateway_loop_end:
  assumes "dump_end seq pid fin"
  shows "gateway_loop (length pre) (int (length fin)) (pre @ fin @ post) dg = Some (- 1, snd dg)"
proof (cases "fin = []")
  case False
  with assms have fin: "fin = enc_done seq pid" by (simp add: dump_end_def)
  have "NLMSG_OK (length pre) 20 (pre @ fin @ post) = Some True"
    unfolding fin by (simp add: NLMSG_OK_True done_fields NLHDR_def)
  moreover have "parseRoutes (length pre) (pre @ fin @ post) dg = Some (- 1, dg)"
    unfolding fin parseRoutes_def done_fields by (simp add: RTM_AF_INET_def)
  moreover have "align4 20 = 20" by (simp add: align4_def)
  ultimately show ?thesis
    using done_fields(1) [of pre seq pid post] gateway_loop_none
    by (subst gateway_loop.simps) (cases dg; simp add: fin length_enc_done wrap32_id)
qed (simp add: gateway_loop_none)

lemma gateway_loop_enc:
  assumes "list_all route_ok rs" and "length (enc_dump seq pid rs @ fin) < 2 ^ 31" and "dump_end seq pid fin"
  shows "gateway_loop (length pre) (int (length (enc_dump seq pid rs @ fin))) (pre @ enc_dump seq pid rs @ fin @ post) dg =
    Some (find_gateway rs dg)"
  using assms(1,2)
proof (induction rs arbitrary: pre dg)
  case Nil
  show ?case using gateway_loop_end [OF assms(3)] by (simp add: enc_dump_def)
next
  case (Cons r rs)
  let ?m = "enc_route seq pid r" let ?rest = "enc_dump seq pid rs @ fin"
  let ?buf = "pre @ ?m @ ?rest @ post"
  let ?dg = "if rt_family r \<noteq> RTM_AF_INET \<or> rt_table r \<noteq> RT_TABLE_MAIN then dg else fold attr_upd (rt_attrs r) dg"
  have d: "enc_dump seq pid (r # rs) @ fin = ?m @ ?rest" "enc_dump seq pid (r # rs) = ?m @ enc_dump seq pid rs"
    by (simp_all add: enc_dump_def)
  have ok: "route_ok r" "list_all route_ok rs" and len: "length ?m + length ?rest < 2 ^ 31" using Cons.prems by (simp_all add: d)
  have l: "num_at 4 (length pre) ?buf = Some (length ?m)" using ok(1) len route_fields(1) [of r seq pid pre "?rest @ post"] by simp
  then have nl: "NLMSG_OK (length pre) (int (length ?m + length ?rest)) ?buf = Some True"
    using len by (simp add: NLMSG_OK_True length_enc_route nat_mod_distrib)
  have p: "parseRoutes (length pre) ?buf dg =
      Some (if rt_family r \<noteq> RTM_AF_INET \<or> rt_table r \<noteq> RT_TABLE_MAIN then (- 1, dg) else (0, fold attr_upd (rt_attrs r) dg))"
    using ok(1) len parseRoutes_enc [of r seq pid pre "?rest @ post" dg] by simp
  have "gateway_loop (length (pre @ ?m)) (int (length ?rest)) ((pre @ ?m) @ ?rest @ post) ?dg = Some (find_gateway rs ?dg)"
    using Cons.IH [OF ok(2), of "pre @ ?m" ?dg] len by simp
  moreover have "wrap32 (int (length ?m + length ?rest) - int (align4 (length ?m))) = int (length ?rest)"
    using len by (simp add: enc_route_aligned wrap32_id)
  ultimately show ?case
    using l nl p by (subst gateway_loop.simps) (cases dg; auto simp: d enc_route_aligned Let_def split: prod.splits)
qed

section \<open>The default gateway\<close>

definition nl_socket :: ext where "nl_socket = Ext ''socket'' [AS ''PF_NETLINK'', AS ''SOCK_DGRAM'', AS ''NETLINK_ROUTE'']"

text \<open>
  A host whose kernel answers the request behind the calls \<open>cs\<close> with a datagram that holds the routes
  \<open>rs\<close> and then \<open>fin\<close>.
\<close>

definition answers_dump :: "rhost \<Rightarrow> ext list \<Rightarrow> nat \<Rightarrow> route list \<Rightarrow> bytes \<Rightarrow> bool" where
  "answers_dump h cs pid rs fin \<longleftrightarrow>
     (let sock = r_ans h cs nl_socket;
          cs1 = cs @ [nl_socket]; cs2 = cs1 @ [Ext ''getpid'' []]; send = Ext ''send'' [AI sock, AI (int RTHDR)];
          cs3 = cs2 @ [send]; recv = Ext ''recv'' [AI sock, AI (int GWBUF)]; d = enc_dump 0 pid rs @ fin
      in sock \<noteq> - 1 \<and> r_ans h cs1 (Ext ''getpid'' []) = int pid \<and> r_ans h cs2 send \<noteq> - 1 \<and>
         r_ans h cs3 recv = int (length d) \<and> r_bytes h (cs3 @ [recv]) = d)"

lemma first_route_fields:
  assumes "pid < 2 ^ 32"
  shows "num_at 2 4 (enc_route 0 pid r @ post) = Some 24" and "num_at 2 6 (enc_route 0 pid r @ post) = Some NLM_F_MULTI"
    and "num_at 4 8 (enc_route 0 pid r @ post) = Some 0" and "num_at 4 12 (enc_route 0 pid r @ post) = Some pid"
proof -
  let ?n = "enc_le 4 (NLHDR + length (enc_body r))"
  have e: "enc_route 0 pid r @ post = ?n @ enc_le 2 24 @ (enc_le 2 NLM_F_MULTI @ enc_le 4 0 @ enc_le 4 pid @ enc_body r @ post)"
    "enc_route 0 pid r @ post = (?n @ enc_le 2 24) @ enc_le 2 NLM_F_MULTI @ (enc_le 4 0 @ enc_le 4 pid @ enc_body r @ post)"
    "enc_route 0 pid r @ post = (?n @ enc_le 2 24 @ enc_le 2 NLM_F_MULTI) @ enc_le 4 0 @ (enc_le 4 pid @ enc_body r @ post)"
    "enc_route 0 pid r @ post = (?n @ enc_le 2 24 @ enc_le 2 NLM_F_MULTI @ enc_le 4 0) @ enc_le 4 pid @ (enc_body r @ post)"
    by (simp_all add: enc_route_def)
  show "num_at 2 4 (enc_route 0 pid r @ post) = Some 24" unfolding e(1) by (rule num_at_field) simp_all
  show "num_at 2 6 (enc_route 0 pid r @ post) = Some NLM_F_MULTI" unfolding e(2) by (rule num_at_field) (simp_all add: NLM_F_MULTI_def)
  show "num_at 4 8 (enc_route 0 pid r @ post) = Some 0" unfolding e(3) by (rule num_at_field) simp_all
  show "num_at 4 12 (enc_route 0 pid r @ post) = Some pid" unfolding e(4) by (rule num_at_field) (use assms in simp_all)
qed

text \<open>The first datagram ends the loop, although more of them may follow.\<close>

lemma route_chunk_first:
  assumes "route_ok r" and "pid < 2 ^ 32" and "d = enc_dump 0 pid (r # rs) @ fin" and "length d < 2 ^ 31"
  shows "route_chunk 0 pid 0 (length d) (d @ post) = Some (Inl (int (length d)))"
proof -
  let ?rest = "enc_dump 0 pid rs @ fin @ post"
  have d: "d @ post = enc_route 0 pid r @ ?rest" "length (enc_route 0 pid r) \<le> length d" by (simp_all add: assms(3) enc_dump_def)
  have "NLMSG_OK 0 (int (length d)) (d @ post) = Some True"
    using assms(1,4) d route_fields(1) [of r 0 pid "[]" ?rest]
    by (simp add: NLMSG_OK_True length_enc_route nat_mod_distrib)
  with first_route_fields [OF assms(2), of r ?rest] show ?thesis
    by (simp add: route_chunk_def d(1) NLMSG_ERROR_def NLMSG_DONE_def NLM_F_MULTI_def)
qed

lemma readRoutes_dump:
  assumes "route_ok r" and "pid < 2 ^ 32" and "length d \<le> length buf" and "length buf < 2 ^ 31"
    and "d = enc_dump 0 pid (r # rs) @ fin"
    and "r_ans h (rx_calls s) recv = int (length d)" and "recv = Ext ''recv'' [AI sock, AI (int (length buf))]"
    and "r_bytes h (rx_calls s @ [recv]) = d"
  shows "readRoutes h sock 0 pid 0 buf s = Some (int (length d), d @ drop (length d) buf, s\<lparr>rx_calls := rx_calls s @ [recv]\<rparr>)"
proof -
  have "recv_at h sock 0 buf s = Some (int (length d), d @ drop (length d) buf, s\<lparr>rx_calls := rx_calls s @ [recv]\<rparr>)"
    using assms(3,4,6,8) unfolding assms(7) by (simp add: recv_at_def rcall_def put_at_def)
  moreover have "route_chunk 0 pid 0 (length d) (d @ drop (length d) buf) = Some (Inl (int (length d)))"
    by (rule route_chunk_first [OF assms(1,2,5)]) (use assms(3,4) in linarith)
  ultimately show ?thesis by (subst readRoutes.simps) simp
qed

text \<open>A route of the main table without destination.\<close>

definition default_route :: "route \<Rightarrow> bool" where
  "default_route r \<longleftrightarrow> rt_family r = RTM_AF_INET \<and> rt_table r = RT_TABLE_MAIN \<and> RTA_DST \<notin> fst ` set (rt_attrs r)"

lemma fold_attr_no_dst: "RTA_DST \<notin> fst ` set as \<Longrightarrow> fst (fold attr_upd as dg) = fst dg"
  by (induction as arbitrary: dg) auto

lemma find_gateway_default:
  assumes "default_route r"
  shows "find_gateway (r # rs) dg =
    (if fst dg = [0, 0, 0, 0] then (0, snd (fold attr_upd (rt_attrs r) dg)) else find_gateway rs (fold attr_upd (rt_attrs r) dg))"
proof -
  have f: "fst (fold attr_upd (rt_attrs r) dg) = fst dg"
    using assms by (intro fold_attr_no_dst) (simp add: default_route_def)
  have "\<not> (rt_family r \<noteq> RTM_AF_INET \<or> rt_table r \<noteq> RT_TABLE_MAIN)" using assms by (simp add: default_route_def)
  then show ?thesis unfolding find_gateway.simps Let_def f by (rule if_not_P)
qed

text \<open>
  C28: the gateway found is the one that the kernel's messages name, but a default route is only seen by luck.
  When the kernel answers with one datagram that fits the buffer, routes of any family, table and
  attributes, with or without the message that ends the dump, \<open>get_gateway\<close> reads nothing outside of
  the buffer and computes \<open>find_gateway\<close> of the routes.  A default route carries no destination: as
  the first route of the dump it counts as one exactly when the stale content of \<open>dest\<close>, which is
  never initialised, happens to be zero.
\<close>

theorem get_gateway_dump:
  assumes "answers_dump h (rx_calls s) pid (r # rs) fin" and "dump_end 0 pid fin"
    and "list_all route_ok (r # rs)" and "pid < 2 ^ 32"
    and "length (enc_dump 0 pid (r # rs) @ fin) \<le> GWBUF" and "GWBUF \<le> length (r_stack h 0)"
  shows "\<exists>ret gw' s'. get_gateway h gw s = Some (ret, gw', s') \<and>
    (ret, gw') = find_gateway (r # rs) (take 4 (r_stack h 1), gw) \<and>
    (default_route r \<longrightarrow> (ret, gw') =
       (let dg = fold attr_upd (rt_attrs r) (take 4 (r_stack h 1), gw)
        in if take 4 (r_stack h 1) = [0, 0, 0, 0] then (0, snd dg) else find_gateway rs dg))"
proof -
  define d where "d = enc_dump 0 pid (r # rs) @ fin"
  let ?sock = "r_ans h (rx_calls s) nl_socket"
  let ?send = "Ext ''send'' [AI ?sock, AI (int RTHDR)]" let ?recv = "Ext ''recv'' [AI ?sock, AI (int GWBUF)]"
  let ?hdr = "enc_le 4 RTHDR @ enc_le 2 RTM_GETROUTE @ enc_le 2 NLM_F_DUMP_REQUEST @ enc_le 4 0 @ enc_le 4 pid"
  let ?s = "s\<lparr>rx_calls := rx_calls s @ [nl_socket, Ext ''getpid'' [], ?send]\<rparr>"
  note ans = assms(1) [unfolded answers_dump_def Let_def, folded d_def]
  have dl: "length d \<le> GWBUF" using assms(5) by (simp add: d_def)
  define st where "st = take GWBUF (r_stack h 0)"
  have st: "length st = GWBUF" "0 + length ?hdr \<le> length st" using assms(6) by (simp_all add: st_def GWBUF_def)
  obtain buf where buf: "put_at 0 ?hdr st = Some buf" using put_at_fits [OF st(2)] by blast
  have len: "length buf = GWBUF" using put_at_length [OF buf] st(1) by simp
  have rd: "readRoutes h ?sock 0 pid 0 buf ?s = Some (int (length d), d @ drop (length d) buf, ?s\<lparr>rx_calls := rx_calls ?s @ [?recv]\<rparr>)"
    using ans assms(3,4) len dl by (intro readRoutes_dump [OF _ _ _ _ d_def]) (simp_all, simp add: GWBUF_def)
  have "gateway_loop 0 (int (length d)) (d @ drop (length d) buf) dg = Some (find_gateway (r # rs) dg)" for dg
    using gateway_loop_enc [OF assms(3) _ assms(2), of "[]" "drop (length d) buf" dg] dl by (simp add: GWBUF_def d_def)
  then have "\<exists>s'. get_gateway h gw s = Some (fst (find_gateway (r # rs) (take 4 (r_stack h 1), gw)),
      snd (find_gateway (r # rs) (take 4 (r_stack h 1), gw)), s')"
    using ans buf rd by (simp add: get_gateway_def rcall_def nl_socket_def [symmetric] st_def [symmetric] split_beta)
  then show ?thesis using find_gateway_default [of r rs "(take 4 (r_stack h 1), gw)"] by (auto simp: Let_def)
qed

text \<open>A host with one route, the default route by 10.0.0.1 through interface 2, and a stale \<open>dest\<close>.\<close>

definition gw_route :: route where
  "gw_route = \<lparr>rt_family = RTM_AF_INET, rt_dst_len = 0, rt_src_len = 0, rt_tos = 0, rt_table = RT_TABLE_MAIN, rt_protocol = 3,
     rt_scope = 0, rt_type = 1, rt_flags = 0,
     rt_attrs = [(15, [254, 0, 0, 0]), (RTA_GATEWAY, [10, 0, 0, 1]), (4, [2, 0, 0, 0])]\<rparr>"

definition gw_host :: "bytes \<Rightarrow> rhost" where
  "gw_host dest =
     \<lparr>r_ans = (\<lambda>cs c. if ext_name c = ''recv'' then 72 else 7), r_bytes = (\<lambda>_. enc_dump 0 7 [gw_route] @ enc_done 0 7),
      r_mode = (\<lambda>_. 0), r_tmpdir = '''', r_stack = (\<lambda>k. if k = 0 then replicate 8192 0 else dest),
      r_ptr = (\<lambda>_. 0)\<rparr>"

theorem get_gateway_dump_witness:
  "(\<exists>s'. get_gateway (gw_host [0, 0, 0, 0]) [] (rx0 []) = Some (0, [10, 0, 0, 1], s')) \<and>
   (\<exists>s'. get_gateway (gw_host [1, 0, 0, 0]) [] (rx0 []) = Some (- 1, [10, 0, 0, 1], s'))"
proof -
  have ok: "list_all route_ok [gw_route]" "length (enc_dump 0 7 [gw_route] @ enc_done 0 7) = 72"
    by (simp_all add: route_ok_def attr_ok_def gw_route_def enc_dump_def length_enc_route enc_body_def NLHDR_def length_enc_attr
        align4_def RTM_AF_INET_def RT_TABLE_MAIN_def RTA_GATEWAY_def RTA_DST_def length_enc_done)
  have st: "r_stack (gw_host d) 1 = d" "GWBUF \<le> length (r_stack (gw_host d) 0)" for d by (simp_all add: gw_host_def GWBUF_def)
  have ans: "answers_dump (gw_host d) (rx_calls (rx0 [])) 7 [gw_route] (enc_done 0 7)" for d
    using ok(2) by (simp add: answers_dump_def gw_host_def nl_socket_def Let_def)
  have fin: "dump_end 0 7 (enc_done 0 7)" by (simp add: dump_end_def)
  have upd: "fold attr_upd (rt_attrs gw_route) (d, []) = (d, [10, 0, 0, 1])" for d
    by (simp add: gw_route_def RTA_GATEWAY_def RTA_DST_def)
  have def: "default_route gw_route" by (simp add: default_route_def gw_route_def RTA_GATEWAY_def RTA_DST_def)
  have len: "length (enc_dump 0 7 [gw_route] @ enc_done 0 7) \<le> GWBUF" unfolding ok(2) by (simp add: GWBUF_def)
  have *: "\<exists>ret gw' s'. get_gateway (gw_host d) [] (rx0 []) = Some (ret, gw', s') \<and>
      (ret, gw') = (if take 4 d = [0, 0, 0, 0] then (0, [10, 0, 0, 1]) else (- 1, [10, 0, 0, 1]))" for d
  proof -
    obtain ret gw' s' where g: "get_gateway (gw_host d) [] (rx0 []) = Some (ret, gw', s')"
      "(ret, gw') = (let dg = fold attr_upd (rt_attrs gw_route) (take 4 d, [])
         in if take 4 d = [0, 0, 0, 0] then (0, snd dg) else find_gateway [] dg)"
      using get_gateway_dump [where h = "gw_host d" and gw = "[]", OF ans fin ok(1) _ len st(2)] def unfolding st(1) by fastforce
    from g(2) have "(ret, gw') = (if take 4 d = [0, 0, 0, 0] then (0, [10, 0, 0, 1]) else (- 1, [10, 0, 0, 1]))"
      unfolding upd Let_def by simp
    with g(1) show ?thesis by blast
  qed
  show ?thesis using * [of "[0, 0, 0, 0]"] * [of "[1, 0, 0, 0]"] by auto
qed

end
