(* ===== verification/Rexec_Linux.thy ===== *)
theory Rexec_Linux
  imports Netlink
begin

text \<open>
  The Linux layer of rexec, tools/linux.c, for x86_64: the system call filter built with libseccomp,
  network descriptors and the start of the program.  \<open>seccomp\<close> and \<open>execveat\<close> are the build options
  \<open>SECCOMP\<close> and \<open>EXECVEAT\<close>.  libseccomp is a parameter: each call is answered by the host, and
  \<open>rx_ctx\<close> has the rules that it accepted, in order.
\<close>

section \<open>Rules\<close>

definition datum :: "int \<Rightarrow> 64 word" where
  "datum x = word_of_int x"

definition ARCH_SET_FS :: int where "ARCH_SET_FS = 0x1002"
definition SIGABRT :: int where "SIGABRT = 6"
definition PROT_EXEC :: int where "PROT_EXEC = 4"
definition F_GETFL :: int where "F_GETFL = 3"
definition BLKGETSIZE64 :: int where "BLKGETSIZE64 = 0x80081272"
definition TUNGETIFF :: int where "TUNGETIFF = 0x800454d2"
definition TUNSETIFF :: int where "TUNSETIFF = 0x400454ca"
definition SIOCGIFHWADDR :: int where "SIOCGIFHWADDR = 0x8927"
definition SIOCGIFNAME :: int where "SIOCGIFNAME = 0x8910"
definition AT_EMPTY_PATH :: int where "AT_EMPTY_PATH = 0x1000"
definition LINUX_ENOSYS :: int where "LINUX_ENOSYS = 38"

fun rule_name :: "rule \<Rightarrow> string" where
  "rule_name (Allow f cs) = f"

definition seccomp_rule_add :: "rhost \<Rightarrow> rule \<Rightarrow> rx \<Rightarrow> int \<times> rx" where
  "seccomp_rule_add h r s =
     (let (ret, s) = rcall h (Ext ''seccomp_rule_add'' [AS (rule_name r)]) s
      in (ret, if ret < 0 then s else s\<lparr>rx_ctx := rx_ctx s @ [r]\<rparr>))"

text \<open>A sequence of additions, each followed by \<open>if (ret < 0) return ret\<close>.\<close>

fun add_rules :: "rhost \<Rightarrow> rule list \<Rightarrow> rx \<Rightarrow> int \<times> rx" where
  "add_rules h [] s = (0, s)"
| "add_rules h (r # rs) s =
     (let (ret, s) = seccomp_rule_add h r s in if ret < 0 then (ret, s) else add_rules h rs s)"

definition init_rules :: "bool \<Rightarrow> rule list" where
  "init_rules nx =
     [Allow ''arch_prctl'' [CMP_EQ 0 (datum ARCH_SET_FS)],
      Allow ''exit'' [], Allow ''exit_group'' [], Allow ''clock_gettime'' [], Allow ''clock_getres'' [],
      Allow ''clock_nanosleep'' [], Allow ''getrandom'' [],
      Allow ''kill'' [CMP_EQ 0 0, CMP_EQ 1 (datum SIGABRT)],
      (if nx then Allow ''mmap'' [CMP_MASKED_EQ 2 (datum PROT_EXEC) 0, CMP_EQ 4 (datum (- 1))]
       else Allow ''mmap'' [CMP_EQ 4 (datum (- 1))]),
      (if nx then Allow ''mprotect'' [CMP_MASKED_EQ 2 (datum PROT_EXEC) 0] else Allow ''mprotect'' []),
      Allow ''munmap'' [], Allow ''fstat'' [], Allow ''ppoll'' []]"

definition linux_init :: "bool \<Rightarrow> bool \<Rightarrow> rhost \<Rightarrow> string \<Rightarrow> bool \<Rightarrow> rx \<Rightarrow> int run" where
  "linux_init seccomp execveat h program nx s =
     (if \<not> seccomp then if nx then Exit 1 s else Done 0 s
      else
        let (ctx, s) = rcall h (Ext ''seccomp_init'' [AS ''SCMP_ACT_KILL'']) s
        in if ctx = 0 then Done (- 1) s
           else bnd (if execveat then must h (Ext ''open'' [AS program, AS ''O_RDONLY|O_CLOEXEC'']) s else Done (rx_pfd s) s) (\<lambda>fd s.
                let (ret, s) = add_rules h (init_rules nx) (s\<lparr>rx_pfd := fd, rx_ctx := []\<rparr>)
                in Done ret s))"

text \<open>Rules for calls on the descriptor \<open>fd\<close>.\<close>

definition fd_rule :: "string \<Rightarrow> int \<Rightarrow> rule" where
  "fd_rule f fd = Allow f [CMP_EQ 0 (datum fd)]"

definition fd_ctl :: "string \<Rightarrow> int \<Rightarrow> int \<Rightarrow> rule" where
  "fd_ctl f fd cmd = Allow f [CMP_EQ 0 (datum fd), CMP_EQ 1 (datum cmd)]"

definition can_read :: "32 word \<Rightarrow> bool" where
  "can_read fl \<longleftrightarrow> fl AND O_ACCMODE = O_RDONLY \<or> fl AND O_ACCMODE = O_RDWR"

definition can_write :: "32 word \<Rightarrow> bool" where
  "can_write fl \<longleftrightarrow> fl AND O_ACCMODE = O_WRONLY \<or> fl AND O_ACCMODE = O_RDWR"

text \<open>The four additions of a direction; the result of the last one is not looked at.\<close>

definition add_direction :: "rhost \<Rightarrow> string list \<Rightarrow> string \<Rightarrow> int \<Rightarrow> rx \<Rightarrow> int \<times> rx" where
  "add_direction h checked unchecked fd s =
     (let (ret, s) = add_rules h (map (\<lambda>f. fd_rule f fd) checked) s
      in if ret < 0 then (ret, s) else (0, snd (seccomp_rule_add h (fd_rule unchecked fd) s)))"

definition stat_rules :: "int \<Rightarrow> 32 word \<Rightarrow> rule list" where
  "stat_rules fd mode =
     [fd_rule ''fsync'' fd, fd_ctl ''fcntl'' fd F_GETFL] @
     (if mode AND S_IFMT = S_IFBLK then [fd_ctl ''ioctl'' fd BLKGETSIZE64] else []) @
     (if mode AND S_IFMT = S_IFCHR
      then [fd_ctl ''ioctl'' fd TUNGETIFF, fd_ctl ''ioctl'' fd TUNSETIFF, fd_ctl ''ioctl'' fd SIOCGIFHWADDR] else []) @
     (if mode AND S_IFMT = S_IFSOCK
      then [fd_ctl ''ioctl'' fd SIOCGIFHWADDR, fd_ctl ''ioctl'' fd SIOCGIFNAME, fd_rule ''getsockname'' fd] else [])"

definition linux_filter_fd :: "bool \<Rightarrow> rhost \<Rightarrow> int \<Rightarrow> 32 word \<Rightarrow> 32 word \<Rightarrow> rx \<Rightarrow> int run" where
  "linux_filter_fd seccomp h fd fl mode s =
     (if \<not> seccomp then Done 0 s
      else
        let (ret, s) = (if can_read fl then add_direction h [''read'', ''pread64'', ''readv''] ''preadv'' fd s else (0, s))
        in if ret < 0 then Done ret s else
        let (ret, s) = (if can_write fl then add_direction h [''write'', ''pwrite64'', ''writev''] ''pwritev'' fd s else (0, s))
        in if ret < 0 then Done ret s else
        let (ret, s) = add_rules h (stat_rules fd mode) s
        in Done ret s)"

text \<open>\<open>filter_load_exec\<close>: \<open>execveat\<close> restricted to the call that follows, or any \<open>execve\<close>.\<close>

definition exec_rule :: "bool \<Rightarrow> rhost \<Rightarrow> int \<Rightarrow> rule" where
  "exec_rule execveat h pfd =
     (if execveat then
        Allow ''execveat'' [CMP_EQ 0 (datum pfd), CMP_EQ 1 (r_ptr h ''emptystring''), CMP_EQ 2 (r_ptr h ''argv''),
          CMP_EQ 3 (r_ptr h ''envp''), CMP_EQ 4 (datum AT_EMPTY_PATH)]
      else Allow ''execve'' [])"

definition do_exec :: "rhost \<Rightarrow> ext \<Rightarrow> arg \<Rightarrow> string list \<Rightarrow> string list \<Rightarrow> rx \<Rightarrow> int run" where
  "do_exec h c p argv envp s =
     (let (r, s) = rcall h c s in if r = - 1 then Exit 1 s else Exec p argv envp s)"

definition linux_load_exec :: "bool \<Rightarrow> bool \<Rightarrow> rhost \<Rightarrow> string \<Rightarrow> string list \<Rightarrow> string list \<Rightarrow> rx \<Rightarrow> int run" where
  "linux_load_exec seccomp execveat h program argv envp s =
     (if \<not> seccomp then do_exec h (Ext ''execve'' [AS program]) (AS program) argv envp s
      else
        let (ret, s) = seccomp_rule_add h (exec_rule execveat h (rx_pfd s)) s
        in if ret < 0 then Done ret s else
        let (ret, s) = rcall h (Ext ''seccomp_load'' []) s
        in if ret < 0 then Done ret s else
        let s = rdo h (Ext ''seccomp_release'' []) s
        in if execveat then do_exec h (Ext ''execveat'' [AI (rx_pfd s), AS '''', AI AT_EMPTY_PATH]) (AI (rx_pfd s)) argv envp s
           else do_exec h (Ext ''execve'' [AS program]) (AS program) argv envp s)"

definition linux_emptydir :: "bool \<Rightarrow> bool \<Rightarrow> rhost \<Rightarrow> rx \<Rightarrow> int run" where
  "linux_emptydir seccomp execveat h s = (if seccomp \<and> execveat then emptydir h True s else Done 0 s)"

definition linux_dropcaps :: "rhost \<Rightarrow> rx \<Rightarrow> unit run" where
  "linux_dropcaps h s = bnd (must h (Ext ''capset'' [AI 0, AI 0]) s) (\<lambda>_ s. Done () s)"

definition linux_extrafiles :: "rhost \<Rightarrow> rx \<Rightarrow> int run" where
  "linux_extrafiles h s =
     (let (r, s) = rcall h (Ext ''getrandom'' [AI 1, AI 0]) s;
          (e, s) = (if r = - 1 then rcall h (Ext ''errno'' []) s else (0, s))
      in bnd (if r = - 1 \<and> e = LINUX_ENOSYS then must h (Ext ''open'' [AS ''/dev/urandom'', AS ''O_RDONLY'']) s else Done 0 s) (\<lambda>_ s.
         let (ret, s) = rcall h (Ext ''socketpair'' [AS ''AF_UNIX'', AS ''SOCK_STREAM'', AI 0]) s
         in Done ret (rdo h (Ext ''close'' [AS ''sock[1]'']) s)))"

section \<open>Network descriptors\<close>

definition IFNAMSIZ :: nat where "IFNAMSIZ = 16"

definition packet_open :: "rhost \<Rightarrow> string \<Rightarrow> rx \<Rightarrow> int \<times> rx" where
  "packet_open h post s =
     (let (sock, s) = rcall h (Ext ''socket'' [AS ''AF_PACKET'', AS ''SOCK_RAW'', AS ''ETH_P_ALL'']) s
      in if sock = - 1 then (- 1, s) else
      let (r, s) = rcall h (Ext ''ioctl'' [AI sock, AS ''SIOCGIFINDEX'', AS (take IFNAMSIZ post)]) s
      in if r = - 1 then (- 1, s) else
      let (r, s) = rcall h (Ext ''bind'' [AI sock, AS ''AF_PACKET'', AS ''ETH_P_ALL'']) s
      in if r = - 1 then (- 1, s) else
      let (flags, s) = rcall h (Ext ''fcntl'' [AI sock, AS ''F_GETFL'', AI 0]) s
      in if flags = - 1 then (- 1, s) else
      let (r, s) = rcall h (Ext ''fcntl'' [AI sock, AS ''F_SETFL'', AI flags, AS ''O_NONBLOCK'']) s
      in if r = - 1 then (- 1, s)
         else (sock, rdo h (Ext ''setsockopt'' [AI sock, AS ''PACKET_QDISC_BYPASS'', AI 1]) s))"

definition tap_open :: "rhost \<Rightarrow> string \<Rightarrow> rx \<Rightarrow> int \<times> rx" where
  "tap_open h post s =
     (let offload = (env_get ''LKL_OFFLOAD'' s \<noteq> None);
          fl = ''IFF_TAP|IFF_NO_PI'' @ (if offload then ''|IFF_VNET_HDR'' else []);
          (fd, s) = rcall h (Ext ''open'' [AS ''/dev/net/tun'', AS ''O_RDWR|O_NONBLOCK'']) s
      in if fd = - 1 then (- 1, s) else
      let (r, s) = rcall h (Ext ''ioctl'' [AI fd, AS ''TUNSETIFF'', AS (take IFNAMSIZ post), AS fl]) s
      in if r = - 1 then (- 1, s) else
      let (r, s) = (if offload then rcall h (Ext ''ioctl'' [AI fd, AS ''TUNSETVNETHDRSZ'', AI 12]) s else (0, s))
      in if r \<noteq> 0 then (- 1, s) else
      let (r, s) = rcall h (Ext ''ioctl'' [AI fd, AS ''TUNSETOFFLOAD'', AS (if offload then ''TUN_F_CSUM|TUN_F_TSO4'' else ''0'')]) s
      in if r \<noteq> 0 then (- 1, s) else (fd, s))"

text \<open>An address in network byte order, its value, and the text that \<open>inet_ntop\<close> writes.\<close>

definition be32 :: "bytes \<Rightarrow> 32 word" where
  "be32 a = word_of_nat (dec_le (rev (take 4 a)))"

definition inet_ntop :: "bytes \<Rightarrow> string" where
  "inet_ntop a = dec_nat (unat (a ! 0)) @ ''.'' @ dec_nat (unat (a ! 1)) @ ''.'' @ dec_nat (unat (a ! 2)) @ ''.'' @ dec_nat (unat (a ! 3))"

lemma shift_decr: "m \<noteq> 0 \<Longrightarrow> unat (drop_bit 1 m) < unat m" for m :: "32 word"
proof -
  assume "m \<noteq> 0"
  then have "0 < unat m" by (simp add: unat_gt_0)
  then show ?thesis by (simp add: drop_bit_eq_div unat_div)
qed

text \<open>The loop that counts the bits of the inverted netmask.\<close>

function mask_loop :: "32 word \<Rightarrow> int \<Rightarrow> int" where
  "mask_loop m n = (if m = 0 then n else mask_loop (drop_bit 1 m) (n - 1))"
  by pat_completeness auto
termination
  by (relation "measure (\<lambda>(m, n). unat m)") (use shift_decr in auto)

declare mask_loop.simps [simp del]

definition prefix_len :: "bytes \<Rightarrow> int" where
  "prefix_len a = mask_loop (NOT (be32 a)) 32"

text \<open>
  The branch \<open>docker:\<close>.  The \<open>memcpy\<close> of the name reads 16 bytes of \<open>post\<close>, those behind its end
  included; the name ends at the terminator.
\<close>

definition docker_open :: "rhost \<Rightarrow> string \<Rightarrow> rx \<Rightarrow> int run" where
  "docker_open h post s =
     (let post = (if post = [] then ''eth0'' else post);
          name = AS (take IFNAMSIZ post);
          (sock, s) = packet_open h post s
      in if sock = - 1 then Done (- 1) s else
      let (r, s) = rcall h (Ext ''ioctl'' [AI sock, AS ''SIOCGIFADDR'', name]) s
      in if r = - 1 then Done (- 1) s else
      let s = setenv ''FIXED_ADDRESS'' (inet_ntop (r_bytes h (rx_calls s))) True s;
          (r, s) = rcall h (Ext ''ioctl'' [AI sock, AS ''SIOCGIFNETMASK'', name]) s
      in if r = - 1 then Done (- 1) s else
      let s = setenv ''FIXED_MASK'' (dec_int (prefix_len (r_bytes h (rx_calls s)))) True s
      in case get_gateway h (take 4 (r_stack h 2)) s of
           None \<Rightarrow> Fault
         | Some (r, gw, s) \<Rightarrow>
             if r = - 1 then Done (- 1) s else
             let s = setenv ''FIXED_GATEWAY'' (inet_ntop gw) True s;
                 (r, s) = rcall h (Ext ''ioctl'' [AI sock, AS ''SIOCSIFADDR'', name, AI 0]) s
             in if r = - 1 then Done (- 1) s else Done sock s)"

definition linux_open :: "rhost \<Rightarrow> string \<Rightarrow> string \<Rightarrow> rx \<Rightarrow> int run" where
  "linux_open h pre post s =
     (if pre = ''tun'' \<or> pre = ''tap'' then let (fd, s) = tap_open h post s in Done fd s
      else if pre = ''packet'' then let (fd, s) = packet_open h post s in Done fd s
      else if pre = ''docker'' then docker_open h post s
      else Exit 1 s)"

definition linux_ops :: "bool \<Rightarrow> bool \<Rightarrow> rhost \<Rightarrow> os_ops" where
  "linux_ops seccomp execveat h =
     \<lparr>os_init = linux_init seccomp execveat h, os_emptydir = linux_emptydir seccomp execveat h, os_dropcaps = linux_dropcaps h,
      os_extrafiles = linux_extrafiles h, os_pre = Done 0, filter_fd = linux_filter_fd seccomp h,
      filter_load_exec = linux_load_exec seccomp execveat h, os_open = linux_open h\<rparr>"

end
