(* ===== verification/Rexec_Bsd.thy ===== *)
theory Rexec_Bsd
  imports Rexec_Linux
begin

text \<open>
  The layers of rexec for FreeBSD, NetBSD and macOS: tools/freebsd.c with and without Capsicum
  (\<open>capsicum\<close>), tools/netbsd.c and tools/darwin.c.  The rights given to a descriptor appear by name
  in the call of \<open>cap_rights_limit\<close>.  \<open>abort\<close> is exit status 134.
\<close>

section \<open>FreeBSD\<close>

definition freebsd_init :: "rhost \<Rightarrow> string \<Rightarrow> bool \<Rightarrow> rx \<Rightarrow> int run" where
  "freebsd_init h program nx s =
     (if nx then Exit 1 s
      else bnd (must h (Ext ''open'' [AS program, AS ''O_EXEC|O_CLOEXEC'']) s) (\<lambda>fd s. Done 0 (s\<lparr>rx_pfd := fd\<rparr>)))"

definition freebsd_pre :: "bool \<Rightarrow> rhost \<Rightarrow> rx \<Rightarrow> int run" where
  "freebsd_pre capsicum h s =
     (if capsicum then bnd (must h (Ext ''cap_enter'' []) s) (\<lambda>_ s. Done 0 s) else Done 0 s)"

text \<open>The rights for an access mode, \<open>None\<close> for the default branch.\<close>

definition cap_rights :: "32 word \<Rightarrow> 32 word \<Rightarrow> string list option" where
  "cap_rights fl mode =
     (let base = [''CAP_SEEK'', ''CAP_FSYNC'', ''CAP_FCNTL'', ''CAP_FSTAT''];
          blk = (mode AND S_IFMT = S_IFBLK); chr = (mode AND S_IFMT = S_IFCHR)
      in if fl AND O_ACCMODE = O_RDONLY then
           Some (if blk \<or> chr then [''CAP_READ''] @ base @ [''CAP_IOCTL''] else [''CAP_READ''] @ base)
         else if fl AND O_ACCMODE = O_WRONLY then
           Some (if blk \<or> chr then [''CAP_WRITE''] @ base @ [''CAP_IOCTL''] else [''CAP_WRITE''] @ base)
         else if fl AND O_ACCMODE = O_RDWR then
           Some (if blk \<or> chr then [''CAP_READ'', ''CAP_WRITE''] @ base @ [''CAP_IOCTL'']
                 else if chr then [''CAP_READ'', ''CAP_WRITE''] @ base @ [''CAP_IOCTL'', ''CAP_EVENT'']
                 else [''CAP_READ'', ''CAP_WRITE''] @ base)
         else None)"

definition cap_rights_limit :: "rhost \<Rightarrow> int \<Rightarrow> string list \<Rightarrow> rx \<Rightarrow> int \<times> rx" where
  "cap_rights_limit h fd rights s = rcall h (Ext ''cap_rights_limit'' (AI fd # map AS rights)) s"

definition freebsd_filter_fd :: "bool \<Rightarrow> rhost \<Rightarrow> int \<Rightarrow> 32 word \<Rightarrow> 32 word \<Rightarrow> rx \<Rightarrow> int run" where
  "freebsd_filter_fd capsicum h fd fl mode s =
     (if \<not> capsicum then Done 0 s
      else if fd = rx_pfd s then
        let (ret, s) = cap_rights_limit h fd [''CAP_READ'', ''CAP_FEXECVE''] s
        in if ret = - 1 then Done ret s else Done 0 s
      else
        case cap_rights fl mode of
          None \<Rightarrow> Exit 134 s
        | Some rights \<Rightarrow>
            let (ret, s) = cap_rights_limit h fd rights s
            in if ret = - 1 then Done ret s else
            let (ret, s) =
                  (if mode AND S_IFMT = S_IFBLK then rcall h (Ext ''cap_ioctls_limit'' [AI fd, AS ''DIOCGMEDIASIZE'']) s
                   else if mode AND S_IFMT = S_IFCHR then rcall h (Ext ''cap_ioctls_limit'' [AI fd, AS ''SIOCGIFADDR'']) s
                   else (0, s))
            in if ret = - 1 then Done ret s else
            let (ret, s) = rcall h (Ext ''cap_fcntls_limit'' [AI fd, AS ''CAP_FCNTL_GETFL'']) s
            in if ret = - 1 then Done ret s else Done 0 s)"

definition freebsd_load_exec :: "rhost \<Rightarrow> string \<Rightarrow> string list \<Rightarrow> string list \<Rightarrow> rx \<Rightarrow> int run" where
  "freebsd_load_exec h program argv envp s = do_exec h (Ext ''fexecve'' [AI (rx_pfd s)]) (AI (rx_pfd s)) argv envp s"

text \<open>The name of a tap device is printed to a buffer of 32 bytes.\<close>

definition tap_path :: "string \<Rightarrow> string option" where
  "tap_path post = (if length (''/dev/'' @ post) < 32 then Some (''/dev/'' @ post) else None)"

definition freebsd_open :: "rhost \<Rightarrow> string \<Rightarrow> string \<Rightarrow> rx \<Rightarrow> int run" where
  "freebsd_open h pre post s =
     (if pre = ''tap'' then
        (case tap_path post of
           None \<Rightarrow> Fault
         | Some path \<Rightarrow> let (fd, s) = rcall h (Ext ''open'' [AS path, AS ''O_RDWR|O_NONBLOCK'']) s in Done fd s)
      else Exit 1 s)"

definition freebsd_ops :: "bool \<Rightarrow> rhost \<Rightarrow> os_ops" where
  "freebsd_ops capsicum h =
     \<lparr>os_init = freebsd_init h, os_emptydir = emptydir h True, os_dropcaps = Done (), os_extrafiles = Done 0,
      os_pre = freebsd_pre capsicum h, filter_fd = freebsd_filter_fd capsicum h, filter_load_exec = freebsd_load_exec h,
      os_open = freebsd_open h\<rparr>"

section \<open>NetBSD and macOS\<close>

definition plain_load_exec :: "rhost \<Rightarrow> string \<Rightarrow> string list \<Rightarrow> string list \<Rightarrow> rx \<Rightarrow> int run" where
  "plain_load_exec h program argv envp s = do_exec h (Ext ''execve'' [AS program]) (AS program) argv envp s"

definition netbsd_init :: "string \<Rightarrow> bool \<Rightarrow> rx \<Rightarrow> int run" where
  "netbsd_init program nx s = (if nx then Exit 1 s else Done 0 s)"

definition netbsd_ops :: "rhost \<Rightarrow> os_ops" where
  "netbsd_ops h =
     \<lparr>os_init = netbsd_init, os_emptydir = Done 0, os_dropcaps = Done (), os_extrafiles = Done 0, os_pre = Done 0,
      filter_fd = (\<lambda>fd fl mode. Done 0), filter_load_exec = plain_load_exec h, os_open = (\<lambda>pre post. Exit 1)\<rparr>"

definition darwin_open :: "rhost \<Rightarrow> string \<Rightarrow> string \<Rightarrow> rx \<Rightarrow> int run" where
  "darwin_open h pre post s =
     (if pre = ''tap'' then
        (case tap_path post of
           None \<Rightarrow> Fault
         | Some path \<Rightarrow>
             let (fd, s) = rcall h (Ext ''open'' [AS path, AS ''O_RDWR|O_NONBLOCK'']) s
             in if fd = - 1 then Done (- 1) s else
             let (r, s) = rcall h (Ext ''ioctl'' [AI fd, AS ''FIONBIO'', AI 1]) s
             in if r \<noteq> 0 then Done (- 1) s else
             let (ifd, s) = rcall h (Ext ''socket'' [AS ''AF_INET'', AS ''SOCK_DGRAM'', AI 0]) s
             in if ifd < 0 then Done (- 1) s else
             let name = AS (take (IFNAMSIZ - 1) post);
                 (r, s) = rcall h (Ext ''ioctl'' [AI ifd, AS ''SIOCGIFFLAGS'', name]) s
             in if r < 0 then Done (- 1) s else
             let (r, s) = rcall h (Ext ''ioctl'' [AI ifd, AS ''SIOCSIFFLAGS'', name, AS ''IFF_UP|IFF_RUNNING'']) s
             in if r < 0 then Done (- 1) s
                else Done fd (rdo h (Ext ''close'' [AI ifd]) s))
      else Exit 1 s)"

definition darwin_ops :: "rhost \<Rightarrow> os_ops" where
  "darwin_ops h =
     \<lparr>os_init = (\<lambda>program nx. Done 0), os_emptydir = Done 0, os_dropcaps = Done (), os_extrafiles = Done 0, os_pre = Done 0,
      filter_fd = (\<lambda>fd fl mode. Done 0), filter_load_exec = plain_load_exec h, os_open = darwin_open h\<rparr>"

end
