(* ===== verification/Rexec_Layer.thy ===== *)
theory Rexec_Layer
  imports Rexec_Bsd "HOL-Library.Sublist"
begin

text \<open>
  What every layer of rexec promises to \<open>main\<close>, and what \<open>main\<close> then guarantees.  \<open>post\<close> states
  what holds when a run returns and when it executes the program; \<open>frame\<close> is the part of the state
  that most steps leave alone, with the list of calls only growing.  The locale \<open>os_layer\<close> has the
  laws of the layer and the lemmas on \<open>main\<close>; it is interpreted on the four layers.
\<close>

named_theorems rx_frame \<open>steps that keep the frame\<close>

section \<open>Outcomes\<close>

primrec post :: "('a \<Rightarrow> rx \<Rightarrow> bool) \<Rightarrow> (arg \<Rightarrow> string list \<Rightarrow> string list \<Rightarrow> rx \<Rightarrow> bool) \<Rightarrow> 'a run \<Rightarrow> bool" where
  "post Q E (Done x s) = Q x s"
| "post Q E (Exit c s) = True"
| "post Q E (Exec p a e s) = E p a e s"
| "post Q E Fault = True"

lemma post_bnd: "post Q E (bnd m f) \<longleftrightarrow> post (\<lambda>x s. post Q E (f x s)) E m"
  by (cases m) simp_all

lemma post_mono:
  assumes "post Q' E' m" and "\<And>x s. Q' x s \<Longrightarrow> Q x s" and "\<And>p a e s. E' p a e s \<Longrightarrow> E p a e s"
  shows "post Q E m"
  using assms by (cases m) auto

lemma bnd_eq_Exec:
  "bnd m f = Exec p a e s \<longleftrightarrow> m = Exec p a e s \<or> (\<exists>x s'. m = Done x s' \<and> f x s' = Exec p a e s)"
  by (cases m) auto

lemma bnd_eq_Done: "bnd m f = Done x s \<longleftrightarrow> (\<exists>y s'. m = Done y s' \<and> f y s' = Done x s)"
  by (cases m) auto

section \<open>Frames\<close>

definition grows :: "rx \<Rightarrow> rx \<Rightarrow> bool" where
  "grows s s' \<longleftrightarrow> prefix (rx_calls s) (rx_calls s')"

definition frame :: "rx \<Rightarrow> rx \<Rightarrow> bool" where
  "frame s s' \<longleftrightarrow> grows s s' \<and> rx_ctx s' = rx_ctx s \<and> fdinfo_list s' = fdinfo_list s \<and> spec_9pfs s' = spec_9pfs s"

text \<open>A run that returns in the frame of \<open>s\<close>, if at all.\<close>

definition quiet :: "rx \<Rightarrow> 'a run \<Rightarrow> bool" where
  "quiet s m \<longleftrightarrow> post (\<lambda>_ s'. frame s s') (\<lambda>_ _ _ _. False) m"

lemma grows_refl [simp]: "grows s s"
  by (simp add: grows_def)

lemma grows_trans: "grows s s' \<Longrightarrow> grows s' s'' \<Longrightarrow> grows s s''"
  unfolding grows_def by (rule prefix_order.trans)

lemma frame_refl [simp]: "frame s s"
  by (simp add: frame_def)

lemma frame_trans: "frame s s' \<Longrightarrow> frame s' s'' \<Longrightarrow> frame s s''"
  by (auto simp: frame_def intro: grows_trans)

lemma frame_rdo [simp]: "frame s' (rdo h c s) \<longleftrightarrow> frame s' (snd (rcall h c s))"
  by (simp add: rdo_def)

lemma frame_rcall [simp]: "frame s (snd (rcall h c s))"
  by (simp add: frame_def grows_def rcall_def)

lemma frame_setenv [simp]: "frame s (setenv n v ov s)"
  by (simp add: frame_def grows_def setenv_def)

lemma frame_step [simp]: "frame s s' \<Longrightarrow> frame s (snd (rcall h c s'))"
  by (rule frame_trans [OF _ frame_rcall])

lemma frame_step_env [simp]: "frame s s' \<Longrightarrow> frame s (setenv n v ov s')"
  by (rule frame_trans [OF _ frame_setenv])

lemma quiet_Done [simp]: "quiet s (Done x s') \<longleftrightarrow> frame s s'"
  by (simp add: quiet_def)

lemma quiet_stop [simp]: "quiet s (Exit c s')" "quiet s Fault" "\<not> quiet s (Exec p a e s')"
  by (simp_all add: quiet_def)

lemma quiet_bnd:
  assumes "quiet s m" and "\<And>x s'. frame s s' \<Longrightarrow> m = Done x s' \<Longrightarrow> quiet s (f x s')"
  shows "quiet s (bnd m f)"
  using assms by (cases m) auto

lemma quiet_trans: "frame s s' \<Longrightarrow> quiet s' m \<Longrightarrow> quiet s m"
  by (cases m) (auto intro: frame_trans)

lemma quiet_Done_frame: "quiet s m \<Longrightarrow> m = Done x s' \<Longrightarrow> frame s s'"
  by simp

lemma must_quiet [rx_frame]: "quiet s (must h c s)"
  by (simp add: must_def Let_def split_beta)

lemma quiet_must: "frame s s' \<Longrightarrow> quiet s (must h c s')"
  by (rule quiet_trans [OF _ must_quiet])

lemma uuid_quiet [rx_frame]: "quiet s (uuid h s)"
  by (auto simp: uuid_def Let_def intro!: quiet_bnd quiet_must)

lemma noroot_quiet [rx_frame]: "quiet s (noroot h s)"
  by (auto simp: noroot_def intro!: quiet_bnd quiet_must)

lemma set_nonblock_quiet [rx_frame]: "quiet s (set_nonblock h fd s)"
  by (auto simp: set_nonblock_def intro!: quiet_bnd quiet_must)

lemma console_open_quiet [rx_frame]: "quiet s (console_open h name s)"
  by (auto simp: console_open_def Let_def split_beta rdo_def intro!: quiet_bnd quiet_must)

lemma path_search_frame: "path_search h p parts s = (r, s') \<Longrightarrow> frame s s'"
proof (induction parts arbitrary: s)
  case (Cons part parts)
  then show ?case by (auto simp: Let_def split_beta split: if_splits intro: frame_trans [OF frame_rcall])
qed simp

lemma find_program_quiet [rx_frame]: "quiet s (find_program h p s)"
  by (auto simp: find_program_def path_search_frame split: option.splits prod.splits)

lemma check_program_quiet [rx_frame]: "quiet s (check_program h p s)"
  by (auto simp: check_program_def intro!: quiet_bnd quiet_must)

lemma choose_user_frame: "frame s (snd (choose_user h u s))"
  by (simp add: choose_user_def Let_def split_beta split: option.split)

lemma drop_ids_quiet [rx_frame]: "quiet s (drop_ids h u g s)"
  using choose_user_frame [of s h u] by (auto simp: drop_ids_def Let_def split_beta intro!: quiet_bnd quiet_must)

lemma emptydir_quiet [rx_frame]: "quiet s (emptydir h r s)"
  by (simp add: emptydir_def Let_def split_beta)

lemma open_9pfs_quiet [rx_frame]: "quiet s (open_9pfs h s)"
  by (simp add: open_9pfs_def Let_def split_beta rdo_def split: option.split)

lemma check_root_frame: "frame s (check_root h s)"
  by (simp add: check_root_def Let_def split_beta rdo_def)

lemma alloc_tables_quiet [rx_frame]: "quiet s (alloc_tables h n s)"
  by (simp add: alloc_tables_def Let_def split_beta)

lemma collect_fds_quiet [rx_frame]: "quiet s (collect_fds h fds s)"
proof (induction fds arbitrary: s)
  case (Cons fd fds)
  show ?case by (auto simp: Let_def intro!: quiet_bnd quiet_must intro: quiet_trans [OF _ Cons.IH])
qed simp

section \<open>The laws of a layer\<close>

text \<open>A run that returns with a longer list of calls and the same descriptions, if at all.\<close>

definition mframe :: "rx \<Rightarrow> rx \<Rightarrow> bool" where
  "mframe s s' \<longleftrightarrow> grows s s' \<and> fdinfo_list s' = fdinfo_list s \<and> spec_9pfs s' = spec_9pfs s"

definition mild :: "rx \<Rightarrow> 'a run \<Rightarrow> bool" where
  "mild s m \<longleftrightarrow> post (\<lambda>_ s'. mframe s s') (\<lambda>_ _ _ _. False) m"

lemma mframe_refl [simp]: "mframe s s"
  by (simp add: mframe_def)

lemma mframe_trans: "mframe s s' \<Longrightarrow> mframe s' s'' \<Longrightarrow> mframe s s''"
  by (auto simp: mframe_def intro: grows_trans)

lemma frame_mframe: "frame s s' \<Longrightarrow> mframe s s'"
  by (simp add: frame_def mframe_def)

lemma mframe_rcall [simp]: "mframe s s' \<Longrightarrow> mframe s (snd (rcall h c s'))"
  by (rule mframe_trans [OF _ frame_mframe [OF frame_rcall]])

lemma mframe_upd [simp]:
  "mframe s (s'\<lparr>rx_ctx := c\<rparr>) \<longleftrightarrow> mframe s s'" "mframe s (s'\<lparr>rx_pfd := p\<rparr>) \<longleftrightarrow> mframe s s'"
  by (simp_all add: mframe_def grows_def)

lemma mild_simps [simp]:
  "mild s (Done x s') \<longleftrightarrow> mframe s s'" "mild s (Exit c s')" "mild s Fault" "\<not> mild s (Exec p a e s')"
  by (simp_all add: mild_def)

lemma quiet_mild: "quiet s m \<Longrightarrow> mild s m"
  by (cases m) (simp_all add: frame_mframe)

lemma mild_bnd:
  assumes "mild s m" and "\<And>x s'. mframe s s' \<Longrightarrow> m = Done x s' \<Longrightarrow> mild s (f x s')"
  shows "mild s (bnd m f)"
  using assms by (cases m) auto

lemma mild_trans: "mframe s s' \<Longrightarrow> mild s' m \<Longrightarrow> mild s m"
  by (cases m) (auto intro: mframe_trans)

locale os_layer =
  fixes os :: os_ops
  assumes init_mild: "mild s (os_init os p nx s)"
    and filter_mild: "mild s (filter_fd os fd fl mode s)"
    and emptydir_quiet: "quiet s (os_emptydir os s)"
    and dropcaps_quiet: "quiet s (os_dropcaps os s)"
    and extrafiles_quiet: "quiet s (os_extrafiles os s)"
    and pre_quiet: "quiet s (os_pre os s)"
    and open_quiet: "quiet s (os_open os pre name s)"
    and load_exec: "filter_load_exec os p argv envp s = Exec q a e s' \<Longrightarrow>
      a = argv \<and> e = envp \<and> mframe s s' \<and> rx_env s' = rx_env s"

section \<open>The four layers\<close>

lemma mframe_rule_add [simp]: "mframe s s' \<Longrightarrow> mframe s (snd (seccomp_rule_add h r s'))"
  by (simp add: seccomp_rule_add_def Let_def split_beta)

lemma mframe_add_rules [simp]: "mframe s s' \<Longrightarrow> mframe s (snd (add_rules h rs s'))"
  by (induction rs arbitrary: s') (simp_all add: Let_def split_beta)

lemma mframe_add_direction [simp]: "mframe s s' \<Longrightarrow> mframe s (snd (add_direction h cs c fd s'))"
  by (simp add: add_direction_def Let_def split_beta)

lemma linux_init_mild: "mild s (linux_init sec ev h p nx s)"
  by (auto simp: linux_init_def Let_def split_beta must_def intro!: mild_bnd)

lemma linux_filter_mild: "mild s (linux_filter_fd sec h fd fl mode s)"
  by (simp add: linux_filter_fd_def Let_def split_beta)

lemma recv_at_frame: "recv_at h sock len buf s = Some (n, buf', s') \<Longrightarrow> frame s s'"
  by (auto simp: recv_at_def Let_def split_beta bind_eq_Some_conv split: if_splits)

lemma readRoutes_frame: "frame s0 s \<Longrightarrow> readRoutes h sock sq pid len buf s = Some (n, buf', s') \<Longrightarrow> frame s0 s'"
proof (induction h sock sq pid len buf s rule: readRoutes.induct)
  case (1 h sock sq pid len buf s)
  from 1(3) obtain m b s1 where r: "recv_at h sock len buf s = Some (m, b, s1)"
    by (subst (asm) readRoutes.simps) (auto split: option.splits)
  then have f: "frame s0 s1" using 1(2) recv_at_frame frame_trans by blast
  show ?case
  proof (cases "m = - 1")
    case True
    with 1(3) r f show ?thesis by (subst (asm) readRoutes.simps) simp
  next
    case False
    note eq = 1(3) [unfolded readRoutes.simps [of h sock sq pid len buf s] r, simplified False]
    then show ?thesis
      using f False 1(1) [OF r refl refl False] by (auto split: option.splits sum.splits)
  qed
qed

lemma get_gateway_frame: "get_gateway h gw s = Some (r, gw', s') \<Longrightarrow> frame s s'"
  by (auto simp: get_gateway_def Let_def split_beta bind_eq_Some_conv rdo_def split: if_splits
      intro!: frame_step elim!: readRoutes_frame [rotated])

lemma packet_open_frame [simp]: "frame s (snd (packet_open h name s))"
  by (simp add: packet_open_def Let_def split_beta rdo_def)

lemma tap_open_frame [simp]: "frame s (snd (tap_open h name s))"
  by (simp add: tap_open_def Let_def split_beta)

lemma get_gateway_frame2: "frame s0 s \<Longrightarrow> get_gateway h gw s = Some (r, gw', s') \<Longrightarrow> frame s0 s'"
  by (rule frame_trans [OF _ get_gateway_frame])

lemma docker_open_quiet: "quiet s (docker_open h name s)"
  by (auto simp: docker_open_def Let_def split_beta split: option.split intro!: frame_step frame_step_env
      elim!: get_gateway_frame2 [rotated])

lemma linux_open_quiet: "quiet s (linux_open h pre name s)"
  by (simp add: linux_open_def docker_open_quiet split_beta)

lemma do_exec_eq:
  "do_exec h c p argv envp s = Exec q a e s' \<Longrightarrow> q = p \<and> a = argv \<and> e = envp \<and> s' = snd (rcall h c s)"
  by (auto simp: do_exec_def split: prod.splits if_splits)

lemma linux_load_exec_eq:
  "linux_load_exec sec ev h p argv envp s = Exec q a e s' \<Longrightarrow> a = argv \<and> e = envp \<and> mframe s s' \<and> rx_env s' = rx_env s"
  by (auto simp: linux_load_exec_def seccomp_rule_add_def rdo_def rcall_def mframe_def grows_def Let_def split: if_splits dest!: do_exec_eq)

interpretation linux: os_layer "linux_ops sec ev h" for sec ev h
proof
  show "quiet s (os_emptydir (linux_ops sec ev h) s)" for s
    by (simp add: linux_ops_def linux_emptydir_def rx_frame)
  show "quiet s (os_dropcaps (linux_ops sec ev h) s)" for s
    by (auto simp: linux_ops_def linux_dropcaps_def intro!: quiet_bnd quiet_must)
  show "quiet s (os_extrafiles (linux_ops sec ev h) s)" for s
    by (auto simp: linux_ops_def linux_extrafiles_def Let_def split_beta intro!: quiet_bnd quiet_must)
qed (simp_all add: linux_ops_def linux_init_mild linux_filter_mild linux_open_quiet linux_load_exec_eq)

lemma freebsd_filter_mild: "mild s (freebsd_filter_fd cap h fd fl mode s)"
  by (simp add: freebsd_filter_fd_def cap_rights_limit_def Let_def split_beta split: option.split)

lemma mframe_do_exec: "do_exec h c p argv envp s = Exec q a e s' \<Longrightarrow> a = argv \<and> e = envp \<and> mframe s s' \<and> rx_env s' = rx_env s"
  using frame_mframe [OF frame_rcall] by (auto dest!: do_exec_eq simp: rcall_def)

interpretation freebsd: os_layer "freebsd_ops cap h" for cap h
proof
  show "mild s (os_init (freebsd_ops cap h) p nx s)" for s p nx
    by (auto simp: freebsd_ops_def freebsd_init_def must_def Let_def split_beta intro!: mild_bnd)
  show "quiet s (os_pre (freebsd_ops cap h) s)" for s
    by (auto simp: freebsd_ops_def freebsd_pre_def intro!: quiet_bnd quiet_must)
  show "quiet s (os_open (freebsd_ops cap h) pre name s)" for s pre name
    by (simp add: freebsd_ops_def freebsd_open_def split_beta split: option.split)
  show "a = argv \<and> e = envp \<and> mframe s s' \<and> rx_env s' = rx_env s"
    if "filter_load_exec (freebsd_ops cap h) p argv envp s = Exec q a e s'" for p argv envp s q a e s'
    using that by (auto simp: freebsd_ops_def freebsd_load_exec_def dest!: mframe_do_exec)
qed (simp_all add: freebsd_ops_def freebsd_filter_mild emptydir_quiet)

lemma plain_load_exec_eq:
  "plain_load_exec h p argv envp s = Exec q a e s' \<Longrightarrow> a = argv \<and> e = envp \<and> mframe s s' \<and> rx_env s' = rx_env s"
  by (auto simp: plain_load_exec_def dest!: mframe_do_exec)

interpretation netbsd: os_layer "netbsd_ops h" for h
  by standard (simp_all add: netbsd_ops_def netbsd_init_def plain_load_exec_eq)

interpretation darwin: os_layer "darwin_ops h" for h
proof
  show "quiet s (os_open (darwin_ops h) pre name s)" for s pre name
    by (simp add: darwin_ops_def darwin_open_def Let_def split_beta rdo_def split: option.split)
qed (simp_all add: darwin_ops_def plain_load_exec_eq)

section \<open>Files and descriptions\<close>

definition info_ok :: "rx \<Rightarrow> bool" where
  "info_ok s \<longleftrightarrow> length (fdinfo_list s) \<le> FDINFO_MAX \<and> (\<forall>(n, fd) \<in> set (fdinfo_list s). length n < FDINFO_NAMELEN)"

text \<open>A step that may add descriptions.\<close>

definition tframe :: "rx \<Rightarrow> rx \<Rightarrow> bool" where
  "tframe s s' \<longleftrightarrow> grows s s' \<and> rx_ctx s' = rx_ctx s \<and> (info_ok s \<longrightarrow> info_ok s')"

definition tidy :: "rx \<Rightarrow> 'a run \<Rightarrow> bool" where
  "tidy s m \<longleftrightarrow> post (\<lambda>_ s'. tframe s s') (\<lambda>_ _ _ _. False) m"

lemma tframe_refl [simp]: "tframe s s"
  by (simp add: tframe_def)

lemma tframe_trans: "tframe s s' \<Longrightarrow> tframe s' s'' \<Longrightarrow> tframe s s''"
  by (auto simp: tframe_def intro: grows_trans)

lemma frame_tframe: "frame s s' \<Longrightarrow> tframe s s'"
  by (simp add: frame_def tframe_def info_ok_def)

lemma tidy_simps [simp]:
  "tidy s (Done x s') \<longleftrightarrow> tframe s s'" "tidy s (Exit c s')" "tidy s Fault" "\<not> tidy s (Exec p a e s')"
  by (simp_all add: tidy_def)

lemma quiet_tidy: "quiet s m \<Longrightarrow> tidy s m"
  by (cases m) (simp_all add: frame_tframe)

lemma tidy_bnd:
  assumes "tidy s m" and "\<And>x s'. tframe s s' \<Longrightarrow> m = Done x s' \<Longrightarrow> tidy s (f x s')"
  shows "tidy s (bnd m f)"
  using assms by (cases m) auto

lemma tidy_trans: "tframe s s' \<Longrightarrow> tidy s' m \<Longrightarrow> tidy s m"
  by (cases m) (auto intro: tframe_trans)

lemma fdinfo_add_tidy: "tidy s (fdinfo_add n fd s)"
  by (auto simp: fdinfo_add_def tframe_def grows_def info_ok_def)

lemmas tidy_steps = tidy_trans [OF _ fdinfo_add_tidy] tidy_trans [OF _ quiet_tidy [OF must_quiet]]
  tidy_trans [OF _ quiet_tidy [OF set_nonblock_quiet]]

lemma rootfs_open_tidy: "tidy s (rootfs_open h name mode s)"
  by (auto simp: rootfs_open_def intro!: tidy_bnd intro: tidy_steps)

lemma open_disk_tidy: "tidy s (open_disk h name mode s)"
  by (auto simp: open_disk_def intro!: tidy_bnd intro: tidy_steps)

context os_layer
begin

lemma colon_open_tidy: "tidy s (colon_open os h pre name mode s)"
  by (auto simp: colon_open_def rootfs_open_tidy quiet_tidy must_quiet console_open_quiet open_quiet intro!: tidy_bnd)

lemma open_colon_tidy: "tidy s (open_colon os h arg mode s)"
  by (auto simp: open_colon_def Let_def intro!: tidy_bnd colon_open_tidy intro: tidy_steps)

end

end
