(* ===== verification/Rexec_Main.thy ===== *)
theory Rexec_Main
  imports Rexec_Layer
begin

text \<open>
  The main function of rexec over any layer of the operating system: what the executed program is
  given, and which privileges were dropped before.
\<close>

section \<open>Arguments\<close>

lemma store_args_eq:
  assumes "p + length as \<le> length pargs"
  shows "store_args p as pargs = Some (p + length as, take p pargs @ map Some as @ drop (p + length as) pargs)"
  using assms
proof (induction as arbitrary: p pargs)
  case (Cons a as)
  then have "store_args (p + 1) as (pargs[p := Some a]) =
      Some (p + 1 + length as, take (p + 1) (pargs[p := Some a]) @ map Some as @ drop (p + 1 + length as) (pargs[p := Some a]))"
    by simp
  moreover have "take (p + 1) (pargs[p := Some a]) = take p pargs @ [Some a]"
    using Cons.prems by (simp add: take_Suc_conv_app_nth)
  ultimately show ?case using Cons.prems by simp
qed simp

lemma store_args_None: "p \<le> length pargs \<Longrightarrow> length pargs < p + length as \<Longrightarrow> store_args p as pargs = None"
  by (induction as arbitrary: p pargs) auto

text \<open>The array has room for the arguments and the null pointer exactly when no access leaves it.\<close>

lemma build_pargs_eq:
  "build_pargs junk program rest =
    (if length rest + 1 < length junk
     then Some (map Some (program # rest) @ replicate (length junk - length rest - 1) None) else None)"
proof (cases "length rest + 1 \<le> length junk")
  case True
  then show ?thesis
    using store_args_eq [of 0 "program # rest" junk] by (auto simp: build_pargs_def)
next
  case False
  then show ?thesis using store_args_None [of 0 junk "program # rest"] by (simp add: build_pargs_def)
qed

lemma c_argv_pad: "0 < n \<Longrightarrow> c_argv (map Some as @ replicate n None) = Some as"
proof -
  assume n: "0 < n"
  have "takeWhile (\<lambda>a. a \<noteq> None) (map Some as @ replicate n None) = map Some as"
    using n by (induction as) (simp_all add: gr0_conv_Suc)
  moreover have "map (the \<circ> Some) as = as" by (induction as) simp_all
  ultimately show ?thesis using n by (simp add: c_argv_def)
qed

lemma build_pargs_argv: "build_pargs junk program rest = Some pargs \<Longrightarrow> c_argv pargs = Some (program # rest)"
  using c_argv_pad [of "length junk - length rest - 1" "program # rest"] by (auto simp: build_pargs_eq split: if_splits)

section \<open>The environment of the program\<close>

lemma env_set_lookup: "map_of (env_set n v es) k = (if k = n then Some v else map_of es k)"
  by (induction n v es rule: env_set.induct) auto

lemma env_get_setenv:
  "env_get k (setenv n v True s) = (if k = n \<and> n \<noteq> [] \<and> CHR ''='' \<notin> set n then Some v else env_get k s)"
  by (simp add: setenv_def env_get_def env_set_lookup)

lemma setenv_sel [simp]:
  "fdinfo_list (setenv n v ov s) = fdinfo_list s" "rx_calls (setenv n v ov s) = rx_calls s" "rx_ctx (setenv n v ov s) = rx_ctx s"
  by (simp_all add: setenv_def)

lemma fold_setenv_sel [simp]:
  "fdinfo_list (fold (\<lambda>(n, fd). setenv n (f fd) True) l s) = fdinfo_list s"
  "rx_calls (fold (\<lambda>(n, fd). setenv n (f fd) True) l s) = rx_calls s"
  "rx_ctx (fold (\<lambda>(n, fd). setenv n (f fd) True) l s) = rx_ctx s"
  by (induction l arbitrary: s) auto

lemma fdinfo_setenv_sel [simp]:
  "fdinfo_list (fdinfo_setenv s) = fdinfo_list s" "rx_calls (fdinfo_setenv s) = rx_calls s" "rx_ctx (fdinfo_setenv s) = rx_ctx s"
  by (simp_all add: fdinfo_setenv_def)

text \<open>The last description with a name is the one passed on.\<close>

lemma fold_setenv_get:
  assumes "n \<noteq> []" and "CHR ''='' \<notin> set n"
  shows "env_get n (fold (\<lambda>(n, fd). setenv n (f fd) True) l s) =
    (case map_of (rev l) n of Some fd \<Rightarrow> Some (f fd) | None \<Rightarrow> env_get n s)"
  using assms
proof (induction l arbitrary: s)
  case (Cons x l)
  obtain k fd where x: "x = (k, fd)" by (cases x)
  show ?case using Cons by (auto simp: x env_get_setenv map_add_def split: option.split)
qed simp

lemma fdinfo_setenv_get:
  assumes "n \<noteq> []" and "CHR ''='' \<notin> set n" and "map_of (rev (fdinfo_list s)) n = Some fd"
  shows "env_get n (fdinfo_setenv s) = Some (take 7 (dec_int fd))"
  using fold_setenv_get [OF assms(1,2), of "\<lambda>fd. take 7 (dec_int fd)"] assms(3) by (simp add: fdinfo_setenv_def)

lemma setenv_list: "setenv n v b (s\<lparr>fdinfo_list := x\<rparr>) = (setenv n v b s)\<lparr>fdinfo_list := x\<rparr>"
  by (simp add: setenv_def env_get_def)

lemma fold_setenv_list:
  "fold (\<lambda>(n, fd). setenv n (f fd) True) l (s\<lparr>fdinfo_list := x\<rparr>) = (fold (\<lambda>(n, fd). setenv n (f fd) True) l s)\<lparr>fdinfo_list := x\<rparr>"
  by (induction l arbitrary: s) (simp_all add: split_beta setenv_list)

lemma env_set_twice: "env_set n v (env_set n w e) = env_set n v e"
  by (induction e) auto

text \<open>Of two descriptions in a row with one name the first leaves no trace, and a name with an equals sign never does.\<close>

lemma same_name_lost:
  assumes "fdinfo_list s = xs @ (n, a) # (n, b) # ys"
  shows "env_strings (fdinfo_setenv s) = env_strings (fdinfo_setenv (s\<lparr>fdinfo_list := xs @ (n, b) # ys\<rparr>))"
proof -
  have "setenv n v True (setenv n w True s) = setenv n v True s" for v w s by (simp add: setenv_def env_set_twice)
  then show ?thesis by (simp add: fdinfo_setenv_def assms fold_setenv_list setenv_list env_strings_def)
qed

lemma equals_sign_lost:
  assumes "fdinfo_list s = xs @ (n, a) # ys" and "CHR ''='' \<in> set n"
  shows "env_strings (fdinfo_setenv s) = env_strings (fdinfo_setenv (s\<lparr>fdinfo_list := xs @ ys\<rparr>))"
proof -
  have "setenv n v True s = s" for v s using assms(2) by (simp add: setenv_def)
  then show ?thesis by (simp add: fdinfo_setenv_def assms(1) fold_setenv_list env_strings_def)
qed

section \<open>Runs of main\<close>

definition rest_of :: "string list \<Rightarrow> string list \<Rightarrow> bool" where
  "rest_of args rest \<longleftrightarrow> rest = [] \<or> (\<exists>opts. args = opts @ ''--'' # rest)"

lemma rest_of_Cons: "rest_of args rest \<Longrightarrow> rest_of (a # args) rest"
  unfolding rest_of_def by (metis append_Cons)

lemma rest_of_length: "rest_of args rest \<Longrightarrow> length rest \<le> length args"
  by (auto simp: rest_of_def)

definition parses :: "string list \<Rightarrow> rx \<Rightarrow> (opts \<times> string list) run \<Rightarrow> bool" where
  "parses args s m \<longleftrightarrow> post (\<lambda>(ops, rest) s'. tframe s s' \<and> rest_of args rest) (\<lambda>_ _ _ _. False) m"

lemma parses_simps [simp]:
  "parses args s (Done (ops, rest) s') \<longleftrightarrow> tframe s s' \<and> rest_of args rest" "parses args s (Exit c s')" "parses args s Fault"
  by (simp_all add: parses_def)

lemma parses_sub:
  assumes "parses args s' m" and "tframe s s'"
  shows "parses (a # args) s m"
  using assms unfolding parses_def by (elim post_mono) (auto intro: tframe_trans rest_of_Cons)

lemma parses_bnd:
  assumes "tidy s m" and "\<And>x s'. tframe s s' \<Longrightarrow> parses args s (f x s')"
  shows "parses args s (bnd m f)"
  using assms by (cases m) auto

lemma parses_if: "(b \<Longrightarrow> parses args s m) \<Longrightarrow> parses args s m' \<Longrightarrow> parses args s (if b then m else m')"
  by simp

lemma tframe_spec [simp]: "tframe s (s'\<lparr>spec_9pfs := v\<rparr>) \<longleftrightarrow> tframe s s'"
  by (simp add: tframe_def grows_def info_ok_def)

lemma mframe_check_root [simp]: "mframe s s' \<Longrightarrow> mframe s (check_root h s')"
  by (rule mframe_trans [OF _ frame_mframe [OF check_root_frame]])

lemmas mild_steps = mild_trans [OF _ quiet_mild [OF must_quiet]] mild_trans [OF _ quiet_mild [OF alloc_tables_quiet]]
  mild_trans [OF _ quiet_mild [OF collect_fds_quiet]] mild_trans [OF _ quiet_mild [OF find_program_quiet]]
  mild_trans [OF _ quiet_mild [OF check_program_quiet]] mild_trans [OF _ quiet_mild [OF drop_ids_quiet]]
  mild_trans [OF _ quiet_mild [OF open_9pfs_quiet]]

lemma post_bnd_mild:
  assumes "mild s m" and "\<And>x s'. mframe s s' \<Longrightarrow> m = Done x s' \<Longrightarrow> post Q E (f x s')"
  shows "post Q E (bnd m f)"
  using assms by (cases m) auto

lemma post_if: "post Q E m \<Longrightarrow> post Q E (if b then Exit c s else m)"
  by simp

lemma post_case:
  assumes "\<And>a. x = Some a \<Longrightarrow> post Q E (f a)"
  shows "post Q E (case x of None \<Rightarrow> Fault | Some a \<Rightarrow> f a)"
  using assms by (cases x) auto

context os_layer
begin

lemma parse_args_parses: "parses args s (parse_args os h args ops s)"
proof (induction args arbitrary: ops s rule: length_induct)
  case (1 args)
  show ?case
  proof (cases args)
    case Nil
    then show ?thesis by (simp add: rest_of_def)
  next
    case (Cons arg as)
    have sub: "parses (arg # as) s (parse_args os h as ops' s')" if "tframe s s'" for ops' s'
      using 1 Cons that by (intro parses_sub) simp_all
    have sub2: "parses (arg # as) s (parse_args os h bs ops' s')" if "as = b # bs" "tframe s s'" for b bs ops' s'
    proof -
      have "parses bs s' (parse_args os h bs ops' s')" using 1 Cons that(1) by simp
      from parses_sub [OF parses_sub [OF this that(2), of b] tframe_refl, of arg] that(1) show ?thesis by simp
    qed
    have "parses (arg # as) s (parse_args os h (arg # as) ops s)"
      unfolding parse_args.simps
    proof (intro parses_if, goal_cases)
      case 2 show ?case by (rule sub) simp
    next
      case 3 show ?case by (rule sub) simp
    next
      case 4 show ?case by (rule sub) simp
    next
      case 5 show ?case using sub2 by (auto split: list.split)
    next
      case 6 show ?case using sub2 by (auto split: list.split)
    next
      case 7 show ?case by (intro parses_bnd [OF quiet_tidy [OF noroot_quiet]] sub)
    next
      case 8
      then show ?case by (auto simp: rest_of_def)
    next
      case 9 show ?case using sub2 by (auto split: list.split)
    next
      case 10 show ?case by (intro parses_bnd [OF open_colon_tidy] sub)
    next
      case 11 show ?case by (intro parses_bnd [OF open_disk_tidy] sub)
    qed simp
    with Cons show ?thesis by simp
  qed
qed

lemma filter_fds_mild: "mild s (filter_fds os fds s)"
proof (induction fds arbitrary: s)
  case (Cons x fds)
  obtain fd fl mode where x: "x = (fd, fl, mode)" by (cases x)
  show ?case by (auto simp: x intro!: mild_bnd filter_mild intro: mild_trans [OF _ Cons.IH])
qed simp

lemma launch_post:
  "post (\<lambda>_ _. True) (\<lambda>p a e s'. c_argv pargs = Some a \<and> (\<exists>s1. mframe s s1 \<and> e = env_strings (fdinfo_setenv s1) \<and>
     mframe (fdinfo_setenv s1) s' \<and> rx_env s' = rx_env (fdinfo_setenv s1))) (launch os h prog pargs s)"
  (is "post ?Q ?E _")
proof -
  have load: "post ?Q ?E (bnd (filter_load_exec os prog argv (env_strings (fdinfo_setenv s1)) (fdinfo_setenv s1))
      (\<lambda>ret s. if ret < 0 then Exit 1 s else Done 0 s))"
    if "mframe s s1" "c_argv pargs = Some argv" for argv s1
    using that load_exec [of prog argv "env_strings (fdinfo_setenv s1)" "fdinfo_setenv s1"]
    by (cases "filter_load_exec os prog argv (env_strings (fdinfo_setenv s1)) (fdinfo_setenv s1)") auto
  show ?thesis
    unfolding launch_def Let_def
    by (intro post_bnd_mild [where s = s] mild_steps mild_trans [OF _ quiet_mild [OF pre_quiet]] mild_trans [OF _ filter_fds_mild]
        post_case load) simp_all
qed

lemma tail_post:
  "post (\<lambda>_ _. True) (\<lambda>p a e s'. \<exists>s1. mframe s s1 \<and> launch os h prog pargs s1 = Exec p a e s')
    (bnd (os_dropcaps os s) (\<lambda>_ s. bnd (open_9pfs h s) (\<lambda>_ s. bnd (os_extrafiles os s) (\<lambda>_ s. launch os h prog pargs s))))"
  (is "post ?Q ?E _")
proof -
  have "post ?Q ?E (launch os h prog pargs s1)" if "mframe s s1" for s1
    using that by (cases "launch os h prog pargs s1") auto
  then show ?thesis
    by (intro post_bnd_mild [where s = s] mild_steps mild_trans [OF _ quiet_mild [OF dropcaps_quiet]]
        mild_trans [OF _ quiet_mild [OF extrafiles_quiet]]) simp_all
qed

lemma main_run_post:
  "post (\<lambda>_ _. True) (\<lambda>p a e s'. \<exists>prog s1 s2 s3. mframe s s1 \<and> drop_ids h (o_user ops) (o_group ops) s1 = Done () s2 \<and> mframe s2 s3 \<and>
     launch os h prog pargs s3 = Exec p a e s') (main_run os h ops program pargs s)"
  (is "post ?Q ?E _")
proof -
  have tail: "post ?Q ?E (bnd (drop_ids h (o_user ops) (o_group ops) s1) (\<lambda>_ s. bnd (os_dropcaps os s) (\<lambda>_ s.
      bnd (open_9pfs h s) (\<lambda>_ s. bnd (os_extrafiles os s) (\<lambda>_ s. launch os h prog pargs s)))))" if "mframe s s1" for s1 prog
  proof (rule post_bnd_mild [OF quiet_mild [OF drop_ids_quiet]])
    fix x :: unit and s2
    assume "drop_ids h (o_user ops) (o_group ops) s1 = Done x s2"
    with that show "post ?Q ?E (bnd (os_dropcaps os s2) (\<lambda>_ s. bnd (open_9pfs h s) (\<lambda>_ s. bnd (os_extrafiles os s) (\<lambda>_ s. launch os h prog pargs s))))"
      by (intro post_mono [OF tail_post]) auto
  qed
  show ?thesis
    unfolding main_run_def
    by (intro post_bnd_mild [where s = s] post_if mild_steps mild_trans [OF _ init_mild] mild_trans [OF _ quiet_mild [OF emptydir_quiet]] tail) simp_all
qed

end

section \<open>Privileges\<close>

text \<open>A call that was made and did not fail.\<close>

definition done_call :: "rhost \<Rightarrow> ext list \<Rightarrow> ext \<Rightarrow> rx \<Rightarrow> bool" where
  "done_call h cs c s \<longleftrightarrow> prefix (cs @ [c]) (rx_calls s) \<and> r_ans h cs c \<noteq> - 1"

lemma done_call_grows: "done_call h cs c s \<Longrightarrow> grows s s' \<Longrightarrow> done_call h cs c s'"
  by (auto simp: done_call_def grows_def intro: prefix_order.trans)

lemma must_done: "must h c s = Done r s' \<Longrightarrow> done_call h (rx_calls s) c s' \<and> s' = s\<lparr>rx_calls := rx_calls s @ [c]\<rparr>"
  by (auto simp: must_def rcall_def done_call_def split: if_splits)

definition set_gid :: "nat \<Rightarrow> ext" where "set_gid g = Ext ''setgid'' [AI (int g)]"
definition set_uid :: "nat \<Rightarrow> ext" where "set_uid u = Ext ''setuid'' [AI (int u)]"

text \<open>The group is given up before the user, and both calls succeeded.\<close>

definition dropped :: "rhost \<Rightarrow> nat \<Rightarrow> nat \<Rightarrow> rx \<Rightarrow> bool" where
  "dropped h u g s \<longleftrightarrow>
     (g \<noteq> 0 \<longrightarrow> (\<exists>cs. done_call h cs (set_gid g) s \<and> (u \<noteq> 0 \<longrightarrow> done_call h (cs @ [set_gid g]) (set_uid u) s))) \<and>
     (u \<noteq> 0 \<longrightarrow> (\<exists>cs. done_call h cs (set_uid u) s))"

lemma dropped_grows: "dropped h u g s \<Longrightarrow> grows s s' \<Longrightarrow> dropped h u g s'"
  unfolding dropped_def by (meson done_call_grows)

lemma choose_user_given: "u \<noteq> 0 \<Longrightarrow> choose_user h u s = (u, s)"
  by (simp add: choose_user_def split: option.split)

lemma drop_ids_eq:
  "drop_ids h u g s =
    (let (v, s) = choose_user h u s
     in bnd (if g \<noteq> 0 then must h (set_gid g) s else Done 0 s) (\<lambda>_ s.
        bnd (if v \<noteq> 0 then must h (set_uid v) s else Done 0 s) (\<lambda>_ s. Done () s)))"
  unfolding drop_ids_def set_gid_def set_uid_def ..

lemma drop_ids_dropped:
  assumes "drop_ids h u g s = Done () s'"
  shows "dropped h (fst (choose_user h u s)) g s'"
proof -
  obtain v s1 where v: "choose_user h u s = (v, s1)" by (cases "choose_user h u s")
  obtain r1 s2 where 1: "(if g \<noteq> 0 then must h (set_gid g) s1 else Done 0 s1) = Done r1 s2"
    and r: "bnd (if v \<noteq> 0 then must h (set_uid v) s2 else Done 0 s2) (\<lambda>_ s. Done () s) = Done () s'"
    using assms by (auto simp: drop_ids_eq v bnd_eq_Done)
  then obtain r2 where 2: "(if v \<noteq> 0 then must h (set_uid v) s2 else Done 0 s2) = Done r2 s'" by (auto simp: bnd_eq_Done)
  have grow: "grows s2 s'" using 2 must_done [of h "set_uid v" s2 r2 s'] by (auto simp: grows_def split: if_splits)
  have g: "done_call h (rx_calls s1) (set_gid g) s' \<and> rx_calls s2 = rx_calls s1 @ [set_gid g]" if "g \<noteq> 0"
    using 1 that must_done [of h "set_gid g" s1 r1 s2] done_call_grows [OF _ grow] by auto
  have u: "done_call h (rx_calls s2) (set_uid v) s'" if "v \<noteq> 0" using 2 that must_done [of h "set_uid v" s2 r2 s'] by auto
  show ?thesis using g u unfolding dropped_def v fst_conv by metis
qed

section \<open>The whole run\<close>

lemma rx0_info_ok: "info_ok (rx0 env)"
  by (simp add: info_ok_def rx0_def)

lemma info_ok_mframe: "mframe s s' \<Longrightarrow> info_ok s \<Longrightarrow> info_ok s'"
  by (simp add: mframe_def info_ok_def)

text \<open>What holds when the program is executed: arguments, options, descriptions, environment and privileges.\<close>

definition executed :: "os_ops \<Rightarrow> rhost \<Rightarrow> (string \<times> string) list \<Rightarrow> string list \<Rightarrow> string list \<Rightarrow> string list \<Rightarrow> rx \<Rightarrow> bool" where
  "executed os h env argv a e s \<longleftrightarrow> (\<exists>name program args ops rest s1 s2 s3 s4.
     argv = name # program # args \<and> a = program # rest \<and> rest_of args rest \<and>
     uuid h (rx0 env) = Done () s1 \<and> parse_args os h args opts0 s1 = Done (ops, rest) s2 \<and>
     dropped h (fst (choose_user h (o_user ops) s3)) (o_group ops) s \<and> info_ok s \<and> e = env_strings s \<and>
     rx_env s = rx_env (fdinfo_setenv s4) \<and> fdinfo_list s = fdinfo_list s4)"

context os_layer
begin

lemma main_run_executed:
  assumes "main_run os h ops program pargs s2 = Exec p a e s" and "build_pargs junk program rest = Some pargs"
    and "rest_of args rest" and "parse_args os h args opts0 s1 = Done (ops, rest) s2" and "info_ok s2"
    and "uuid h (rx0 env) = Done () s1"
  shows "executed os h env (name # program # args) a e s"
proof -
  obtain prog s3 s4 s5 where r: "mframe s2 s3" "drop_ids h (o_user ops) (o_group ops) s3 = Done () s4" "mframe s4 s5"
    "launch os h prog pargs s5 = Exec p a e s"
    using main_run_post [of s2 h ops pargs program] unfolding assms(1) by auto
  obtain s6 where l: "c_argv pargs = Some a" "mframe s5 s6" "e = env_strings (fdinfo_setenv s6)" "mframe (fdinfo_setenv s6) s"
    "rx_env s = rx_env (fdinfo_setenv s6)"
    using launch_post [of pargs s5 h prog] unfolding r(4) by auto
  have "mframe s3 s4" using drop_ids_quiet [of s3 h "o_user ops" "o_group ops"] r(2) by (simp add: frame_mframe)
  with r l(2,4) have m: "mframe s2 s6" "grows s4 s" "fdinfo_list s = fdinfo_list s6"
    by (auto intro: mframe_trans) (auto simp: mframe_def grows_def)
  then have "info_ok s" using info_ok_mframe [OF m(1) assms(5)] by (simp add: info_ok_def)
  moreover have "dropped h (fst (choose_user h (o_user ops) s3)) (o_group ops) s"
    using drop_ids_dropped [OF r(2)] m(2) by (rule dropped_grows)
  moreover have "a = program # rest" using build_pargs_argv [OF assms(2)] l(1) by simp
  moreover have "e = env_strings s" using l(3,5) by (simp add: env_strings_def)
  ultimately show ?thesis using assms(3,4,6) l(5) m(3) unfolding executed_def by blast
qed

lemma main_run_argv:
  assumes "main_run os h ops program pargs s1 = Exec p a e s"
  shows "c_argv pargs = Some a"
proof -
  obtain prog s3 where l: "launch os h prog pargs s3 = Exec p a e s"
    using main_run_post [of s1 h ops pargs program] unfolding assms by auto
  show ?thesis using launch_post [of pargs s3 h prog] unfolding l by auto
qed

lemma main_executed:
  assumes "rexec_main os h junk argv (rx0 env) = Exec p a e s"
  shows "executed os h env argv a e s"
proof -
  obtain name program args where argv: "argv = name # program # args"
    using assms by (auto simp: rexec_main_def split: list.splits)
  obtain s1 where 1: "uuid h (rx0 env) = Done () s1"
    and r: "bnd (parse_args os h args opts0 s1) (\<lambda>(ops, rest) s. case build_pargs junk program rest of None \<Rightarrow> Fault
      | Some pargs \<Rightarrow> main_run os h ops program pargs s) = Exec p a e s"
    using assms uuid_quiet [of "rx0 env" h] by (auto simp: rexec_main_def argv bnd_eq_Exec split: if_splits)
  then obtain ops rest s2 where 2: "parse_args os h args opts0 s1 = Done (ops, rest) s2"
    and r2: "(case build_pargs junk program rest of None \<Rightarrow> Fault | Some pargs \<Rightarrow> main_run os h ops program pargs s2) = Exec p a e s"
    using parse_args_parses [of args s1 h opts0] by (auto simp: bnd_eq_Exec parses_def)
  then obtain pargs where 3: "build_pargs junk program rest = Some pargs" "main_run os h ops program pargs s2 = Exec p a e s"
    by (auto split: option.splits)
  have "rest_of args rest" "tframe s1 s2" using parse_args_parses [of args s1 h opts0] 2 by simp_all
  moreover have "info_ok s1" using uuid_quiet [of "rx0 env" h] 1 rx0_info_ok [of env] by (simp add: frame_def info_ok_def)
  ultimately show ?thesis using main_run_executed [OF 3(2,1) _ 2 _ 1] by (simp add: argv tframe_def)
qed

end

text \<open>The builds of rexec.\<close>

definition layers :: "rhost \<Rightarrow> os_ops list" where
  "layers h =
     [linux_ops False False h, linux_ops False True h, linux_ops True False h, linux_ops True True h,
      freebsd_ops False h, freebsd_ops True h, netbsd_ops h, darwin_ops h]"

lemma layers_main:
  assumes "os \<in> set (layers h)" and "rexec_main os h' junk argv (rx0 env) = Exec p a e s"
  shows "executed os h' env argv a e s"
proof -
  have "os_layer os"
    using assms(1) linux.os_layer_axioms freebsd.os_layer_axioms netbsd.os_layer_axioms darwin.os_layer_axioms
    by (auto simp: layers_def)
  then show ?thesis using assms(2) by (rule os_layer.main_executed)
qed

end
