(* ===== verification/Rexec_Sandbox.thy ===== *)
theory Rexec_Sandbox
  imports Rexec_Main
begin

text \<open>
  The system call filter that rexec installs on Linux: which rules it has when the program is
  executed, and which system calls they allow.  What libseccomp makes of a list of rules is the
  parameter \<open>allows\<close> of the properties; its documentation says that a call is allowed when a rule
  matches and that otherwise the default action is taken, here to kill the process.
\<close>

section \<open>Calls and rules\<close>

datatype scall = SCall string "64 word list"

fun cmp_holds :: "64 word list \<Rightarrow> scmp \<Rightarrow> bool" where
  "cmp_holds args (CMP_EQ i v) \<longleftrightarrow> i < length args \<and> args ! i = v"
| "cmp_holds args (CMP_MASKED_EQ i m v) \<longleftrightarrow> i < length args \<and> args ! i AND m = v"

fun rule_matches :: "scall \<Rightarrow> rule \<Rightarrow> bool" where
  "rule_matches (SCall f args) (Allow g cs) \<longleftrightarrow> f = g \<and> list_all (cmp_holds args) cs"

definition filter_allows :: "rule list \<Rightarrow> scall \<Rightarrow> bool" where
  "filter_allows rs c \<longleftrightarrow> list_ex (rule_matches c) rs"

text \<open>The rules for a descriptor, and those whose addition is checked.\<close>

definition reads :: "string list" where "reads = [''read'', ''pread64'', ''readv'']"
definition writes :: "string list" where "writes = [''write'', ''pwrite64'', ''writev'']"

definition checked_rules :: "int \<Rightarrow> 32 word \<Rightarrow> 32 word \<Rightarrow> rule list" where
  "checked_rules fd fl mode =
     (if can_read fl then map (\<lambda>f. fd_rule f fd) reads else []) @
     (if can_write fl then map (\<lambda>f. fd_rule f fd) writes else []) @ stat_rules fd mode"

definition fd_rules :: "int \<Rightarrow> 32 word \<Rightarrow> 32 word \<Rightarrow> rule list" where
  "fd_rules fd fl mode =
     checked_rules fd fl mode @ (if can_read fl then [fd_rule ''preadv'' fd] else []) @
     (if can_write fl then [fd_rule ''pwritev'' fd] else [])"

section \<open>Additions\<close>

lemma rule_add_ctx:
  "seccomp_rule_add h r s = (ret, s') \<Longrightarrow> rx_ctx s' = rx_ctx s @ (if ret < 0 then [] else [r])"
  by (auto simp: seccomp_rule_add_def rcall_def split: if_splits)

lemma add_rules_ctx: "add_rules h rs s = (ret, s') \<Longrightarrow> 0 \<le> ret \<Longrightarrow> rx_ctx s' = rx_ctx s @ rs"
proof (induction rs arbitrary: s)
  case (Cons r rs)
  obtain r1 s1 where 1: "seccomp_rule_add h r s = (r1, s1)" by (cases "seccomp_rule_add h r s")
  with Cons show ?case using rule_add_ctx [OF 1] by (auto split: if_splits)
qed simp

lemma add_direction_ctx:
  assumes "add_direction h cs c fd s = (ret, s')" and "0 \<le> ret"
  shows "rx_ctx s' = rx_ctx s @ map (\<lambda>f. fd_rule f fd) cs \<or> rx_ctx s' = rx_ctx s @ map (\<lambda>f. fd_rule f fd) cs @ [fd_rule c fd]"
proof -
  obtain r1 s1 where 1: "add_rules h (map (\<lambda>f. fd_rule f fd) cs) s = (r1, s1)"
    by (cases "add_rules h (map (\<lambda>f. fd_rule f fd) cs) s")
  obtain r2 s2 where 2: "seccomp_rule_add h (fd_rule c fd) s1 = (r2, s2)" by (cases "seccomp_rule_add h (fd_rule c fd) s1")
  have "\<not> r1 < 0" "s' = s2" using assms 1 2 by (auto simp: add_direction_def split: if_splits)
  with add_rules_ctx [OF 1] rule_add_ctx [OF 2] show ?thesis by simp
qed

text \<open>The rules added for a list of descriptors: all checked ones, and no others than listed.\<close>

definition adds :: "(int \<times> 32 word \<times> 32 word) list \<Rightarrow> rx \<Rightarrow> rx \<Rightarrow> bool" where
  "adds fds s s' \<longleftrightarrow>
     set (rx_ctx s) \<union> (\<Union>(fd, fl, mode) \<in> set fds. set (checked_rules fd fl mode)) \<subseteq> set (rx_ctx s') \<and>
     set (rx_ctx s') \<subseteq> set (rx_ctx s) \<union> (\<Union>(fd, fl, mode) \<in> set fds. set (fd_rules fd fl mode))"

lemma linux_filter_adds:
  assumes "linux_filter_fd True h fd fl mode s = Done ret s'" and "0 \<le> ret"
  shows "adds [(fd, fl, mode)] s s'"
proof -
  obtain r1 s1 where 1: "(if can_read fl then add_direction h reads ''preadv'' fd s else (0, s)) = (r1, s1)" by force
  obtain r2 s2 where 2: "(if can_write fl then add_direction h writes ''pwritev'' fd s1 else (0, s1)) = (r2, s2)" by force
  have "\<not> r1 < 0" "\<not> r2 < 0" and 3: "add_rules h (stat_rules fd mode) s2 = (ret, s')"
    using assms 1 2 by (auto simp: linux_filter_fd_def reads_def [symmetric] writes_def [symmetric] split: if_splits prod.splits)
  let ?R = "map (\<lambda>f. fd_rule f fd) reads" and ?W = "map (\<lambda>f. fd_rule f fd) writes"
  have c1: "rx_ctx s1 = rx_ctx s @ (if can_read fl then ?R else []) \<or>
      can_read fl \<and> rx_ctx s1 = rx_ctx s @ ?R @ [fd_rule ''preadv'' fd]"
    using 1 \<open>\<not> r1 < 0\<close> add_direction_ctx [of h reads "''preadv''" fd s r1 s1] by (auto split: if_splits)
  have c2: "rx_ctx s2 = rx_ctx s1 @ (if can_write fl then ?W else []) \<or>
      can_write fl \<and> rx_ctx s2 = rx_ctx s1 @ ?W @ [fd_rule ''pwritev'' fd]"
    using 2 \<open>\<not> r2 < 0\<close> add_direction_ctx [of h writes "''pwritev''" fd s1 r2 s2] by (auto split: if_splits)
  have c3: "rx_ctx s' = rx_ctx s2 @ stat_rules fd mode" using add_rules_ctx [OF 3 assms(2)] .
  show ?thesis
    using c1 c2 unfolding adds_def c3 by (auto simp: checked_rules_def fd_rules_def)
qed

lemma adds_Cons: "adds [x] s s1 \<Longrightarrow> adds fds s1 s' \<Longrightarrow> adds (x # fds) s s'"
  unfolding adds_def by (cases x) auto

section \<open>The rules at the end\<close>

definition get_fl :: "int \<Rightarrow> ext" where "get_fl fd = Ext ''fcntl'' [AI fd, AS ''F_GETFL'']"

text \<open>The host reported the flags \<open>fl\<close> for the descriptor.\<close>

definition reported :: "rhost \<Rightarrow> int \<Rightarrow> 32 word \<Rightarrow> rx \<Rightarrow> bool" where
  "reported h fd fl s \<longleftrightarrow> (\<exists>cs. done_call h cs (get_fl fd) s \<and> fl = word_of_int (r_ans h cs (get_fl fd)))"

lemma reported_grows: "reported h fd fl s \<Longrightarrow> grows s s' \<Longrightarrow> reported h fd fl s'"
  unfolding reported_def using done_call_grows by blast

lemma collect_fds_reported:
  "collect_fds h l s = Done fds s' \<Longrightarrow> map fst fds = l \<and> (\<forall>(fd, fl, mode) \<in> set fds. reported h fd fl s')"
proof (induction l arbitrary: s fds)
  case (Cons fd l)
  from Cons.prems obtain r1 s1 r2 s2 fds' where 1: "must h (get_fl fd) s = Done r1 s1" "must h (Ext ''fstat'' [AI fd]) s1 = Done r2 s2"
    "collect_fds h l s2 = Done fds' s'" and fds: "fds = (fd, word_of_int r1, r_mode h (rx_calls s2)) # fds'"
    by (auto simp: bnd_eq_Done get_fl_def Let_def)
  have "r1 = r_ans h (rx_calls s) (get_fl fd)" using 1(1) by (auto simp: must_def rcall_def split: if_splits)
  then have r: "reported h fd (word_of_int r1) s1" using must_done [OF 1(1)] by (auto simp: reported_def)
  have "grows s1 s'"
    using must_quiet [of s1 h "Ext ''fstat'' [AI fd]"] 1(2,3) collect_fds_quiet [of s2 h l]
    by (auto simp: frame_def intro: grows_trans)
  with r have "reported h fd (word_of_int r1) s'" by (rule reported_grows)
  with Cons.IH [OF 1(3)] show ?case by (auto simp: fds)
qed simp

definition sandboxed :: "rhost \<Rightarrow> bool \<Rightarrow> bool \<Rightarrow> rx \<Rightarrow> bool" where
  "sandboxed h ev nx s \<longleftrightarrow> (\<exists>fds. (\<forall>(fd, fl, mode) \<in> set fds. reported h fd fl s) \<and>
     (\<exists>nfds. map fst fds = [0..nfds - 1] \<and> (\<exists>cs. done_call h cs (Ext ''socket'' [AS ''AF_UNIX'', AS ''SOCK_STREAM'', AI 0]) s \<and>
        nfds = r_ans h cs (Ext ''socket'' [AS ''AF_UNIX'', AS ''SOCK_STREAM'', AI 0]))) \<and>
     set (init_rules nx) \<union> (\<Union>(fd, fl, mode) \<in> set fds. set (checked_rules fd fl mode)) \<subseteq> set (rx_ctx s) \<and>
     set (rx_ctx s) \<subseteq> set (init_rules nx) \<union> (\<Union>(fd, fl, mode) \<in> set fds. set (fd_rules fd fl mode)) \<union> {exec_rule ev h (rx_pfd s)})"

lemma filter_fds_adds:
  "filter_fds (linux_ops True ev h) fds s = Done () s' \<Longrightarrow> adds fds s s'"
proof (induction fds arbitrary: s)
  case Nil
  then show ?case by (simp add: adds_def)
next
  case (Cons x fds)
  obtain fd fl mode where x: "x = (fd, fl, mode)" by (cases x)
  from Cons.prems obtain r s1 where 1: "linux_filter_fd True h fd fl mode s = Done r s1" "\<not> r < 0"
    "filter_fds (linux_ops True ev h) fds s1 = Done () s'"
    by (auto simp: x linux_ops_def bnd_eq_Done split: if_splits)
  then have "adds [x] s s1" using linux_filter_adds [of h fd fl mode s r s1] by (simp add: x)
  from adds_Cons [OF this Cons.IH [OF 1(3)]] show ?case .
qed

lemma linux_load_ctx:
  assumes "linux_load_exec True ev h p argv envp s = Exec q a e s'"
  shows "rx_ctx s' = rx_ctx s @ [exec_rule ev h (rx_pfd s')] \<and> grows s s'"
proof -
  obtain r s1 where 1: "seccomp_rule_add h (exec_rule ev h (rx_pfd s)) s = (r, s1)"
    by (cases "seccomp_rule_add h (exec_rule ev h (rx_pfd s)) s")
  have pfd: "rx_pfd s1 = rx_pfd s" using 1 by (auto simp: seccomp_rule_add_def rcall_def split: if_splits)
  have "\<not> r < 0" "rx_ctx s' = rx_ctx s1" "rx_pfd s' = rx_pfd s1"
    using assms 1 by (auto simp: linux_load_exec_def rdo_def rcall_def Let_def split: if_splits dest!: do_exec_eq)
  with rule_add_ctx [OF 1] pfd linux_load_exec_eq [OF assms] show ?thesis by (simp add: mframe_def)
qed

lemma sandboxedI:
  assumes "rx_ctx s = init_rules nx" and "adds fds s s1" and "rx_ctx s2 = rx_ctx s1 @ [exec_rule ev h (rx_pfd s2)]"
    and "\<forall>(fd, fl, mode) \<in> set fds. reported h fd fl s2" and "map fst fds = [0..nfds - 1]"
    and "done_call h cs (Ext ''socket'' [AS ''AF_UNIX'', AS ''SOCK_STREAM'', AI 0]) s2"
    and "nfds = r_ans h cs (Ext ''socket'' [AS ''AF_UNIX'', AS ''SOCK_STREAM'', AI 0])"
  shows "sandboxed h ev nx s2"
proof -
  have "set (init_rules nx) \<union> (\<Union>(fd, fl, mode) \<in> set fds. set (checked_rules fd fl mode)) \<subseteq> set (rx_ctx s2)"
    "set (rx_ctx s2) \<subseteq> set (init_rules nx) \<union> (\<Union>(fd, fl, mode) \<in> set fds. set (fd_rules fd fl mode)) \<union> {exec_rule ev h (rx_pfd s2)}"
    using assms(2) unfolding adds_def assms(1,3) by auto
  with assms(4-7) show ?thesis unfolding sandboxed_def by blast
qed

lemma post_bnd_quiet:
  assumes "quiet s m" and "\<And>x s'. frame s s' \<Longrightarrow> m = Done x s' \<Longrightarrow> post Q E (f x s')"
  shows "post Q E (bnd m f)"
  using assms by (cases m) auto

lemma launch_sandboxed:
  assumes ctx: "rx_ctx s = init_rules nx"
  shows "post (\<lambda>_ _. True) (\<lambda>p a e s'. sandboxed h ev nx s') (launch (linux_ops True ev h) h prog pargs s)"
  unfolding launch_def Let_def
proof (rule post_bnd_quiet [OF must_quiet], goal_cases)
  case (1 nfds s1)
  note sock = 1
  show ?case
  proof (rule post_bnd_quiet [OF must_quiet], goal_cases)
    case (1 r s2)
    note close = 1
    show ?case
    proof (rule post_bnd_quiet [OF alloc_tables_quiet], goal_cases)
      case (1 u s3)
      with close(1) have f13: "frame s1 s3" by (blast intro: frame_trans check_root_frame)
      show ?case
      proof (rule post_bnd_quiet [OF collect_fds_quiet], goal_cases)
        case (1 fds s4)
        note coll = 1
        show ?case
        proof (rule post_bnd_quiet [OF linux.pre_quiet], goal_cases)
          case (1 x s5)
          note pre = 1(1)
          show ?case
          proof (rule post_bnd_mild [OF linux.filter_fds_mild], goal_cases)
            case (1 y s6)
            note filt = 1
            show ?case
            proof (rule post_case)
              fix argv assume "c_argv pargs = Some argv"
              have f: "frame s s5" using sock(1) f13 coll(1) pre by (blast intro: frame_trans)
              then have c5: "rx_ctx s5 = init_rules nx" using ctx by (simp add: frame_def)
              have ad: "adds fds s5 s6" using filt(2) by (intro filter_fds_adds) simp
              have "sandboxed h ev nx s7"
                if l: "linux_load_exec True ev h prog argv (env_strings (fdinfo_setenv s6)) (fdinfo_setenv s6) = Exec p a e s7" for p a e s7
              proof -
                have c7: "rx_ctx s7 = rx_ctx s6 @ [exec_rule ev h (rx_pfd s7)]" and g67: "grows s6 s7"
                  using linux_load_ctx [OF l] by (simp_all add: grows_def)
                have gs: "grows s1 s3" "grows s3 s4" "grows s4 s5" "grows s5 s6"
                  using f13 coll(1) pre filt(1) by (simp_all add: frame_def mframe_def)
                note g47 = grows_trans [OF gs(3) grows_trans [OF gs(4) g67]]
                note g = g47 grows_trans [OF gs(1) grows_trans [OF gs(2) g47]]
                have fds: "map fst fds = [0..nfds - 1]" "\<forall>(fd, fl, mode) \<in> set fds. reported h fd fl s7"
                  using collect_fds_reported [OF coll(2)] reported_grows [OF _ g(1)] by auto
                have so: "nfds = r_ans h (rx_calls s) (Ext ''socket'' [AS ''AF_UNIX'', AS ''SOCK_STREAM'', AI 0])"
                  using sock(2) by (auto simp: must_def rcall_def split: if_splits)
                have "done_call h (rx_calls s) (Ext ''socket'' [AS ''AF_UNIX'', AS ''SOCK_STREAM'', AI 0]) s7"
                  using must_done [OF sock(2)] done_call_grows [OF _ g(2)] by blast
                from sandboxedI [OF c5 ad c7 fds(2,1) this so] show ?thesis .
              qed
              then show "post (\<lambda>_ _. True) (\<lambda>p a e s'. sandboxed h ev nx s')
                  (bnd (filter_load_exec (linux_ops True ev h) prog argv (env_strings (fdinfo_setenv s6)) (fdinfo_setenv s6))
                    (\<lambda>ret s. if ret < 0 then Exit 1 s else Done 0 s))"
                by (cases "linux_load_exec True ev h prog argv (env_strings (fdinfo_setenv s6)) (fdinfo_setenv s6)")
                  (auto simp: linux_ops_def)
            qed
          qed
        qed
      qed
    qed
  qed
qed

lemma add_rules_snd: "0 \<le> fst (add_rules h rs s) \<Longrightarrow> rx_ctx (snd (add_rules h rs s)) = rx_ctx s @ rs"
  by (rule add_rules_ctx [OF surjective_pairing])

lemma linux_init_ctx:
  assumes "linux_init True ev h p nx s = Done r s'" and "0 \<le> r"
  shows "rx_ctx s' = init_rules nx"
  using assms by (auto simp: linux_init_def bnd_eq_Done Let_def split_beta add_rules_snd split: if_splits)

lemma main_run_sandboxed:
  "post (\<lambda>_ _. True) (\<lambda>p a e s'. sandboxed h ev (o_nx ops) s') (main_run (linux_ops True ev h) h ops program pargs s)"
  (is "post ?Q ?E _")
proof -
  let ?os = "linux_ops True ev h"
  have tail: "post ?Q ?E (bnd (os_emptydir ?os s1) (\<lambda>_ s. bnd (drop_ids h (o_user ops) (o_group ops) s) (\<lambda>_ s. bnd (os_dropcaps ?os s) (\<lambda>_ s.
      bnd (open_9pfs h s) (\<lambda>_ s. bnd (os_extrafiles ?os s) (\<lambda>_ s. launch ?os h prog pargs s))))))"
    if "rx_ctx s1 = init_rules (o_nx ops)" for s1 prog
    using that
    by (intro post_bnd_quiet [where s = s1] quiet_trans [OF _ linux.emptydir_quiet] quiet_trans [OF _ drop_ids_quiet]
        quiet_trans [OF _ linux.dropcaps_quiet] quiet_trans [OF _ open_9pfs_quiet] quiet_trans [OF _ linux.extrafiles_quiet] launch_sandboxed)
      (simp_all add: frame_def)
  show ?thesis
    unfolding main_run_def
  proof (rule post_bnd_quiet [OF find_program_quiet], rule post_bnd_quiet [OF check_program_quiet],
      rule post_bnd_mild [OF linux.init_mild], goal_cases)
    case (1 prog s1 u s2 r s3)
    then have "linux_init True ev h prog (o_nx ops) s2 = Done r s3" by (simp add: linux_ops_def)
    then show ?case using linux_init_ctx [of ev h prog "o_nx ops" s2 r s3] tail [of s3 prog] by (cases "r < 0") simp_all
  qed
qed

lemma main_sandboxed:
  assumes "rexec_main (linux_ops True ev h) h junk argv (rx0 env) = Exec p a e s"
  shows "\<exists>name program args ops rest s1 s2. argv = name # program # args \<and> uuid h (rx0 env) = Done () s1 \<and>
    parse_args (linux_ops True ev h) h args opts0 s1 = Done (ops, rest) s2 \<and> sandboxed h ev (o_nx ops) s"
proof -
  let ?os = "linux_ops True ev h"
  obtain name program args where argv: "argv = name # program # args"
    using assms by (auto simp: rexec_main_def split: list.splits)
  obtain s1 where u: "uuid h (rx0 env) = Done () s1" and r: "bnd (parse_args ?os h args opts0 s1) (\<lambda>(ops, rest) s. case build_pargs junk program rest of None \<Rightarrow> Fault
      | Some pargs \<Rightarrow> main_run ?os h ops program pargs s) = Exec p a e s"
    using assms uuid_quiet [of "rx0 env" h] by (auto simp: rexec_main_def argv bnd_eq_Exec split: if_splits)
  then obtain ops rest s2 pargs where 2: "parse_args ?os h args opts0 s1 = Done (ops, rest) s2"
    and r2: "main_run ?os h ops program pargs s2 = Exec p a e s"
    using linux.parse_args_parses [of args s1 True ev h h opts0] by (auto simp: bnd_eq_Exec parses_def split: option.splits)
  then show ?thesis using main_run_sandboxed [of h ev ops program pargs s2] argv u by auto
qed

end
