(* ===== verification/Rexec_Live.thy ===== *)
theory Rexec_Live
  imports Rexec_Sandbox
begin

text \<open>
  Runs of rexec on a host where no call fails: from the end of the options on, the Linux layer
  reaches the execution of the program.  \<open>sure\<close> excludes the early ends of a run.
\<close>

primrec sure :: "('a \<Rightarrow> rx \<Rightarrow> bool) \<Rightarrow> (arg \<Rightarrow> string list \<Rightarrow> string list \<Rightarrow> rx \<Rightarrow> bool) \<Rightarrow> 'a run \<Rightarrow> bool" where
  "sure Q E (Done x s) = Q x s"
| "sure Q E (Exit c s) = False"
| "sure Q E (Exec p a e s) = E p a e s"
| "sure Q E Fault = False"

text \<open>A run that returns.\<close>

abbreviation returns :: "'a run \<Rightarrow> bool" where
  "returns \<equiv> sure (\<lambda>_ _. True) (\<lambda>_ _ _ _. False)"

lemma returns_eq: "returns m \<longleftrightarrow> (\<exists>x s. m = Done x s)"
  by (cases m) auto

lemma sure_bnd: "returns m \<Longrightarrow> (\<And>x s. m = Done x s \<Longrightarrow> sure Q E (f x s)) \<Longrightarrow> sure Q E (bnd m f)"
  by (cases m) auto

text \<open>No call fails, and what must not be null is not; \<open>stat\<close> reports the program as a regular file.\<close>

definition succeeds :: "rhost \<Rightarrow> bool" where
  "succeeds h \<longleftrightarrow> (\<forall>cs c. 0 \<le> r_ans h cs c) \<and> (\<forall>cs as. r_ans h cs (Ext ''calloc'' as) \<noteq> 0) \<and>
     (\<forall>cs as. r_ans h cs (Ext ''seccomp_init'' as) \<noteq> 0)"

definition regular_file :: "rhost \<Rightarrow> string \<Rightarrow> bool" where
  "regular_file h p \<longleftrightarrow> (\<forall>cs. r_mode h (cs @ [Ext ''stat'' [AS p]]) AND S_IFMT = S_IFREG)"

lemma succeeds_ans: "succeeds h \<Longrightarrow> 0 \<le> r_ans h cs c" "succeeds h \<Longrightarrow> r_ans h cs c \<noteq> - 1"
proof -
  assume "succeeds h"
  then have "0 \<le> r_ans h cs c" by (simp add: succeeds_def)
  then show "0 \<le> r_ans h cs c" "r_ans h cs c \<noteq> - 1" by simp_all
qed

lemma must_returns: "succeeds h \<Longrightarrow> must h c s = Done (r_ans h (rx_calls s) c) (rdo h c s)"
  by (simp add: must_def rdo_def rcall_def succeeds_ans)

lemma fst_rcall: "succeeds h \<Longrightarrow> \<not> fst (rcall h c s) < 0"
  by (simp add: rcall_def succeeds_ans not_less)

lemma drop_ids_returns: "succeeds h \<Longrightarrow> returns (drop_ids h u g s)"
  by (auto simp: drop_ids_def must_returns Let_def split_beta)

lemma check_program_returns: "succeeds h \<Longrightarrow> regular_file h p \<Longrightarrow> returns (check_program h p s)"
  by (simp add: check_program_def must_returns regular_file_def rdo_def rcall_def)

lemma alloc_tables_returns: "succeeds h \<Longrightarrow> returns (alloc_tables h n s)"
  by (simp add: alloc_tables_def rcall_def Let_def succeeds_def)

lemma collect_fds_returns: "succeeds h \<Longrightarrow> returns (collect_fds h l s)"
  by (induction l arbitrary: s) (auto simp: must_returns Let_def intro!: sure_bnd)

lemma emptydir_returns: "returns (emptydir h r s)"
  by (simp add: emptydir_def Let_def split_beta)

lemma rule_add_succeeds: "succeeds h \<Longrightarrow> \<not> fst (seccomp_rule_add h r s) < 0"
  using fst_rcall [of h] by (auto simp: seccomp_rule_add_def split_beta Let_def not_less)

lemma add_rules_succeeds: "succeeds h \<Longrightarrow> \<not> fst (add_rules h rs s) < 0"
  by (induction rs arbitrary: s) (simp_all add: split_beta Let_def rule_add_succeeds)

lemma add_direction_succeeds: "succeeds h \<Longrightarrow> \<not> fst (add_direction h cs c fd s) < 0"
  by (simp add: add_direction_def split_beta Let_def add_rules_succeeds)

lemma linux_filter_returns: "succeeds h \<Longrightarrow> sure (\<lambda>r s. \<not> r < 0) (\<lambda>_ _ _ _. False) (linux_filter_fd sec h fd fl mode s)"
  by (simp add: linux_filter_fd_def split_beta Let_def add_rules_succeeds add_direction_succeeds)

lemma filter_fds_returns: "succeeds h \<Longrightarrow> returns (filter_fds (linux_ops sec ev h) fds s)"
proof (induction fds arbitrary: s)
  case (Cons x fds)
  obtain fd fl mode where x: "x = (fd, fl, mode)" by (cases x)
  show ?case
    using Cons linux_filter_returns [of h sec fd fl mode s]
    by (cases "linux_filter_fd sec h fd fl mode s") (auto simp: x linux_ops_def)
qed simp

lemma linux_init_returns:
  "succeeds h \<Longrightarrow> sec \<or> \<not> nx \<Longrightarrow> sure (\<lambda>r s. \<not> r < 0) (\<lambda>_ _ _ _. False) (linux_init sec ev h p nx s)"
  by (auto simp: linux_init_def rcall_def Let_def split_beta must_returns succeeds_def add_rules_succeeds)

lemma extrafiles_returns: "succeeds h \<Longrightarrow> returns (linux_extrafiles h s)"
  by (simp add: linux_extrafiles_def Let_def split_beta rcall_def succeeds_ans)

lemma do_exec_sure: "succeeds h \<Longrightarrow> sure (\<lambda>_ _. False) (\<lambda>p a e s. True) (do_exec h c q argv envp s)"
  by (simp add: do_exec_def rcall_def succeeds_ans)

lemma load_exec_sure: "succeeds h \<Longrightarrow> sure (\<lambda>_ _. False) (\<lambda>p a e s. True) (linux_load_exec sec ev h p argv envp s)"
  by (simp add: linux_load_exec_def Let_def split_beta do_exec_sure rule_add_succeeds fst_rcall not_less)

lemma launch_sure:
  assumes h: "succeeds h" and argv: "c_argv pargs = Some argv"
  shows "sure (\<lambda>_ _. False) (\<lambda>p a e s. True) (launch (linux_ops sec ev h) h prog pargs s)"
proof -
  have load: "sure (\<lambda>_ _. False) (\<lambda>p a e s. True)
      (bnd (filter_load_exec (linux_ops sec ev h) prog argv env s) (\<lambda>ret s. if ret < 0 then Exit 1 s else Done 0 s))" for env s
    using load_exec_sure [OF h, of sec ev prog argv env s]
    by (cases "linux_load_exec sec ev h prog argv env s") (auto simp: linux_ops_def)
  show ?thesis
    unfolding launch_def Let_def argv option.case
    by (intro sure_bnd alloc_tables_returns collect_fds_returns filter_fds_returns load h) (simp_all add: must_returns h linux_ops_def)
qed

lemma sure_if: "\<not> b \<Longrightarrow> sure Q E m \<Longrightarrow> sure Q E (if b then Exit c s else m)"
  by simp

lemma sure_step:
  assumes "quiet s m" and "returns m" and "\<And>x s'. frame s s' \<Longrightarrow> m = Done x s' \<Longrightarrow> sure Q E (f x s')"
  shows "sure Q E (bnd m f)"
  using assms by (cases m) auto

lemma tail_sure:
  assumes h: "succeeds h" and argv: "c_argv pargs = Some argv" and spec: "spec_9pfs s = None"
  shows "sure (\<lambda>_ _. False) (\<lambda>p a e s. True) (bnd (os_emptydir (linux_ops sec ev h) s) (\<lambda>_ s. bnd (drop_ids h u g s) (\<lambda>_ s.
    bnd (os_dropcaps (linux_ops sec ev h) s) (\<lambda>_ s. bnd (open_9pfs h s) (\<lambda>_ s. bnd (os_extrafiles (linux_ops sec ev h) s) (\<lambda>_ s.
    launch (linux_ops sec ev h) h prog pargs s))))))"
proof (rule sure_step [OF linux.emptydir_quiet], goal_cases)
  case 1
  show ?case by (simp add: linux_ops_def linux_emptydir_def emptydir_returns)
next
  case (2 x s1)
  note f1 = 2
  show ?case
  proof (rule sure_step [OF drop_ids_quiet drop_ids_returns [OF h]], goal_cases)
    case (1 y s2)
    note f2 = 1
    show ?case
    proof (rule sure_step [OF linux.dropcaps_quiet], goal_cases)
      case 1
      show ?case by (simp add: linux_ops_def linux_dropcaps_def must_returns [OF h])
    next
      case (2 z s3)
      then have "spec_9pfs s3 = None" using f1 f2 spec by (simp add: frame_def)
      then have "open_9pfs h s3 = Done () s3" by (simp add: open_9pfs_def)
      then show ?case
        using extrafiles_returns [OF h, of s3] launch_sure [OF h argv, of sec ev prog]
        by (auto simp: linux_ops_def intro!: sure_bnd)
    qed
  qed
qed

lemma main_run_sure:
  assumes h: "succeeds h" and reg: "regular_file h program" and argv: "c_argv pargs = Some argv" and p: "CHR ''/'' \<in> set program" and nx: "sec \<or> \<not> o_nx ops"
    and spec: "spec_9pfs s = None"
  shows "sure (\<lambda>_ _. False) (\<lambda>p a e s. True) (main_run (linux_ops sec ev h) h ops program pargs s)"
proof -
  have find: "find_program h program s = Done program s" using p by (simp add: find_program_def)
  show ?thesis
    unfolding main_run_def find bnd.simps
  proof (rule sure_step [OF check_program_quiet check_program_returns [OF h reg]], goal_cases)
    case (1 u s1)
    then have s1: "spec_9pfs s1 = None" using spec by (simp add: frame_def)
    have i: "sure (\<lambda>r s. \<not> r < 0) (\<lambda>_ _ _ _. False) (os_init (linux_ops sec ev h) program (o_nx ops) s1)"
      "mild s1 (os_init (linux_ops sec ev h) program (o_nx ops) s1)"
      using linux_init_returns [OF h nx] linux.init_mild by (simp_all add: linux_ops_def)
    then obtain r s2 where "os_init (linux_ops sec ev h) program (o_nx ops) s1 = Done r s2" "\<not> r < 0" "mframe s1 s2"
      by (cases "os_init (linux_ops sec ev h) program (o_nx ops) s1") auto
    then show ?case using tail_sure [OF h argv, of s2] s1 by (simp add: mframe_def)
  qed
qed

end
