(* ===== verification/Rexec_Props.thy ===== *)
theory Rexec_Props
  imports Rexec_Live
begin

text \<open>
  Properties of the launcher rexec: what the executed program is given, the system calls that the
  Linux filter allows, privileges, descriptions of the descriptors and the netmask.
\<close>

section \<open>A run\<close>

text \<open>
  A host on which every call succeeds: descriptors are read/write character devices, new ones are 3, and
  the count of the open descriptors gives 4.
\<close>

definition demo_host :: rhost where
  "demo_host =
     \<lparr>r_ans = (\<lambda>cs c. if ext_name c = ''socket'' then 4 else if ext_name c = ''fcntl'' then 2 else 3),
      r_bytes = (\<lambda>_. []), r_mode = (\<lambda>cs. if ext_name (last cs) = ''stat'' then S_IFREG else S_IFCHR), r_tmpdir = ''/tmp/dir'', r_stack = (\<lambda>_. []), r_ptr = (\<lambda>_. 0)\<rparr>"

definition demo_args :: "string list" where
  "demo_args = [''-nx'', ''-u'', ''5'', ''-g'', ''6'', ''disk'', ''--'', ''x'']"

lemma demo_succeeds: "succeeds demo_host" "regular_file demo_host p"
  by (simp_all add: succeeds_def regular_file_def demo_host_def S_IFREG_def S_IFMT_def)

lemma main_sure:
  assumes "succeeds h" and "regular_file h program" and "CHR ''/'' \<in> set program" and "program \<noteq> ''-h''" and "map_of env ''UUID'' \<noteq> None"
    and "parse_args (linux_ops sec ev h) h args opts0 (rx0 env) = Done (ops, rest) s1" and "spec_9pfs s1 = None"
    and "sec \<or> \<not> o_nx ops" and "length junk = length args + 2"
  shows "\<exists>p e s. rexec_main (linux_ops sec ev h) h junk (name # program # args) (rx0 env) = Exec p (program # rest) e s"
proof -
  have "length rest \<le> length args"
    using linux.parse_args_parses [of args "rx0 env" sec ev h h opts0] rest_of_length assms(6) by simp
  then have b: "build_pargs junk program rest = Some (map Some (program # rest) @ replicate (length junk - length rest - 1) None)"
    using assms(9) by (simp add: build_pargs_eq)
  let ?pargs = "map Some (program # rest) @ replicate (length junk - length rest - 1) None"
  have "c_argv ?pargs = Some (program # rest)" using build_pargs_argv [OF b] .
  then have "sure (\<lambda>_ _. False) (\<lambda>p a e s. True) (main_run (linux_ops sec ev h) h ops program ?pargs s1)"
    using assms(1,2,3,7,8) by (intro main_run_sure)
  then obtain p a e s where m: "main_run (linux_ops sec ev h) h ops program ?pargs s1 = Exec p a e s"
    by (cases "main_run (linux_ops sec ev h) h ops program ?pargs s1") auto
  have u: "uuid h (rx0 env) = Done () (rx0 env)" using assms(5) by (simp add: uuid_def env_get_def rx0_def)
  have main: "rexec_main (linux_ops sec ev h) h junk (name # program # args) (rx0 env) = Exec p a e s"
    using assms(4,6) b m u by (simp add: rexec_main_def)
  have "a = program # rest" using linux.main_run_argv [OF m] build_pargs_argv [OF b] by simp
  with main show ?thesis by blast
qed

section \<open>The system calls of the program\<close>

definition sock_probe :: ext where
  "sock_probe = Ext ''socket'' [AS ''AF_UNIX'', AS ''SOCK_STREAM'', AI 0]"

text \<open>The number of descriptors, as the probe of the lowest free one gave it.\<close>

definition nfds_seen :: "rhost \<Rightarrow> int \<Rightarrow> rx \<Rightarrow> bool" where
  "nfds_seen h n s \<longleftrightarrow> (\<exists>cs. done_call h cs sock_probe s \<and> n = r_ans h cs sock_probe)"

definition is_arg :: "64 word list \<Rightarrow> nat \<Rightarrow> 64 word \<Rightarrow> bool" where
  "is_arg args i v \<longleftrightarrow> i < length args \<and> args ! i = v"

definition not_exec :: "bool \<Rightarrow> 64 word list \<Rightarrow> bool" where
  "not_exec nx args \<longleftrightarrow> (nx \<longrightarrow> 2 < length args \<and> args ! 2 AND datum PROT_EXEC = 0)"

text \<open>Calls that name no object, calls with a fixed argument, and calls on an open descriptor.\<close>

definition plain_call :: "bool \<Rightarrow> string \<Rightarrow> 64 word list \<Rightarrow> bool" where
  "plain_call nx f args \<longleftrightarrow>
     f \<in> {''exit'', ''exit_group'', ''clock_gettime'', ''clock_getres'', ''clock_nanosleep'', ''getrandom'', ''munmap'', ''fstat'', ''ppoll''} \<or>
     f = ''arch_prctl'' \<and> is_arg args 0 (datum ARCH_SET_FS) \<or>
     f = ''kill'' \<and> is_arg args 0 0 \<and> is_arg args 1 (datum SIGABRT) \<or>
     f = ''mmap'' \<and> is_arg args 4 (datum (- 1)) \<and> not_exec nx args \<or>
     f = ''mprotect'' \<and> not_exec nx args"

definition fd_call :: "32 word \<Rightarrow> string \<Rightarrow> 64 word list \<Rightarrow> bool" where
  "fd_call fl f args \<longleftrightarrow>
     f \<in> set reads \<union> {''preadv''} \<and> can_read fl \<or> f \<in> set writes \<union> {''pwritev''} \<and> can_write fl \<or>
     f = ''fsync'' \<or> f = ''getsockname'' \<or> f = ''fcntl'' \<and> is_arg args 1 (datum F_GETFL) \<or>
     f = ''ioctl'' \<and> (\<exists>c \<in> {BLKGETSIZE64, TUNGETIFF, TUNSETIFF, SIOCGIFHWADDR, SIOCGIFNAME}. is_arg args 1 (datum c))"

definition exec_call :: "rhost \<Rightarrow> bool \<Rightarrow> rx \<Rightarrow> string \<Rightarrow> 64 word list \<Rightarrow> bool" where
  "exec_call h ev s f args \<longleftrightarrow>
     (if ev then f = ''execveat'' \<and> is_arg args 0 (datum (rx_pfd s)) \<and> is_arg args 1 (r_ptr h ''emptystring'') \<and>
        is_arg args 2 (r_ptr h ''argv'') \<and> is_arg args 3 (r_ptr h ''envp'') \<and> is_arg args 4 (datum AT_EMPTY_PATH)
      else f = ''execve'')"

text \<open>The names are kept as they are: only the shape of the rules is unfolded.\<close>

lemmas rule_shape = rule_matches.simps list.pred_inject cmp_holds.simps

lemma init_rule_call: "rule_matches (SCall f args) r \<Longrightarrow> r \<in> set (init_rules nx) \<Longrightarrow> plain_call nx f args"
  unfolding init_rules_def plain_call_def is_arg_def not_exec_def list.set insert_iff empty_iff
  by (cases nx; simp only: if_True if_False; elim disjE; simp only: rule_shape simp_thms)

lemma fd_rule_match:
  "rule_matches (SCall f args) (fd_rule g fd) \<longleftrightarrow> f = g \<and> is_arg args 0 (datum fd)"
  "rule_matches (SCall f args) (fd_ctl g fd c) \<longleftrightarrow> f = g \<and> is_arg args 0 (datum fd) \<and> is_arg args 1 (datum c)"
  by (simp_all add: fd_rule_def fd_ctl_def is_arg_def)

lemma fd_rule_call:
  assumes "rule_matches (SCall f args) r" and "r \<in> set (fd_rules fd fl mode)"
  shows "is_arg args 0 (datum fd) \<and> fd_call fl f args"
proof -
  let ?cmds = "{BLKGETSIZE64, TUNGETIFF, TUNSETIFF, SIOCGIFHWADDR, SIOCGIFNAME}"
  consider g where "g \<in> set reads \<union> {''preadv''}" "can_read fl" "r = fd_rule g fd"
    | g where "g \<in> set writes \<union> {''pwritev''}" "can_write fl" "r = fd_rule g fd"
    | "r = fd_rule ''fsync'' fd" | "r = fd_rule ''getsockname'' fd" | "r = fd_ctl ''fcntl'' fd F_GETFL"
    | c where "c \<in> ?cmds" "r = fd_ctl ''ioctl'' fd c"
    using assms(2) unfolding fd_rules_def checked_rules_def stat_rules_def by (auto split: if_splits)
  then show ?thesis
  proof cases
    case (6 c)
    then have "f = ''ioctl''" "is_arg args 0 (datum fd)" "\<exists>c \<in> ?cmds. is_arg args 1 (datum c)"
      using assms(1) by (simp_all only: fd_rule_match) blast
    then show ?thesis unfolding fd_call_def by (simp only: simp_thms)
  qed (use assms(1) in \<open>simp only: fd_call_def fd_rule_match simp_thms\<close>)+
qed

lemma exec_rule_call: "rule_matches (SCall f args) (exec_rule ev h (rx_pfd s)) \<Longrightarrow> exec_call h ev s f args"
  by (auto simp: exec_rule_def exec_call_def is_arg_def split: if_splits)

lemma sandboxed_fds:
  assumes "sandboxed h ev nx s"
  obtains fds n where "\<forall>(fd, fl, mode) \<in> set fds. reported h fd fl s" "map fst fds = [0..n - 1]" "nfds_seen h n s"
    "set (init_rules nx) \<union> (\<Union>(fd, fl, mode) \<in> set fds. set (checked_rules fd fl mode)) \<subseteq> set (rx_ctx s)"
    "set (rx_ctx s) \<subseteq> set (init_rules nx) \<union> (\<Union>(fd, fl, mode) \<in> set fds. set (fd_rules fd fl mode)) \<union> {exec_rule ev h (rx_pfd s)}"
  using assms unfolding sandboxed_def nfds_seen_def sock_probe_def by metis

lemma sandboxed_call:
  assumes "sandboxed h ev nx s" and "r \<in> set (rx_ctx s)" and "rule_matches (SCall f args) r"
  shows "plain_call nx f args \<or> exec_call h ev s f args \<or>
    (\<exists>n fd fl. nfds_seen h n s \<and> 0 \<le> fd \<and> fd < n \<and> reported h fd fl s \<and> is_arg args 0 (datum fd) \<and> fd_call fl f args)"
proof -
  obtain fds n where 1: "\<forall>(fd, fl, mode) \<in> set fds. reported h fd fl s" "map fst fds = [0..n - 1]" "nfds_seen h n s"
    "set (rx_ctx s) \<subseteq> set (init_rules nx) \<union> (\<Union>(fd, fl, mode) \<in> set fds. set (fd_rules fd fl mode)) \<union> {exec_rule ev h (rx_pfd s)}"
    using sandboxed_fds [OF assms(1)] by metis
  from 1(4) assms(2) consider "r \<in> set (init_rules nx)" | "r = exec_rule ev h (rx_pfd s)"
    | fd fl mode where "(fd, fl, mode) \<in> set fds" "r \<in> set (fd_rules fd fl mode)" by blast
  then show ?thesis
  proof cases
    case (3 fd fl mode)
    then have "fd \<in> set [0..n - 1]" using 1(2) by (metis fst_conv image_eqI list.set_map)
    then have "0 \<le> fd" "fd < n" by auto
    moreover have "reported h fd fl s" using 1(1) 3(1) by auto
    ultimately show ?thesis using fd_rule_call [OF assms(3) 3(2)] 1(3) by blast
  qed (use assms(3) init_rule_call exec_rule_call in blast)+
qed

definition free_calls :: "string list" where
  "free_calls = [''exit_group'', ''clock_gettime'', ''clock_nanosleep'', ''getrandom'', ''munmap'', ''fstat'', ''ppoll'']"

lemma sandboxed_admits:
  assumes "sandboxed h ev nx s"
  shows "(\<forall>f \<in> set free_calls.
      \<forall>args. \<exists>r \<in> set (rx_ctx s). rule_matches (SCall f args) r) \<and>
    (\<exists>n. nfds_seen h n s \<and> (\<forall>fd. 0 \<le> fd \<and> fd < n \<longrightarrow> (\<exists>fl. reported h fd fl s \<and>
      (\<forall>f args. is_arg args 0 (datum fd) \<and> (f \<in> set reads \<and> can_read fl \<or> f \<in> set writes \<and> can_write fl \<or> f = ''fsync'') \<longrightarrow>
        (\<exists>r \<in> set (rx_ctx s). rule_matches (SCall f args) r)))))"
    (is "?fixed \<and> (\<exists>n. _ \<and> (\<forall>fd. _ \<longrightarrow> ?on fd))")
proof -
  obtain fds n where 1: "\<forall>(fd, fl, mode) \<in> set fds. reported h fd fl s" "map fst fds = [0..n - 1]" "nfds_seen h n s"
    "set (init_rules nx) \<subseteq> set (rx_ctx s)" "(\<Union>(fd, fl, mode) \<in> set fds. set (checked_rules fd fl mode)) \<subseteq> set (rx_ctx s)"
    using sandboxed_fds [OF assms] by (metis Un_subset_iff)
  have "Allow f [] \<in> set (init_rules nx)"
    if "f \<in> set free_calls" for f
    using that unfolding free_calls_def insert_iff empty_iff init_rules_def list.set by (elim disjE; simp only: simp_thms)
  then have ?fixed using subsetD [OF 1(4)] by (intro ballI allI bexI [of _ "Allow _ []"]) (simp, blast)
  moreover have "?on fd" if "0 \<le> fd \<and> fd < n" for fd
  proof -
    have "fd \<in> set (map fst fds)" using that by (simp add: 1(2))
    then obtain fl mode where m: "(fd, fl, mode) \<in> set fds" by auto
    then have c: "set (checked_rules fd fl mode) \<subseteq> set (rx_ctx s)" using 1(5) by auto
    have r: "fd_rule f fd \<in> set (rx_ctx s)" if "f \<in> set reads \<and> can_read fl \<or> f \<in> set writes \<and> can_write fl \<or> f = ''fsync''" for f
      using that by (intro subsetD [OF c]) (auto simp: checked_rules_def stat_rules_def)
    have "reported h fd fl s" using 1(1) m by auto
    then show ?thesis by (intro exI [of _ fl] conjI allI impI) (assumption, elim conjE, rule bexI [OF _ r], simp only: fd_rule_match simp_thms)
  qed
  ultimately show ?thesis using 1(3) by blast
qed

section \<open>The demonstration run\<close>

definition demo_env :: "(string \<times> string) list" where
  "demo_env = [(''UUID'', ''0'')]"

definition demo_argv :: "string list" where
  "demo_argv = ''rexec'' # ''/x'' # demo_args"

lemma demo_disk: "\<exists>s1. open_disk demo_host ''disk'' O_RDWR (rx0 demo_env) = Done () s1 \<and> spec_9pfs s1 = None"
  by (simp add: open_disk_def set_nonblock_def must_def rcall_def rdo_def demo_host_def fdinfo_add_def rx0_def
      FDINFO_MAX_def FDINFO_NAMELEN_def FDINFO_ENV_PREFIX_DISK_def Let_def)

lemma demo_parse:
  "\<exists>ops s1. parse_args os demo_host demo_args opts0 (rx0 demo_env) = Done (ops, [''x'']) s1 \<and> spec_9pfs s1 = None \<and>
     o_nx ops \<and> o_user ops = 5 \<and> o_group ops = 6"
proof -
  obtain s1 where "open_disk demo_host ''disk'' O_RDWR (rx0 demo_env) = Done () s1" "spec_9pfs s1 = None"
    using demo_disk by blast
  moreover have "to_id ''5'' = 5" "to_id ''6'' = 6" by code_simp+
  ultimately show ?thesis by (simp add: demo_args_def opts0_def)
qed

lemma demo_exec:
  "\<exists>p e s. rexec_main (linux_ops True ev demo_host) demo_host (replicate 10 None) demo_argv (rx0 demo_env) = Exec p [''/x'', ''x''] e s"
proof -
  obtain ops s1 where p: "parse_args (linux_ops True ev demo_host) demo_host demo_args opts0 (rx0 demo_env) = Done (ops, [''x'']) s1"
    "spec_9pfs s1 = None" using demo_parse by blast
  show ?thesis unfolding demo_argv_def
    by (rule main_sure [OF demo_succeeds _ _ _ p]) (simp_all add: demo_env_def demo_args_def)
qed

section \<open>Properties\<close>

text \<open>
  C3: When rexec built with libseccomp executes a program on Linux, every system call that the loaded
  filter allows is a call without an object or with a fixed argument, with no executable mapping when
  \<open>-nx\<close> was given, or the call that executes the program, or a call on one of the open descriptors,
  which reads only from a descriptor reported readable and writes only to one reported writable.
  What the library makes of the rules is the parameter \<open>allows\<close>: a call is allowed exactly when a rule
  matches it.
\<close>

theorem sandbox_sound:
  assumes "\<And>rs c. allows rs c \<longleftrightarrow> (\<exists>r \<in> set rs. rule_matches c r)"
    and "rexec_main (linux_ops True ev h) h junk argv (rx0 env) = Exec p a e s" and "allows (rx_ctx s) (SCall f args)"
  shows "\<exists>name program as ops rest s1 s2. argv = name # program # as \<and> uuid h (rx0 env) = Done () s1 \<and>
    parse_args (linux_ops True ev h) h as opts0 s1 = Done (ops, rest) s2 \<and>
    (plain_call (o_nx ops) f args \<or> exec_call h ev s f args \<or>
     (\<exists>n fd fl. nfds_seen h n s \<and> 0 \<le> fd \<and> fd < n \<and> reported h fd fl s \<and> is_arg args 0 (datum fd) \<and> fd_call fl f args))"
  using main_sandboxed [OF assms(2)] sandboxed_call assms(1,3) by metis

theorem sandbox_sound_witness:
  "\<exists>p a e s. rexec_main (linux_ops True True demo_host) demo_host (replicate 10 None) demo_argv (rx0 demo_env) = Exec p a e s \<and>
     (\<forall>args. filter_allows (rx_ctx s) (SCall ''mprotect'' args) \<longrightarrow> not_exec True args)"
proof -
  obtain p a e s where x: "rexec_main (linux_ops True True demo_host) demo_host (replicate 10 None) demo_argv (rx0 demo_env) = Exec p a e s"
    using demo_exec by blast
  have m: "filter_allows rs c \<longleftrightarrow> (\<exists>r \<in> set rs. rule_matches c r)" for rs c by (simp add: filter_allows_def list_ex_iff)
  have u: "uuid demo_host (rx0 demo_env) = Done () (rx0 demo_env)" by (simp add: uuid_def env_get_def rx0_def demo_env_def)
  obtain ops s2 where q: "parse_args (linux_ops True True demo_host) demo_host demo_args opts0 (rx0 demo_env) = Done (ops, [''x'']) s2"
    "o_nx ops" using demo_parse by blast
  have "not_exec True args" if "filter_allows (rx_ctx s) (SCall ''mprotect'' args)" for args
    using sandbox_sound [of filter_allows, OF m x that] u q
    by (auto simp: demo_argv_def plain_call_def exec_call_def fd_call_def reads_def writes_def)
  with x show ?thesis by blast
qed

text \<open>
  C27: The converse: the filter leaves the program what the C library's Linux layer uses.  Every call of
  the fixed group is allowed, and for every open descriptor the reads, writes and \<open>fsync\<close> that agree
  with the access mode the kernel reported.
\<close>

theorem sandbox_admits:
  assumes "\<And>rs c. allows rs c \<longleftrightarrow> (\<exists>r \<in> set rs. rule_matches c r)"
    and "rexec_main (linux_ops True ev h) h junk argv (rx0 env) = Exec p a e s"
  shows "(\<forall>f \<in> set free_calls.
      \<forall>args. allows (rx_ctx s) (SCall f args)) \<and>
    (\<exists>n. nfds_seen h n s \<and> (\<forall>fd. 0 \<le> fd \<and> fd < n \<longrightarrow> (\<exists>fl. reported h fd fl s \<and>
      (\<forall>f args. is_arg args 0 (datum fd) \<and> (f \<in> set reads \<and> can_read fl \<or> f \<in> set writes \<and> can_write fl \<or> f = ''fsync'') \<longrightarrow>
        allows (rx_ctx s) (SCall f args)))))"
proof -
  obtain nx where "sandboxed h ev nx s" using main_sandboxed [OF assms(2)] by blast
  then show ?thesis unfolding assms(1) by (rule sandboxed_admits)
qed

theorem sandbox_admits_witness:
  "\<exists>p a e s. rexec_main (linux_ops True False demo_host) demo_host (replicate 10 None) demo_argv (rx0 demo_env) = Exec p a e s \<and>
     (\<forall>args. filter_allows (rx_ctx s) (SCall ''clock_gettime'' args))"
proof -
  obtain p a e s where x: "rexec_main (linux_ops True False demo_host) demo_host (replicate 10 None) demo_argv (rx0 demo_env) = Exec p a e s"
    using demo_exec by blast
  have m: "filter_allows rs c \<longleftrightarrow> (\<exists>r \<in> set rs. rule_matches c r)" for rs c by (simp add: filter_allows_def list_ex_iff)
  have "''clock_gettime'' \<in> set free_calls" by (simp add: free_calls_def)
  then show ?thesis using sandbox_admits [of filter_allows, OF m x] x by blast
qed



text \<open>
  C18: With \<open>-u\<close> the program is executed only after \<open>setuid\<close> to that user succeeded, with \<open>-g\<close> only after
  \<open>setgid\<close> to that group succeeded, and with both the group was changed first, when the
  process may still be allowed to.
\<close>

theorem privileges_dropped:
  assumes "os \<in> set (layers h)" and "rexec_main os h junk (name # program # args) (rx0 env) = Exec p a e s"
    and "uuid h (rx0 env) = Done () s1" and "parse_args os h args opts0 s1 = Done (ops, rest) s2"
  shows "(o_group ops \<noteq> 0 \<longrightarrow> (\<exists>cs. done_call h cs (Ext ''setgid'' [AI (int (o_group ops))]) s \<and>
      (o_user ops \<noteq> 0 \<longrightarrow> done_call h (cs @ [Ext ''setgid'' [AI (int (o_group ops))]]) (Ext ''setuid'' [AI (int (o_user ops))]) s))) \<and>
    (o_user ops \<noteq> 0 \<longrightarrow> (\<exists>cs. done_call h cs (Ext ''setuid'' [AI (int (o_user ops))]) s))"
proof -
  obtain s3 where d: "dropped h (fst (choose_user h (o_user ops) s3)) (o_group ops) s"
    using layers_main [OF assms(1,2)] assms(3,4) unfolding executed_def by auto
  show ?thesis
  proof (cases "o_user ops = 0")
    case False
    then show ?thesis using d unfolding choose_user_given [OF False] dropped_def set_gid_def set_uid_def fst_conv by simp
  qed (use d in \<open>auto simp: dropped_def set_gid_def\<close>)
qed

theorem privileges_dropped_witness:
  "\<exists>p a e s. rexec_main (linux_ops True True demo_host) demo_host (replicate 10 None) demo_argv (rx0 demo_env) = Exec p a e s \<and>
     (\<exists>cs. done_call demo_host cs (Ext ''setgid'' [AI 6]) s \<and>
        done_call demo_host (cs @ [Ext ''setgid'' [AI 6]]) (Ext ''setuid'' [AI 5]) s)"
proof -
  obtain p a e s where x: "rexec_main (linux_ops True True demo_host) demo_host (replicate 10 None) demo_argv (rx0 demo_env) = Exec p a e s"
    using demo_exec by blast
  have u: "uuid demo_host (rx0 demo_env) = Done () (rx0 demo_env)" by (simp add: uuid_def env_get_def rx0_def demo_env_def)
  obtain ops s2 where q: "parse_args (linux_ops True True demo_host) demo_host demo_args opts0 (rx0 demo_env) = Done (ops, [''x'']) s2"
    "o_user ops = 5" "o_group ops = 6" using demo_parse by blast
  have "linux_ops True True demo_host \<in> set (layers demo_host)" by (simp add: layers_def)
  from privileges_dropped [OF this x [unfolded demo_argv_def] u q(1)] x show ?thesis unfolding q(2,3) by auto
qed


text \<open>The host of the witness runs rexec as root.\<close>

definition root_host :: rhost where
  "root_host = demo_host\<lparr>r_ans := (\<lambda>cs c. if ext_name c \<in> {''getuid'', ''geteuid'', ''getgid'', ''getegid''} then 0 else r_ans demo_host cs c)\<rparr>"


lemma mask_loop_mask: "j \<le> 32 \<Longrightarrow> mask_loop (mask j) n = n - int j"
proof (induction j arbitrary: n)
  case 0
  then show ?case by (simp add: mask_loop.simps)
next
  case (Suc j)
  have "drop_bit 1 (mask (Suc j) :: 32 word) = mask j"
    using Suc.prems by (intro bit_word_eqI) (auto simp: bit_drop_bit_eq bit_mask_iff)
  moreover have "(mask (Suc j) :: 32 word) \<noteq> 0" by (simp add: mask_eq_0_iff)
  ultimately show ?case using Suc by (simp add: mask_loop.simps [of "mask (Suc j)"])
qed

lemma not_netmask: "k \<le> 32 \<Longrightarrow> NOT (word_of_nat (2 ^ 32 - 2 ^ (32 - k)) :: 32 word) = mask (32 - k)"
proof -
  assume "k \<le> 32"
  then have "(2 :: nat) ^ (32 - k) \<le> 2 ^ 32" by (intro power_increasing) simp_all
  then have "(word_of_nat (2 ^ 32 - 2 ^ (32 - k)) :: 32 word) = - (2 ^ (32 - k))" by (simp add: of_nat_diff)
  then show ?thesis by (simp add: not_eq_complement mask_eq_exp_minus_1)
qed

text \<open>
  The prefix length that the launcher hands over for a container's interface is the one its netmask
  stands for, from 0 to 32.
\<close>

theorem netmask_prefix:
  assumes "k \<le> 32"
  shows "prefix_len (rev (enc_le 4 (2 ^ 32 - 2 ^ (32 - k)))) = int k"
proof -
  have "2 ^ 32 - 2 ^ (32 - k) < (256 :: nat) ^ 4" by simp
  then have "dec_le (enc_le 4 (2 ^ 32 - 2 ^ (32 - k))) = 2 ^ 32 - 2 ^ (32 - k)" by (rule dec_enc_le)
  then have "be32 (rev (enc_le 4 (2 ^ 32 - 2 ^ (32 - k)))) = word_of_nat (2 ^ 32 - 2 ^ (32 - k))"
    by (simp add: be32_def length_enc_le del: of_nat_diff)
  then show ?thesis using not_netmask [OF assms] mask_loop_mask [of "32 - k" 32] assms by (simp add: prefix_len_def)
qed

theorem netmask_prefix_witness: "prefix_len (rev (enc_le 4 (2 ^ 32 - 2 ^ 8))) = 24"
  using netmask_prefix [of 24] by simp

text \<open>
  On a host where no call fails, naming a disk on the command line is defined exactly while the
  table has room for another description and the path is shorter than 45 characters;
  otherwise the copy of the description leaves its array.
\<close>

theorem disk_description_bounds:
  assumes "succeeds h"
  shows "open_disk h arg mode s = Fault \<longleftrightarrow> 64 \<le> length (fdinfo_list s) \<or> 45 \<le> length arg"
  using assms
  by (auto simp: open_disk_def set_nonblock_def must_returns rdo_def rcall_def fdinfo_add_def FDINFO_MAX_def FDINFO_NAMELEN_def
      FDINFO_ENV_PREFIX_DISK_def)

theorem disk_description_bounds_witness:
  "open_disk demo_host (replicate 45 CHR ''x'') O_RDWR (rx0 []) = Fault \<and> open_disk demo_host ''disk'' O_RDWR (rx0 []) \<noteq> Fault"
  using disk_description_bounds [OF demo_succeeds(1)] by (simp add: rx0_def)

section \<open>The identifier of the run\<close>

definition hexdigits :: "nat \<Rightarrow> string \<Rightarrow> bool" where
  "hexdigits n g \<longleftrightarrow> length g = n \<and> set g \<subseteq> set ''0123456789abcdef''"

definition uuid_shape :: "string \<Rightarrow> bool" where
  "uuid_shape u \<longleftrightarrow> (\<exists>a b c d e. u = a @ ''-'' @ b @ ''-'' @ c @ ''-'' @ d @ ''-'' @ e \<and>
     hexdigits 8 a \<and> hexdigits 4 b \<and> hexdigits 4 c \<and> hexdigits 4 d \<and> hexdigits 12 e)"

lemma hex2_digits: "hexdigits 2 (hex2 b)"
proof -
  have "unat b < 256" using unsigned_less [of b] by simp
  then have i: "unat b div 16 < length ''0123456789abcdef''" "unat b mod 16 < length ''0123456789abcdef''" by simp_all
  have "length [d ! i, d ! j] = 2 \<and> set [d ! i, d ! j] \<subseteq> set d" if "i < length d" "j < length d" for d :: string and i j
    using that by simp
  from this [OF i] show ?thesis unfolding hexdigits_def hex2_def Let_def .
qed

lemma uuid_group_digits: "hexdigits (2 * n) (uuid_group n c rd)"
proof (induction n arbitrary: c)
  case (Suc n)
  then show ?case using hex2_digits [of "rd ! c"] unfolding hexdigits_def uuid_group.simps by (simp del: list.set)
qed (simp add: hexdigits_def)

text \<open>
  C40: A run that was given no identifier gives the program one of the form of a UUID: 8, 4, 4, 4 and
  12 lower case hexadecimal digits with hyphens between.
\<close>

theorem uuid_wellformed:
  assumes "uuid h s = Done () s'" and "env_get ''UUID'' s = None"
  shows "\<exists>u. env_get ''UUID'' s' = Some u \<and> uuid_shape u"
proof -
  obtain rd s1 where s': "s' = setenv ''UUID'' (uuid_string rd) False s1" "env_get ''UUID'' s1 = None"
    using assms by (auto simp: uuid_def must_def rcall_def env_get_def Let_def split: if_splits)
  have "uuid_shape (uuid_string rd)"
    using uuid_group_digits [of 4 0 rd] uuid_group_digits [of 2 4 rd] uuid_group_digits [of 2 6 rd] uuid_group_digits [of 2 8 rd]
      uuid_group_digits [of 6 10 rd] unfolding uuid_shape_def uuid_string_def by - (intro exI conjI, rule refl, simp_all)
  with s' show ?thesis by (simp add: setenv_def env_get_def env_set_lookup)
qed

definition random_host :: rhost where
  "random_host = demo_host\<lparr>r_ans := (\<lambda>cs c. if ext_name c = ''read'' then 16 else 3), r_bytes := (\<lambda>_. replicate 16 171)\<rparr>"

theorem uuid_wellformed_witness:
  "\<exists>s u. uuid random_host (rx0 []) = Done () s \<and> env_get ''UUID'' s = Some u \<and> uuid_shape u"
proof -
  obtain s where "uuid random_host (rx0 []) = Done () s"
    by (simp add: uuid_def must_def rcall_def env_get_def rx0_def random_host_def demo_host_def)
  then show ?thesis using uuid_wellformed [of random_host "rx0 []" s] by (simp add: env_get_def rx0_def)
qed

end
