(* ===== verification/Timecounter.thy ===== *)
theory Timecounter
  imports Platform_Linux "HOL-Library.Signed_Division"
begin

text \<open>
  The timecounter that the kernel gets its time from, libtc/franken_tc.c, over the clocks of the Linux
  layer.  A timecounter is a 32 bit counter and the frequency it is announced with.  The
  contents of the timespec on the stack are a parameter, as a failed reading leaves them.
\<close>

datatype modcmd = MODULE_CMD_INIT | MODULE_CMD_FINI | MODULE_CMD_STAT | MODULE_CMD_AUTOUNLOAD

record timecounter =
  tc_res :: int
  tc_frequency :: "64 word"
  tc_attached :: bool

definition franken_tc :: timecounter where
  "franken_tc = \<lparr>tc_res = 0, tc_frequency = 0, tc_attached = False\<rparr>"

definition TC_CLOCK :: int where
  "TC_CLOCK = 3"

text \<open>The count for a time; a division by zero is \<open>None\<close>.\<close>

definition tc_count :: "int \<Rightarrow> int \<times> int \<Rightarrow> 32 word option" where
  "tc_count res ts =
     (if res = 0 then None
      else Some (word_of_int (wrap64 (wrap64 (fst ts * res) + snd ts sdiv res))))"

definition franken_tc_get :: "kern \<Rightarrow> int \<times> int \<Rightarrow> timecounter \<Rightarrow> os \<Rightarrow> (32 word \<times> os) option" where
  "franken_tc_get k stack tc s =
     (let (r, s) = clock_gettime k TC_CLOCK s
      in map_option (\<lambda>n. (n, s)) (tc_count (tc_res tc) (case r of None \<Rightarrow> stack | Some ts \<Rightarrow> ts)))"

definition franken_tc_modcmd :: "kern \<Rightarrow> modcmd \<Rightarrow> timecounter \<Rightarrow> os \<Rightarrow> int \<times> timecounter \<times> os" where
  "franken_tc_modcmd k cmd tc s =
     (case cmd of
        MODULE_CMD_INIT \<Rightarrow>
          (case clock_getres k TC_CLOCK s of
             (None, s) \<Rightarrow> (errno_val ENOTTY, tc, s)
           | (Some (sec, nsec), s) \<Rightarrow>
               if sec \<noteq> 0 \<or> nsec = 0 then (errno_val ENOTTY, tc, s)
               else (0, tc\<lparr>tc_res := nsec, tc_frequency := 1000000000 div word_of_int nsec, tc_attached := True\<rparr>, s))
      | MODULE_CMD_FINI \<Rightarrow> (0, tc\<lparr>tc_attached := False\<rparr>, s)
      | _ \<Rightarrow> (errno_val ENOTTY, tc, s))"

section \<open>The rate\<close>

lemma word_of_wrap64 [simp]: "(word_of_int (wrap64 x) :: 32 word) = word_of_int x"
  by (intro bit_word_eqI) (simp add: wrap64_def bit_signed_take_bit_iff bit_word_of_int_iff min_def)

lemma tc_count_eq: "res \<noteq> 0 \<Longrightarrow> tc_count res (s, n) = Some (word_of_int (s * res) + word_of_int (n sdiv res))"
  by (simp add: tc_count_def)

lemma tc_count_second: "res \<noteq> 0 \<Longrightarrow> tc_count res (s + 1, n) = map_option (\<lambda>c. c + word_of_int res) (tc_count res (s, n))"
  by (simp add: tc_count_eq distrib_right)

text \<open>No whole number is its own complement in the billion.\<close>

lemma no_rate: "0 < r \<Longrightarrow> 1000000000 div r \<noteq> (r :: int)"
proof
  assume r: "0 < r" and e: "1000000000 div r = r"
  have "r * r + 1000000000 mod r = 1000000000" using div_mult_mod_eq [of 1000000000 r] unfolding e .
  moreover have "0 \<le> 1000000000 mod r" "1000000000 mod r < r" using r by (rule pos_mod_sign, rule pos_mod_bound)
  ultimately have "r * r \<le> 1000000000" "1000000000 < r * (r + 1)" unfolding distrib_left by linarith+
  moreover have "r \<le> 31622 \<or> 31623 \<le> r" by arith
  moreover have "r * (r + 1) \<le> 31622 * 31623" if "r \<le> 31622" using that r by (intro mult_mono) simp_all
  moreover have "31623 * 31623 \<le> r * r" if "31623 \<le> r" using that by (intro mult_mono) simp_all
  ultimately show False by auto
qed

lemma freq_word: "0 < r \<Longrightarrow> r < 1000000000 \<Longrightarrow> uint (1000000000 div word_of_int r :: 64 word) = 1000000000 div r"
  by (simp add: uint_div_distrib uint_word_of_int)

text \<open>
  C39: Whatever resolution the host's clock has, the timecounter does not run at the frequency it
  announces: from one second to the next it advances by the resolution in nanoseconds, while the
  frequency is the number of such units in a second, and the two are never equal.
\<close>

theorem timecounter_rate_wrong:
  assumes "franken_tc_modcmd k MODULE_CMD_INIT tc s = (0, tc', s')" and "snd (k_time k (os_calls s)) \<in> {1..<1000000000}"
  shows "tc_res tc' = snd (k_time k (os_calls s)) \<and> uint (tc_frequency tc') = 1000000000 div tc_res tc' \<and>
    (\<forall>sec nsec c. tc_count (tc_res tc') (sec, nsec) = Some c \<longrightarrow>
       tc_count (tc_res tc') (sec + 1, nsec) = Some (c + word_of_int (tc_res tc')) \<and>
       tc_count (tc_res tc') (sec + 1, nsec) \<noteq> Some (c + word_of_int (uint (tc_frequency tc'))))"
proof -
  let ?r = "snd (k_time k (os_calls s))"
  have r: "tc_res tc' = ?r" "tc_frequency tc' = 1000000000 div word_of_int ?r" "0 < ?r" "?r < 1000000000"
    using assms by (auto simp: franken_tc_modcmd_def clock_getres_def linux_clock_def TC_CLOCK_def Let_def split: prod.splits if_splits)
  have f: "uint (tc_frequency tc') = 1000000000 div ?r" using freq_word [OF r(3,4)] r(2) by simp
  have b: "0 \<le> 1000000000 div ?r" "1000000000 div ?r \<le> 1000000000" using r(3) zdiv_mono2 [of 1000000000 1 ?r] by (simp_all add: pos_imp_zdiv_nonneg_iff)
  have "(word_of_int ?r :: 32 word) \<noteq> word_of_int (1000000000 div ?r)"
  proof
    assume "(word_of_int ?r :: 32 word) = word_of_int (1000000000 div ?r)"
    then have "?r mod 2 ^ 32 = 1000000000 div ?r mod 2 ^ 32" by (simp add: word_of_int_eq_iff take_bit_eq_mod)
    then show False using r(3,4) b no_rate [OF r(3)] by simp
  qed
  then show ?thesis using r f by (auto simp: tc_count_second)
qed

text \<open>A host whose clock has a resolution of one nanosecond.\<close>

definition ns_kern :: kern where
  "ns_kern = \<lparr>k_sys = (\<lambda>_ _. 0), k_stat = (\<lambda>_. \<lparr>lst_mode = 0, lst_size = 0, lst_rdev = 0\<rparr>), k_family = (\<lambda>_. 0), k_hwaddr = (\<lambda>_. []), k_blksize = (\<lambda>_. 0), k_ifflags = (\<lambda>_. 0),
     k_time = (\<lambda>_. (0, 1)), k_revents = (\<lambda>_ _. 0)\<rparr>"

theorem timecounter_rate_wrong_witness:
  "\<exists>tc s. franken_tc_modcmd ns_kern MODULE_CMD_INIT franken_tc os0 = (0, tc, s) \<and> uint (tc_frequency tc) = 1000000000 \<and>
     tc_count (tc_res tc) (6, 0) = map_option (\<lambda>c. c + 1) (tc_count (tc_res tc) (5, 0))"
proof -
  obtain tc s where m: "franken_tc_modcmd ns_kern MODULE_CMD_INIT franken_tc os0 = (0, tc, s)"
    by (simp add: franken_tc_modcmd_def clock_getres_def linux_clock_def TC_CLOCK_def syscall_def raw_syscall_def syscall_ret_def ns_kern_def wrap32_def)
  from timecounter_rate_wrong [OF m] m show ?thesis by (auto simp: ns_kern_def tc_count_def)
qed

end
