(* ===== verification/Virtif.thy ===== *)
theory Virtif
  imports Timecounter
begin

text \<open>
  The network interface \<open>virt\<close>: its kernel half, libvirtif/if_virt.c, its host half,
  libvirtif/virtif_user.c, and the calls of librumpuser/rumpuser_component.c that enter and leave the
  kernel.  The interface is built without link strings (\<open>RUMP_VIF_LINKSTR\<close>).

  A packet to send is the list of the contents of its mbufs.  Functions of the kernel and of the host
  are calls, answered by a parameter; \<open>m_copyback\<close> is the parameter \<open>cb\<close>, which gives the contents of
  the packet after the copy.  Fields of the interface and of an mbuf that are set here and read only by
  the kernel (type, MTU, capabilities, checksum flags, receiving interface) are left out.
  \<open>None\<close> is a panic, an access to a null pointer or one outside of an array.
\<close>

section \<open>Entering and leaving the kernel\<close>

definition kdo :: "answers \<Rightarrow> ext \<Rightarrow> ext list \<Rightarrow> int \<times> ext list" where
  "kdo a c cs = (a cs c, cs @ [c])"

definition rumpuser_component_unschedule :: "answers \<Rightarrow> ext list \<Rightarrow> int \<times> ext list" where
  "rumpuser_component_unschedule a cs = kdo a (Ext ''hyp_backend_unschedule'' [AI 0]) cs"

definition rumpuser_component_schedule :: "answers \<Rightarrow> int \<Rightarrow> ext list \<Rightarrow> ext list" where
  "rumpuser_component_schedule a cookie cs = snd (kdo a (Ext ''hyp_backend_schedule'' [AI (wrap32 cookie)]) cs)"

text \<open>A call of the kernel by a thread of the host, which enters the kernel for it.\<close>

definition in_kernel :: "answers \<Rightarrow> ext \<Rightarrow> ext list \<Rightarrow> int \<times> ext list" where
  "in_kernel a c cs =
     (let cs = snd (kdo a (Ext ''hyp_schedule'' []) cs);
          (r, cs) = kdo a c cs
      in (r, snd (kdo a (Ext ''hyp_unschedule'' []) cs)))"

definition rumpuser_component_kthread :: "answers \<Rightarrow> ext list \<Rightarrow> ext list" where
  "rumpuser_component_kthread a cs = snd (in_kernel a (Ext ''hyp_lwproc_newlwp'' [AI 0]) cs)"

definition rumpuser_component_curlwp :: "answers \<Rightarrow> ext list \<Rightarrow> int \<times> ext list" where
  "rumpuser_component_curlwp a cs = in_kernel a (Ext ''hyp_lwproc_curlwp'' []) cs"

definition rumpuser_component_switchlwp :: "answers \<Rightarrow> int \<Rightarrow> ext list \<Rightarrow> ext list" where
  "rumpuser_component_switchlwp a l cs = snd (in_kernel a (Ext ''hyp_lwproc_switch'' [AI l]) cs)"

definition rumpuser_component_kthread_release :: "answers \<Rightarrow> ext list \<Rightarrow> ext list" where
  "rumpuser_component_kthread_release a cs = snd (in_kernel a (Ext ''hyp_lwproc_release'' []) cs)"

definition rumpuser_component_errtrans :: "int \<Rightarrow> int" where
  "rumpuser_component_errtrans hosterr = hosterr"

section \<open>The host half\<close>

record virtif_user =
  viu_rcvthr :: int
  viu_devnum :: int
  viu_fd :: int
  viu_dying :: bool

text \<open>
  What the receiving thread does, and how it ends: it makes itself a thread of the kernel, puts itself
  down as the thread to wake for its descriptor, and enters the kernel to sleep and to deliver.
\<close>

datatype rcv_act = RKthread | RWake int int | RSchedule | RSleep | RDeliver bytes | RUnschedule | RRelease

datatype rcv_end = Running | Released | Asserted

text \<open>
  The loop on what it meets in its rounds: whether the interface is dying at the test of the loop,
  and what \<open>read\<close> then returns, leaves in \<open>errno\<close> and in the buffer.  The other threads run in between.
\<close>

type_synonym rcv_round = "bool \<times> int \<times> int \<times> bytes"

fun rcv_loop :: "rcv_round list \<Rightarrow> rcv_act list \<times> rcv_end" where
  "rcv_loop [] = ([], Running)"
| "rcv_loop ((dying, nn, err, buf) # rs) =
     (if dying then ([RRelease], Released)
      else if nn = 0 \<or> nn = - 1 \<and> err = errno_val EAGAIN then
        (let (as, e) = rcv_loop rs in ([RSchedule, RSleep, RUnschedule] @ as, e))
      else if nn = - 1 then ([], Asserted)
      else (let (as, e) = rcv_loop rs in ([RSchedule, RDeliver (take (nat nn) buf), RUnschedule] @ as, e)))"

text \<open>\<open>rcvthread\<close>; the descriptor is an index of the table \<open>__franken_fd\<close>.\<close>

definition rcvthread :: "virtif_user \<Rightarrow> rcv_round list \<Rightarrow> (rcv_act list \<times> rcv_end) option" where
  "rcvthread viu rs =
     (if 0 \<le> viu_fd viu \<and> viu_fd viu < int MAXFD
      then let (as, e) = rcv_loop rs in Some ([RKthread, RWake (viu_fd viu) (viu_rcvthr viu)] @ as, e)
      else None)"

text \<open>\<open>rumpns_virt_hwaddr\<close>; the caller's array \<open>hwaddr\<close> keeps its contents when the name is not one of a \<open>virt\<close>.\<close>

definition rumpns_virt_hwaddr :: "fdtable list \<Rightarrow> string \<Rightarrow> bytes \<Rightarrow> (int \<times> bytes) option" where
  "rumpns_virt_hwaddr fds ifname hwaddr =
     do {
       n \<leftarrow> strlen ifname;
       if n < 5 then Some (- 1, hwaddr)
       else do {
         c \<leftarrow> strncmp ifname (cstring ''virt'') 4;
         if c \<noteq> 0 then Some (- 1, hwaddr)
         else do {
           fd \<leftarrow> atoi (drop 4 ifname);
           if 0 \<le> fd \<and> fd < int (length fds)
           then Some (0, (take 6 (st_hwaddr (fd_st (fds ! nat fd)))) [5 := 2])
           else None
         }
       }
     }"

definition VIFHYPER_CREATE :: "answers \<Rightarrow> string \<Rightarrow> ext list \<Rightarrow> ((int + virtif_user) \<times> ext list) option" where
  "VIFHYPER_CREATE a devstr cs =
     (let (cookie, cs) = rumpuser_component_unschedule a cs
      in do {
           devnum \<leftarrow> atoi devstr;
           let (viu, cs) = kdo a (Ext ''calloc'' [AI 1]) cs;
           if viu = 0 then
             (let (rv, cs) = kdo a (Ext ''errno'' []) cs in Some (Inl rv, rumpuser_component_schedule a cookie cs))
           else
             (let (thr, cs) = kdo a (Ext ''create_thread'' [AS (cstr devstr)]) cs
              in if thr = 0 then
                   Some (Inl (errno_val ENOMEM), rumpuser_component_schedule a cookie (snd (kdo a (Ext ''free'' [AI viu]) cs)))
                 else
                   Some (Inr \<lparr>viu_rcvthr = thr, viu_devnum = devnum, viu_fd = devnum, viu_dying = False\<rparr>,
                     rumpuser_component_schedule a cookie cs))
         })"

text \<open>\<open>VIFHYPER_SEND\<close>: the packets are what \<open>writev\<close> is given.\<close>

definition VIFHYPER_SEND :: "answers \<Rightarrow> virtif_user \<Rightarrow> bytes list \<Rightarrow> ext list \<Rightarrow> (int \<times> bytes list) \<times> ext list" where
  "VIFHYPER_SEND a viu iov cs =
     (let (cookie, cs) = rumpuser_component_unschedule a cs;
          (ret, cs) = kdo a (Ext ''writev'' [AI (viu_fd viu), AI (int (length iov))]) cs
      in ((viu_fd viu, iov), rumpuser_component_schedule a cookie cs))"

definition VIFHYPER_DYING :: "virtif_user \<Rightarrow> int \<times> virtif_user" where
  "VIFHYPER_DYING viu = (0, viu\<lparr>viu_dying := True\<rparr>)"

definition VIFHYPER_DESTROY :: "answers \<Rightarrow> virtif_user \<Rightarrow> ext list \<Rightarrow> ext list" where
  "VIFHYPER_DESTROY a viu cs =
     (let (cookie, cs) = rumpuser_component_unschedule a cs;
          cs = snd (kdo a (Ext ''join_thread'' [AI (viu_rcvthr viu)]) cs);
          cs = snd (kdo a (Ext ''free'' []) cs)
      in rumpuser_component_schedule a cookie cs)"

section \<open>The kernel half\<close>

definition IFF_UP :: "16 word" where "IFF_UP = 0x1"
definition IFF_BROADCAST :: "16 word" where "IFF_BROADCAST = 0x2"
definition IFF_RUNNING :: "16 word" where "IFF_RUNNING = 0x40"
definition IFF_PROMISC :: "16 word" where "IFF_PROMISC = 0x100"
definition IFF_OACTIVE :: "16 word" where "IFF_OACTIVE = 0x400"
definition IFF_SIMPLEX :: "16 word" where "IFF_SIMPLEX = 0x800"
definition IFF_MULTICAST :: "16 word" where "IFF_MULTICAST = 0x8000"

text \<open>
  The interface with its softc.  \<open>if_sent\<close> and \<open>if_up\<close> record the packets given to the host and to
  \<open>if_input\<close>, the latter with the mark for promiscuous mode; \<open>sc_freed\<close> that the softc, which
  holds the interface, was freed, and \<open>if_after\<close> the uses of the interface after that.
\<close>

record ifnet =
  if_xname :: string
  if_flags :: "16 word"
  if_sadl :: bytes
  if_snd :: "bytes list list"
  if_opackets :: "64 word"
  if_ipackets :: "64 word"
  sc_num :: int
  sc_linkstr :: "string option"
  sc_viu :: "virtif_user option"
  if_sent :: "(int \<times> bytes list) list"
  if_up :: "(bool \<times> bytes) list"
  sc_freed :: bool
  if_after :: "string list"
  if_calls :: "ext list"

definition virtif_create :: "answers \<Rightarrow> fdtable list \<Rightarrow> bytes \<Rightarrow> ifnet \<Rightarrow> (int \<times> ifnet) option" where
  "virtif_create a fds enaddr ifp =
     (if sc_viu ifp \<noteq> None then None
      else do {
        (_, enaddr) \<leftarrow> rumpns_virt_hwaddr fds (if_xname ifp) enaddr;
        linkstr \<leftarrow> sc_linkstr ifp;
        (r, cs) \<leftarrow> VIFHYPER_CREATE a linkstr (if_calls ifp);
        case r of
          Inl error \<Rightarrow> Some (error, ifp\<lparr>if_calls := cs\<rparr>)
        | Inr viu \<Rightarrow>
            Some (0, ifp\<lparr>sc_viu := Some viu, if_sadl := enaddr, if_calls := snd (kdo a (Ext ''ether_ifattach'' []) cs)\<rparr>)
      })"

definition LINKSTRNUMLEN :: nat where
  "LINKSTRNUMLEN = 16"

text \<open>\<open>virtif_clone\<close>: on an error the interface is written to after it was freed.\<close>

definition virtif_clone :: "answers \<Rightarrow> fdtable list \<Rightarrow> bytes \<Rightarrow> int \<Rightarrow> (int \<times> ifnet) option" where
  "virtif_clone a fds enaddr num =
     do {
       let ifp = \<lparr>if_xname = cstring (''virt'' @ dec_int num), if_flags = IFF_BROADCAST OR IFF_SIMPLEX OR IFF_MULTICAST,
             if_sadl = [], if_snd = [], if_opackets = 0, if_ipackets = 0, sc_num = num,
             sc_linkstr = Some (cstring (take (LINKSTRNUMLEN - 1) (dec_int num))), sc_viu = None, if_sent = [], if_up = [],
             sc_freed = False, if_after = [], if_calls = [Ext ''if_attach'' []]\<rparr>;
       (error, ifp) \<leftarrow> virtif_create a fds enaddr ifp;
       if error = 0 then Some (0, ifp)
       else Some (error, ifp\<lparr>sc_freed := True, if_after := [''if_softc''],
              if_calls := if_calls ifp @ [Ext ''if_detach'' [], Ext ''kmem_free'' []]\<rparr>)
     }"

definition virtif_stop :: "ifnet \<Rightarrow> ifnet" where
  "virtif_stop ifp = ifp\<lparr>if_flags := if_flags ifp AND NOT IFF_RUNNING\<rparr>"

text \<open>\<open>virtif_unclone\<close>: the interface is handed to both detach functions after it was freed.\<close>

definition virtif_unclone :: "answers \<Rightarrow> ifnet \<Rightarrow> (int \<times> ifnet) option" where
  "virtif_unclone a ifp =
     (if if_flags ifp AND IFF_UP \<noteq> 0 then Some (errno_val EBUSY, ifp)
      else do {
        viu \<leftarrow> sc_viu ifp;
        let (rv, viu) = VIFHYPER_DYING viu;
        if rv \<noteq> 0 then Some (rv, ifp\<lparr>sc_viu := Some viu\<rparr>)
        else
          let ifp = virtif_stop ifp;
              cs = VIFHYPER_DESTROY a viu (if_calls ifp @ [Ext ''if_down'' []])
          in Some (0, ifp\<lparr>sc_viu := Some viu, sc_freed := True, if_after := if_after ifp @ [''ether_ifdetach'', ''if_detach''],
               if_calls := cs @ [Ext ''kmem_free'' [], Ext ''ether_ifdetach'' [], Ext ''if_detach'' []]\<rparr>)
      })"

definition virtif_init :: "ifnet \<Rightarrow> int \<times> ifnet" where
  "virtif_init ifp =
     (if sc_viu ifp = None then (errno_val ENXIO, ifp) else (0, ifp\<lparr>if_flags := if_flags ifp OR IFF_RUNNING\<rparr>))"

definition virtif_ioctl :: "answers \<Rightarrow> int \<Rightarrow> ifnet \<Rightarrow> int \<times> ifnet" where
  "virtif_ioctl a cmd ifp =
     (let (rv, cs) = (if sc_linkstr ifp = None then (errno_val ENXIO, if_calls ifp)
                      else kdo a (Ext ''ether_ioctl'' [AI cmd]) (if_calls ifp))
      in (if rv = errno_val ENETRESET then 0 else rv, ifp\<lparr>if_calls := cs\<rparr>))"

definition LB_SH :: nat where
  "LB_SH = 32"

text \<open>The loop over the mbufs of a packet: the vector, and the mbufs that are left.\<close>

fun gather :: "nat \<Rightarrow> bytes list \<Rightarrow> bytes list \<times> bytes list" where
  "gather i [] = ([], [])"
| "gather i (m # ms) =
     (if LB_SH \<le> i then ([], m # ms)
      else if m \<noteq> [] then (let (io, rest) = gather (i + 1) ms in (m # io, rest))
      else gather i ms)"

text \<open>The loop over the queue, which is given as the argument.\<close>

fun start_loop :: "answers \<Rightarrow> bytes list list \<Rightarrow> ifnet \<Rightarrow> ifnet option" where
  "start_loop a [] ifp = Some (ifp\<lparr>if_snd := []\<rparr>)"
| "start_loop a (m0 # q) ifp =
     (let (io, m) = gather 0 m0
      in if length io = LB_SH \<and> m \<noteq> [] then None
         else case sc_viu ifp of
                None \<Rightarrow> None
              | Some viu \<Rightarrow>
                  let (pkt, cs) = VIFHYPER_SEND a viu io (if_calls ifp @ [Ext ''bpf_mtap'' []])
                  in start_loop a q (ifp\<lparr>if_sent := if_sent ifp @ [pkt], if_opackets := if_opackets ifp + 1,
                       if_calls := cs @ [Ext ''m_freem'' []]\<rparr>))"

definition virtif_start :: "answers \<Rightarrow> ifnet \<Rightarrow> ifnet option" where
  "virtif_start a ifp =
     map_option (\<lambda>ifp. ifp\<lparr>if_flags := if_flags ifp AND NOT IFF_OACTIVE\<rparr>)
       (start_loop a (if_snd ifp) (ifp\<lparr>if_flags := if_flags ifp OR IFF_OACTIVE\<rparr>))"

text \<open>\<open>ALIGN\<close> of the 14 bytes of an Ethernet header, less these bytes.\<close>

definition pkt_align :: nat where
  "pkt_align = 2"

fun copy_loop :: "(bytes \<Rightarrow> nat \<Rightarrow> bytes \<Rightarrow> bytes) \<Rightarrow> bytes list \<Rightarrow> nat \<Rightarrow> bytes \<Rightarrow> bytes option" where
  "copy_loop cb [] off m = Some m"
| "copy_loop cb (x # iov) off m =
     (let olen = length m; m = cb m off x; off = off + length x
      in if olen + off \<noteq> length m then None else copy_loop cb iov off m)"

text \<open>Whether a frame with the header \<open>hdr\<close> is passed up, and if so with the mark for promiscuous mode.\<close>

definition passup :: "ifnet \<Rightarrow> bytes \<Rightarrow> bool option" where
  "passup ifp hdr =
     (if take 6 hdr = if_sadl ifp then Some False
      else if bit (hd hdr) 0 then Some False
      else if if_flags ifp AND IFF_PROMISC \<noteq> 0 then Some True
      else None)"

text \<open>\<open>VIF_DELIVERPKT\<close>; the header is read from the packet and the memory behind it, \<open>stale\<close>.\<close>

definition VIF_DELIVERPKT :: "answers \<Rightarrow> (bytes \<Rightarrow> nat \<Rightarrow> bytes \<Rightarrow> bytes) \<Rightarrow> bytes \<Rightarrow> bytes list \<Rightarrow> ifnet \<Rightarrow> ifnet" where
  "VIF_DELIVERPKT a cb stale iov ifp =
     (if if_flags ifp AND IFF_RUNNING = 0 then ifp
      else
        let (m, cs) = kdo a (Ext ''m_gethdr'' []) (if_calls ifp); ifp = ifp\<lparr>if_calls := cs\<rparr>
        in if m = 0 then ifp
           else case copy_loop cb iov pkt_align [] of
                  None \<Rightarrow> ifp\<lparr>if_calls := cs @ [Ext ''m_freem'' []]\<rparr>
                | Some pkt \<Rightarrow>
                    (case passup ifp (drop pkt_align pkt @ stale) of
                       None \<Rightarrow> ifp\<lparr>if_calls := cs @ [Ext ''m_freem'' []]\<rparr>
                     | Some promisc \<Rightarrow>
                         ifp\<lparr>if_ipackets := if_ipackets ifp + 1, if_up := if_up ifp @ [(promisc, drop pkt_align pkt)],
                           if_calls := cs @ [Ext ''KERNEL_LOCK'' [], Ext ''bpf_mtap'' [], Ext ''if_input'' [], Ext ''KERNEL_UNLOCK_LAST'' []]\<rparr>))"

definition VIF_MODCMD :: "modcmd \<Rightarrow> ext list \<Rightarrow> int \<times> ext list" where
  "VIF_MODCMD cmd cs =
     (case cmd of MODULE_CMD_INIT \<Rightarrow> (0, cs @ [Ext ''if_clone_attach'' []]) | _ \<Rightarrow> (errno_val ENOTTY, cs))"

section \<open>Sending\<close>

text \<open>The packets on which the vector is too short: mbufs follow the one that fills it.\<close>

definition too_long :: "bytes list \<Rightarrow> bool" where
  "too_long p \<longleftrightarrow> (\<exists>pre m post. p = pre @ m # post \<and> length (filter (\<lambda>m. m \<noteq> []) pre) = LB_SH)"

definition fills :: "nat \<Rightarrow> bytes list \<Rightarrow> bool" where
  "fills n p \<longleftrightarrow> (\<exists>pre m post. p = pre @ m # post \<and> length (filter (\<lambda>m. m \<noteq> []) pre) = n)"

lemma fills_Nil [simp]: "\<not> fills n []"
  by (simp add: fills_def)

lemma fills_0 [simp]: "fills 0 (x # p)"
  unfolding fills_def by (rule exI [of _ "[]"]) simp

lemma fills_Suc: "fills (Suc n) (x # p) \<longleftrightarrow> fills (if x = [] then Suc n else n) p"
proof
  assume "fills (Suc n) (x # p)"
  then obtain pre m post where e: "x # p = pre @ m # post" "length (filter (\<lambda>m. m \<noteq> []) pre) = Suc n" by (auto simp: fills_def)
  then obtain pre' where "pre = x # pre'" by (cases pre) auto
  with e show "fills (if x = [] then Suc n else n) p" unfolding fills_def by (cases "x = []") auto
next
  assume "fills (if x = [] then Suc n else n) p"
  then obtain pre m post where "p = pre @ m # post" "length (filter (\<lambda>m. m \<noteq> []) pre) = (if x = [] then Suc n else n)"
    by (auto simp: fills_def)
  then show "fills (Suc n) (x # p)" unfolding fills_def by (intro exI [of _ "x # pre"] exI [of _ m] exI [of _ post]) auto
qed

lemma gather_spec:
  "i \<le> LB_SH \<Longrightarrow> (snd (gather i ms) \<noteq> [] \<longleftrightarrow> fills (LB_SH - i) ms) \<and>
     filter (\<lambda>m. m \<noteq> []) ms = fst (gather i ms) @ filter (\<lambda>m. m \<noteq> []) (snd (gather i ms)) \<and>
     (snd (gather i ms) \<noteq> [] \<longrightarrow> length (fst (gather i ms)) = LB_SH - i)"
proof (induction i ms rule: gather.induct)
  case (2 i m ms)
  show ?case
  proof (cases "i = LB_SH")
    case False
    then obtain n where n: "LB_SH - i = Suc n" "LB_SH - (i + 1) = n" "\<not> LB_SH \<le> i" "i + 1 \<le> LB_SH"
      using 2(3) by (cases "LB_SH - i") auto
    show ?thesis using 2 n by (cases "m = []") (simp_all add: fills_Suc split_beta)
  qed simp
qed simp

lemma too_long_fills: "too_long p \<longleftrightarrow> fills LB_SH p"
  by (simp add: too_long_def fills_def)

lemma gather_too_long: "length (fst (gather 0 p)) = LB_SH \<and> snd (gather 0 p) \<noteq> [] \<longleftrightarrow> too_long p"
  using gather_spec [of 0 p] by (auto simp: too_long_fills)

lemma gather_all: "\<not> too_long p \<Longrightarrow> fst (gather 0 p) = filter (\<lambda>m. m \<noteq> []) p"
  using gather_spec [of 0 p] by (simp add: too_long_fills)

lemma start_loop_spec:
  "sc_viu ifp = Some viu \<Longrightarrow>
     (start_loop a q ifp = None \<longleftrightarrow> (\<exists>p \<in> set q. too_long p)) \<and>
     (\<forall>ifp'. start_loop a q ifp = Some ifp' \<longrightarrow>
        if_snd ifp' = [] \<and> if_sent ifp' = if_sent ifp @ map (\<lambda>p. (viu_fd viu, filter (\<lambda>m. m \<noteq> []) p)) q \<and>
        if_opackets ifp' = if_opackets ifp + word_of_nat (length q) \<and> if_flags ifp' = if_flags ifp \<and> sc_viu ifp' = Some viu)"
proof (induction q arbitrary: ifp)
  case (Cons p q)
  obtain io m where g: "gather 0 p = (io, m)" by force
  show ?case
  proof (cases "too_long p")
    case True
    then show ?thesis using gather_too_long [of p] g by simp
  next
    case False
    let ?ifp = "ifp\<lparr>if_sent := if_sent ifp @ [(viu_fd viu, io)], if_opackets := if_opackets ifp + 1,
      if_calls := snd (VIFHYPER_SEND a viu io (if_calls ifp @ [Ext ''bpf_mtap'' []])) @ [Ext ''m_freem'' []]\<rparr>"
    have s: "start_loop a (p # q) ifp = start_loop a q ?ifp"
      using False gather_too_long [of p] g Cons.prems by (auto simp: VIFHYPER_SEND_def split_beta Let_def)
    have io: "io = filter (\<lambda>m. m \<noteq> []) p" using gather_all [OF False] g by simp
    define j where "j = ?ifp"
    have j: "if_sent j = if_sent ifp @ [(viu_fd viu, filter (\<lambda>m. m \<noteq> []) p)]" "if_opackets j = if_opackets ifp + 1"
      "if_flags j = if_flags ifp" "sc_viu j = Some viu"
      using Cons.prems unfolding j_def io by simp_all
    show ?thesis unfolding s j_def [symmetric] using Cons.IH [of j] j False by (simp add: algebra_simps)
  qed
qed simp

section \<open>Properties\<close>

text \<open>
  C22: Starting the output sends every queued packet once and in order, each as the vector of its mbufs
  that are not empty, counts them, and leaves the queue empty and the interface not active.  It panics
  exactly when some packet has an mbuf, be it an empty one, behind 32 that are not empty.
\<close>

theorem virtif_start_sends:
  assumes "sc_viu ifp = Some viu"
  shows "(virtif_start a ifp = None \<longleftrightarrow> (\<exists>p \<in> set (if_snd ifp). too_long p)) \<and>
    (\<forall>ifp'. virtif_start a ifp = Some ifp' \<longrightarrow>
       if_snd ifp' = [] \<and> if_sent ifp' = if_sent ifp @ map (\<lambda>p. (viu_fd viu, filter (\<lambda>m. m \<noteq> []) p)) (if_snd ifp) \<and>
       if_opackets ifp' = if_opackets ifp + word_of_nat (length (if_snd ifp)) \<and>
       if_flags ifp' = if_flags ifp AND NOT IFF_OACTIVE)"
proof -
  define j where "j = ifp\<lparr>if_flags := if_flags ifp OR IFF_OACTIVE\<rparr>"
  have j: "sc_viu j = Some viu" "if_sent j = if_sent ifp" "if_opackets j = if_opackets ifp" "if_flags j = if_flags ifp OR IFF_OACTIVE"
    using assms by (simp_all add: j_def)
  have f: "(if_flags ifp OR IFF_OACTIVE) AND NOT IFF_OACTIVE = if_flags ifp AND NOT IFF_OACTIVE"
    by (intro bit_word_eqI) (auto simp: bit_and_iff bit_or_iff bit_not_iff)
  show ?thesis
    unfolding virtif_start_def j_def [symmetric]
    using start_loop_spec [OF j(1), of a "if_snd ifp"] j(2-) f by (cases "start_loop a (if_snd ifp) j") simp_all
qed

definition demo_if :: ifnet where
  "demo_if =
     \<lparr>if_xname = cstring ''virt4'', if_flags = IFF_RUNNING, if_sadl = [2, 0, 0, 0, 0, 2], if_snd = [[[1, 2], [], [3]], [[4]]],
      if_opackets = 0, if_ipackets = 0, sc_num = 4, sc_linkstr = Some (cstring ''4''),
      sc_viu = Some \<lparr>viu_rcvthr = 1, viu_devnum = 4, viu_fd = 4, viu_dying = False\<rparr>, if_sent = [], if_up = [], sc_freed = False,
      if_after = [], if_calls = []\<rparr>"

lemma short_not_too_long: "length p \<le> LB_SH \<Longrightarrow> \<not> too_long p"
proof
  assume l: "length p \<le> LB_SH" and "too_long p"
  then obtain pre m post where p: "p = pre @ m # post" "length (filter (\<lambda>m. m \<noteq> []) pre) = LB_SH" by (auto simp: too_long_def)
  with l length_filter_le [of "\<lambda>m. m \<noteq> []" pre] show False by simp
qed

theorem virtif_start_sends_witness:
  "\<exists>ifp. virtif_start (\<lambda>_ _. 0) demo_if = Some ifp \<and> if_snd ifp = [] \<and> if_sent ifp = [(4, [[1, 2], [3]]), (4, [[4]])]"
proof -
  have v: "sc_viu demo_if = Some \<lparr>viu_rcvthr = 1, viu_devnum = 4, viu_fd = 4, viu_dying = False\<rparr>"
    and q: "if_snd demo_if = [[[1, 2], [], [3]], [[4]]]" "if_sent demo_if = []" by (simp_all add: demo_if_def)
  have "\<not> (\<exists>p \<in> set (if_snd demo_if). too_long p)" by (simp add: q short_not_too_long LB_SH_def)
  then obtain ifp where "virtif_start (\<lambda>_ _. 0) demo_if = Some ifp" using virtif_start_sends [OF v] by blast
  then show ?thesis using virtif_start_sends [OF v, of "\<lambda>_ _. 0"] q by simp
qed

lemma copy_loop_two:
  assumes "m \<noteq> []" and "length m \<le> off" and "\<And>m off x. length m \<le> off \<Longrightarrow> length (cb m off x) \<le> off + length x"
  shows "copy_loop cb (y # iov) off m = None"
  using assms(1) assms(3) [OF assms(2), of y] by (cases m) (auto simp: Let_def)

lemma copy_loop_many:
  assumes "\<And>m off x. length m \<le> off \<Longrightarrow> length (cb m off x) \<le> off + length x"
  shows "copy_loop cb (x # y # iov) pkt_align [] = None"
proof (cases "pkt_align + length x = length (cb [] pkt_align x)")
  case True
  then have "cb [] pkt_align x \<noteq> []" by (auto simp: pkt_align_def)
  with True show ?thesis using copy_loop_two [of "cb [] pkt_align x" "pkt_align + length x" cb] assms by (simp add: Let_def)
qed simp

text \<open>
  C23: A running interface passes a received frame up unchanged when it is for its address, a group
  address or, marked, when it is in promiscuous mode, and no other frame; this is for a frame in one
  piece, as the receiving thread has it.  A frame in several pieces is always dropped.  What
  \<open>m_copyback\<close> does is a hypothesis: it extends the packet by zeros up to the offset and
  by the bytes copied.
\<close>

theorem deliver_contract:
  assumes "\<And>m off x. length m \<le> off \<Longrightarrow> cb m off x = m @ replicate (off - length m) 0 @ x"
    and "if_flags ifp AND IFF_RUNNING \<noteq> 0" and "a (if_calls ifp) (Ext ''m_gethdr'' []) \<noteq> 0" and "6 \<le> length frame"
  shows "if_up (VIF_DELIVERPKT a cb stale [frame] ifp) = if_up ifp @
      (if take 6 frame = if_sadl ifp \<or> bit (hd frame) 0 then [(False, frame)]
       else if if_flags ifp AND IFF_PROMISC \<noteq> 0 then [(True, frame)] else []) \<and>
    (2 \<le> length iov \<longrightarrow> if_up (VIF_DELIVERPKT a cb stale iov ifp) = if_up ifp)"
proof -
  have c: "copy_loop cb [frame] pkt_align [] = Some (replicate pkt_align 0 @ frame)" by (simp add: assms(1) Let_def)
  have p: "passup ifp' (frame @ stale) = (if take 6 frame = if_sadl ifp' \<or> bit (hd frame) 0 then Some False
      else if if_flags ifp' AND IFF_PROMISC \<noteq> 0 then Some True else None)" for ifp'
    using assms(4) by (cases frame) (auto simp: passup_def)
  have "copy_loop cb iov pkt_align [] = None" if l: "2 \<le> length iov"
  proof -
    from l obtain x y iov' where "iov = x # y # iov'" by (cases iov; cases "tl iov") auto
    then show ?thesis using copy_loop_many [of cb x y iov'] assms(1) by simp
  qed
  with c p assms(2,3) show ?thesis by (simp add: VIF_DELIVERPKT_def kdo_def)
qed

theorem deliver_contract_witness:
  "if_up (VIF_DELIVERPKT (\<lambda>_ _. 1) (\<lambda>m off x. m @ replicate (off - length m) 0 @ x) [] [[2, 0, 0, 0, 0, 2, 7]] demo_if) =
     [(False, [2, 0, 0, 0, 0, 2, 7])]"
  using deliver_contract [of "\<lambda>m off x. m @ replicate (off - length m) 0 @ x" demo_if "\<lambda>_ _. 1" "[2, 0, 0, 0, 0, 2, 7]" "[]" "[]"]
  by (simp add: demo_if_def IFF_RUNNING_def)

section \<open>The receiving thread\<close>

fun healthy :: "rcv_round \<Rightarrow> bool" where
  "healthy (dying, nn, err, buf) \<longleftrightarrow> \<not> dying \<and> (nn = - 1 \<longrightarrow> err = errno_val EAGAIN)"

lemma rcv_loop_end:
  "snd (rcv_loop rs) = (case dropWhile healthy rs of [] \<Rightarrow> Running | r # _ \<Rightarrow> if fst r then Released else Asserted)"
  by (induction rs rule: rcv_loop.induct) (auto simp: split_beta)

fun frame_of :: "rcv_act \<Rightarrow> bytes list" where
  "frame_of (RDeliver f) = [f]"
| "frame_of _ = []"

lemma rcv_loop_frames:
  "concat (map frame_of (fst (rcv_loop rs))) =
     map (\<lambda>(_, nn, _, buf). take (nat nn) buf) (filter (\<lambda>(_, nn, _, _). nn \<noteq> 0 \<and> nn \<noteq> - 1) (takeWhile healthy rs))"
  by (induction rs rule: rcv_loop.induct) (auto simp: split_beta)

section \<open>A new interface\<close>

lemma dec_nat_nul_free: "nul_free (dec_nat n)"
  using dec_nat_digits [of n] by (auto simp: nul_free_def isdigit_def)

lemma atoi_dec_nat: "n < 2 ^ 31 \<Longrightarrow> atoi (dec_nat n @ [NUL]) = Some (int n)"
  using atoi_dec_int [of "int n" NUL "[]"] by (simp add: dec_int_def isdigit_def)

lemma hwaddr_of_virt:
  assumes "n < length fds" and "length fds \<le> MAXFD"
  shows "rumpns_virt_hwaddr fds (cstring (''virt'' @ dec_nat n)) e = Some (0, (take 6 (st_hwaddr (fd_st (fds ! n)))) [5 := 2])"
proof -
  have v: "nul_free (''virt'' @ dec_nat n)" "nul_free ''virt''" using dec_nat_nul_free by simp_all
  have l: "strlen (cstring (''virt'' @ dec_nat n)) = Some (4 + length (dec_nat n))"
    using strlen_cstring [OF v(1), of "[]"] by (simp add: cstring_def)
  have "1 \<le> length (dec_nat n)" by (simp add: Suc_le_eq)
  moreover have "strncmp (cstring (''virt'' @ dec_nat n)) (cstring ''virt'') 4 = Some 0"
    using strncmp_prefix [OF _ v, of 4 "[]" "[]"] by (auto simp: cstring_def)
  moreover have "atoi (drop 4 (cstring (''virt'' @ dec_nat n))) = Some (int n)"
    using atoi_dec_nat [of n] assms by (simp add: cstring_def MAXFD_def)
  ultimately show ?thesis using l assms by (simp add: rumpns_virt_hwaddr_def)
qed

text \<open>
  C33: Creating the interface \<open>virt\<close>\<open>n\<close> for an entry \<open>n\<close> of the descriptor table, when memory and a
  thread can be had, gives an interface that sends on descriptor \<open>n\<close> and has the hardware address
  of that entry with 2 as its last byte; the number went through a decimal string twice.
\<close>

theorem virtif_clone_attaches:
  assumes "n < length fds" and "length fds \<le> MAXFD" and "\<And>cs. a cs (Ext ''calloc'' [AI 1]) \<noteq> 0"
    and "\<And>cs d. a cs (Ext ''create_thread'' [AS d]) \<noteq> 0"
  shows "\<exists>ifp viu. virtif_clone a fds stack (int n) = Some (0, ifp) \<and> sc_viu ifp = Some viu \<and> viu_fd viu = int n \<and> \<not> viu_dying viu \<and>
    if_sadl ifp = (take 6 (st_hwaddr (fd_st (fds ! n)))) [5 := 2] \<and> if_flags ifp AND IFF_RUNNING = 0 \<and> if_after ifp = []"
proof -
  have n: "n < 100" using assms(1,2) by (simp add: MAXFD_def)
  have s: "take (LINKSTRNUMLEN - 1) (dec_nat n) = dec_nat n" using dec_nat_short [OF n] by (simp add: LINKSTRNUMLEN_def)
  have d: "dec_int (int n) = dec_nat n" by (simp add: dec_int_def)
  have "atoi (cstring (dec_nat n)) = Some (int n)" using atoi_dec_nat [of n] n by (simp add: cstring_def)
  then have c: "\<exists>thr cs'. VIFHYPER_CREATE a (cstring (dec_nat n)) cs =
      Some (Inr \<lparr>viu_rcvthr = thr, viu_devnum = int n, viu_fd = int n, viu_dying = False\<rparr>, cs')" for cs
    using assms(3,4) by (simp add: VIFHYPER_CREATE_def rumpuser_component_unschedule_def kdo_def)
  obtain thr cs' where "VIFHYPER_CREATE a (cstring (dec_nat n)) [Ext ''if_attach'' []] =
      Some (Inr \<lparr>viu_rcvthr = thr, viu_devnum = int n, viu_fd = int n, viu_dying = False\<rparr>, cs')"
    using c by blast
  moreover have "rumpns_virt_hwaddr fds (cstring (CHR ''v'' # CHR ''i'' # CHR ''r'' # CHR ''t'' # dec_nat n)) stack =
      Some (0, (take 6 (st_hwaddr (fd_st (fds ! n)))) [5 := 2])"
    using hwaddr_of_virt [OF assms(1,2), of stack] by simp
  ultimately show ?thesis
    unfolding virtif_clone_def virtif_create_def d s
    by (simp add: Let_def IFF_BROADCAST_def IFF_SIMPLEX_def IFF_MULTICAST_def IFF_RUNNING_def)
qed

theorem virtif_clone_attaches_witness:
  "\<exists>ifp viu. virtif_clone (\<lambda>_ _. 1) (replicate MAXFD fd0) [] 4 = Some (0, ifp) \<and> sc_viu ifp = Some viu \<and> viu_fd viu = 4 \<and>
     if_sadl ifp = [0, 0, 0, 0, 0, 2]"
  using virtif_clone_attaches [of 4 "replicate MAXFD fd0" "\<lambda>_ _. 1" "[]"]
  by (auto simp: MAXFD_def fd0_def stat0_def numeral_eq_Suc)

end
