(* ===== verification/Spec2Isabelle.thy ===== *)
theory Spec2Isabelle
  imports Tailq Libc Malloc Sched_Props Fdtable_Props Platform_Props Rumpuser_Props Sp_Wire_Props Sp_Url_Props Sp_Server_Req Rexec_Props Virtif
begin

text \<open>
  Frankenlibc runs an unmodified kernel as a library in a process of the host.  This development
  models its own code, from the launcher to the hypercalls of the kernel, and proves what each part promises to the next.

  \<^bold>\<open>The parts and how they interact.\<close>
  The launcher rexec (tools/) parses a command line, opens files and network devices, describes them in
  the environment, drops privileges, restricts the system calls and executes the program.  In the
  program the host layer (platform/linux) takes over from the kernel of the host and finds the
  inherited descriptors; start-up (franken/init) reads the environment into the table \<open>__franken_fd\<close>,
  registers the descriptors with the library kernel and calls \<open>main\<close>.  The library kernel is served by
  the hypercalls (librumpuser), which rest on a small libc (franken/libc), a storage allocator
  (franken/malloc), a cooperative thread library (franken/thread) and the host layer.  The interface
  \<open>virt\<close> (libvirtif) and the timecounter (libtc) are drivers in that kernel.  The system call
  proxy (librumpuser/sysproxy.c) serves system calls of other processes over a socket.

  \<^bold>\<open>Theories.\<close>  Definitions have the names of the C functions, with a suffix or prefix where HOL has the name.
  \<^item> \<open>Franken_Prelude\<close>: error numbers, integers with wrap-around, byte strings.  \<open>Calls\<close>: calls that
    leave the modelled code, answered by a parameter and recorded in order.
  \<^item> \<open>Tailq\<close>: the TAILQ macros of franken/include/sys/queue.h on a store of pointers.  The locale
    \<open>tail_queue\<close> is the contract of a list; the macros meet it for every legal sequence of operations.
  \<^item> \<open>Libc\<close>: franken/libc.  A C string is the rest of its object; an access behind it is \<open>None\<close>.
  \<^item> \<open>Malloc\<close>: franken/malloc/malloc.c on a memory of bytes.  An invariant of the heap is kept by every
    operation; the locale \<open>heap_allocator\<close> gives disjointness for sequences of allocations.
  \<^item> \<open>Sched\<close>, \<open>Sync\<close>: franken/thread/thread.c as a machine whose transitions are the stretches of a
    thread between calls of the scheduler.  \<open>Sched_Inv\<close>, \<open>Sched_Mutex\<close>, \<open>Sched_Fair\<close>, \<open>Sched_Props\<close>: the invariant
    of all reachable states, mutual exclusion, no lost wake-up, bounded overtaking, the choice of the scheduler.
  \<^item> \<open>Fdtable\<close>, \<open>Fdtable_Props\<close>: franken/init/fdinit.c and start_main.c; what the table holds, which
    devices are attached, and that registration ends.
  \<^item> \<open>Platform_Linux\<close>, \<open>Vdso\<close>, \<open>Platform_Props\<close>: platform/linux; aligned mappings over the flags of the caller, short sleeps, the
    return convention of system calls, the lookup in the vDSO.
  \<^item> \<open>Rumpuser\<close>, \<open>Rumpuser_Props\<close>: librumpuser/rumpuser.c, rumpuser_mem.c, rumpuser_file.c and
    rumpuser_random.c; each hypercall on threads is a transition of the thread machine.
  \<^item> \<open>Sp_Wire\<close>, \<open>Sp_Url\<close>, \<open>Sp_Server\<close> and their \<open>_Inv\<close>, \<open>_Steps\<close>, \<open>_Req\<close>, \<open>_Props\<close>: librumpuser/sysproxy.c.  Frames
    round trip over sockets that split them anywhere; the reference counts, slots and worker
    counters agree in every reachable state; an answer goes to the worker that waits for it.  A send
    is one transition; a worker that waits to exec may be woken at any time, by a contended send or without a reason.
  \<^item> \<open>Timecounter\<close>, \<open>Virtif\<close>: libtc/franken_tc.c, libvirtif and rumpuser_component.c; sending, delivery,
    the creation of an interface, and the rate of the timecounter.
  \<^item> \<open>Rexec\<close>, \<open>Netlink\<close>, \<open>Rexec_Linux\<close>, \<open>Rexec_Bsd\<close>: tools/rexec.c, linux.c, freebsd.c, netbsd.c and darwin.c.
    A run returns, exits, executes the program or faults.  \<open>Rexec_Layer\<close> has the locale
    \<open>os_layer\<close> of what \<open>main\<close> relies on, interpreted on all four layers; \<open>Rexec_Main\<close> what
    \<open>main\<close> then guarantees; \<open>Rexec_Sandbox\<close> the rules of the Linux filter; \<open>Rexec_Live\<close> that a run
    executes the program when no call fails; \<open>Rexec_Props\<close> the properties.
  \<^item> This theory: what the launcher described is what the program finds.

  \<^bold>\<open>Conventions.\<close>
  State is passed explicitly; an assertion, an abort or undefined behaviour is a value (\<open>None\<close>, \<open>Fault\<close>, or a
  state of the machine), so that a theorem on a run says whether it can happen.  Flags are words, times and
  results \<open>int\<close> with \<open>wrap32\<close> and \<open>wrap64\<close> written out.  The kernel of the host, libseccomp, the functions of the
  library kernel and uninitialised memory are parameters; what the code relies on of them
  is a named hypothesis with a witness.

  \<^bold>\<open>Bounds.\<close>
  Recursion is structural or has a termination proof, except for these.
  \<^item> The loop of \<open>__franken_fdinit_create\<close> takes a number of rounds; 59 are enough, whatever the kernel answers.
  \<^item> The busy sleep takes a number of clock readings; on a clock that advances, two more
    than the interval has nanoseconds are enough.
  \<^item> \<open>TAILQ_FOREACH\<close> takes a bound on the walk; the length of the list is enough.
  \<^item> \<open>exit\<close> takes a bound on the handlers called, since a handler may register others.
  \<^item> That the open requests of the proxy server have different numbers holds for the first \<open>2 ^ 64\<close> transitions, as
    the numbers have 64 bits; its other properties hold for all.

  \<^bold>\<open>Not modelled.\<close>
  \<^item> The layers of the host other than Linux (platform/darwin, freebsd, netbsd, spike, qemu-arm,
    deterministic): thin wrappers of system calls with nothing of their own to prove.
  \<^item> Contexts and stacks (franken/ucontext, \<open>create_ctx\<close>): assembly and register frames.
  \<^item> In the thread library the functions that nothing calls and the tracing macros; in the allocator the debugging
    builds, \<open>strdup\<close> and the statistics; in sys/queue.h the families that are not used.
  \<^item> On Linux the branch for a forked child, the thread area, and the one-line system call wrappers.
  \<^item> rumpuser_sp.c, rumpuser_daemonize.c, rumpuser_dl.c, rumpkernel/linux.c and the stubs: constants, aborts and
    forwarding.
  \<^item> The build of the interface with link strings, which the makefiles do not make.
  \<^item> The vendored trees: NetBSD (src/src), buildrump.sh with its DHCP client, the
    test programs; the submodules are not in the tree.
  \<^item> Messages printed for the user.
\<close>

section \<open>From the launcher to the program\<close>

lemma described_in_env:
  assumes "os \<in> set (layers h)" and "rexec_main os h junk argv (rx0 env) = Exec p a e s"
    and "map_of (rev (fdinfo_list s)) n = Some fd" and "n \<noteq> []" and "CHR ''='' \<notin> set n"
  shows "n @ ''='' @ take 7 (dec_int fd) \<in> set e"
proof -
  obtain s4 where 1: "e = env_strings s" "rx_env s = rx_env (fdinfo_setenv s4)" "fdinfo_list s = fdinfo_list s4"
    using layers_main [OF assms(1,2)] unfolding executed_def by blast
  have "env_get n s = Some (take 7 (dec_int fd))"
    using fdinfo_setenv_get [of n s4 fd] assms(3-5) 1(2,3) by (simp add: env_get_def)
  then have "(n, take 7 (dec_int fd)) \<in> set (rx_env s)" unfolding env_get_def by (rule map_of_SomeD)
  then show ?thesis unfolding 1(1) env_strings_def by force
qed

lemma fd_of_entry:
  assumes "CHR ''='' \<notin> set n" and "0 \<le> fd" and "fd < int MAXFD"
  shows "fd_of (n @ ''='' @ take 7 (dec_int fd)) = fd"
proof -
  have d: "take 7 (dec_int fd) = dec_int fd"
    using le_trans [OF dec_nat_short [of "nat fd"], of 7] assms(2,3) by (simp add: dec_int_def MAXFD_def)
  have "dropWhile (\<lambda>c. c \<noteq> CHR ''='') (n @ ''='' @ dec_int fd) = ''='' @ dec_int fd"
    using assms(1) by (subst dropWhile_append2) auto
  then show ?thesis
    unfolding fd_of_def d using atoi_dec_int [of fd NUL "[]"] assms(2,3) by (simp add: cstring_def MAXFD_def isdigit_def)
qed

text \<open>
  C8: What the launcher described last under a name arrives in the program.  When rexec, on any operating
  system, executes a program with the environment \<open>e\<close>, then \<open>__franken_fdinit\<close> of the program, run on
  this environment, ends, and the descriptor that rexec described last under the name \<open>n\<close> has an entry that is
  valid and has the flags and the status that the host reports for it.  The name has the prefix of the descriptions
  and no equals sign, the descriptor is between 0 and 63, and the entries of \<open>e\<close> meet \<open>entry_ok\<close>: the
  program's host knows the descriptors that they describe, which are below 64.  An earlier
  descriptor of the same name is lost, and so is one whose path has an equals sign (\<open>same_name_lost\<close>, \<open>equals_sign_lost\<close>).
\<close>

theorem described_descriptor_arrives:
  assumes "os \<in> set (layers h)" and "rexec_main os h junk argv (rx0 env) = Exec p a e s"
    and "map_of (rev (fdinfo_list s)) n = Some fd" and "take 14 n = ''__RUMP_FDINFO_''" and "CHR ''='' \<notin> set n"
    and "0 \<le> fd" and "fd < int MAXFD" and "\<forall>x \<in> set e. entry_ok g x"
  shows "\<exists>st. franken_fdinit g (map cstring e) init0 = Some st \<and> fd_valid (fdt st ! nat fd) = 1 \<and>
    fd_flags (fdt st ! nat fd) = h_getfl g fd \<and> h_fstat g fd = Some (fd_st (fdt st ! nat fd))"
proof -
  let ?x = "n @ ''='' @ take 7 (dec_int fd)"
  have x: "?x \<in> set e" using described_in_env [OF assms(1-3) _ assms(5)] assms(4) by fastforce
  have "14 \<le> length n" using arg_cong [OF assms(4), of length] by simp
  then have "is_info ?x" using assms(4) by (simp add: is_info_def)
  moreover have "fd_of ?x = fd" using assms(5-7) by (rule fd_of_entry)
  ultimately have k: "known g (set e) (nat fd)" using x assms(6) unfolding known_def by fastforce
  obtain st where "franken_fdinit g (map cstring e) init0 = Some st" "tab_inv g (set e) st"
    using franken_fdinit_all [OF assms(8)] by blast
  moreover from this(2) k assms(6,7) have "entry_inv g (set e) (nat fd) (fdt st ! nat fd)" by (simp add: tab_inv_def nat_less_iff)
  ultimately show ?thesis using k assms(6) by (auto simp: entry_inv_def)
qed

text \<open>A run on NetBSD, on a host that answers 1 to every call.\<close>

definition one_host :: rhost where
  "one_host = \<lparr>r_ans = (\<lambda>_ _. 1), r_bytes = (\<lambda>_. []), r_mode = (\<lambda>_. S_IFREG), r_tmpdir = [], r_stack = (\<lambda>_. []), r_ptr = (\<lambda>_. 0)\<rparr>"

definition one_run :: "int run" where
  "one_run = rexec_main (netbsd_ops one_host) one_host [None, None, None] [''r'', ''/x'', ''d''] (rx0 [(''UUID'', ''0'')])"

lemma dec_int_1: "dec_int 1 = ''1''"
  by code_simp

lemma one_run_exec:
  "\<exists>p a s. one_run = Exec p a [''UUID=0'', ''__RUMP_FDINFO_DISK_d=1''] s \<and> fdinfo_list s = [(''__RUMP_FDINFO_DISK_d'', 1)]"
  unfolding one_run_def
  by (simp add: rexec_main_def uuid_def env_get_def rx0_def open_disk_def must_def rcall_def one_host_def set_nonblock_def fdinfo_add_def
    FDINFO_MAX_def FDINFO_NAMELEN_def FDINFO_ENV_PREFIX_DISK_def opts0_def build_pargs_def main_run_def find_program_def check_program_def
    netbsd_ops_def netbsd_init_def drop_ids_def choose_user_def open_9pfs_def launch_def alloc_tables_def check_root_def rdo_def Let_def
    c_argv_def env_strings_def fdinfo_setenv_def setenv_def plain_load_exec_def do_exec_def S_IFREG_def S_IFMT_def dec_int_1)

theorem described_descriptor_arrives_witness:
  "\<exists>p a e s st. one_run = Exec p a e s \<and> franken_fdinit blk_host (map cstring e) init0 = Some st \<and> fd_valid (fdt st ! 1) = 1"
proof -
  obtain p a s where r: "one_run = Exec p a [''UUID=0'', ''__RUMP_FDINFO_DISK_d=1''] s" "fdinfo_list s = [(''__RUMP_FDINFO_DISK_d'', 1)]"
    using one_run_exec by blast
  have "netbsd_ops one_host \<in> set (layers one_host)" by (simp add: layers_def)
  moreover have "\<forall>x \<in> set [''UUID=0'', ''__RUMP_FDINFO_DISK_d=1'']. entry_ok blk_host x"
    by (simp add: entry_ok_def is_info_def fd_of_def blk_host_def cstring_def atoi_def isspace_def isdigit_def wrap32_def nul_free_def MAXFD_def)
  ultimately obtain st where "franken_fdinit blk_host (map cstring [''UUID=0'', ''__RUMP_FDINFO_DISK_d=1'']) init0 = Some st"
    "fd_valid (fdt st ! nat 1) = 1"
    using described_descriptor_arrives [OF _ r(1) [unfolded one_run_def], of "''__RUMP_FDINFO_DISK_d''" 1 blk_host] r(2)
    by (auto simp: MAXFD_def)
  with r(1) show ?thesis unfolding nat_one_as_int [symmetric] by blast
qed
end
